(* ===== verification/Prelude.thy ===== *)
theory Prelude
  imports Main "HOL-Library.AList" "HOL-Library.Sublist" "HOL-Library.List_Lexorder"
    "HOL-Library.Char_ord" "HOL-Library.Product_Lexorder"
begin

text \<open>
  Shared ground of the development: the text operations of Python's \<open>str\<close> the tools use, insertion
  ordered dictionaries, and a few list lemmas.

  A Python string is represented by its UTF-8 bytes, one \<^typ>\<open>char\<close> per byte. Every operation
  modelled here works on ASCII delimiters, and UTF-8 keeps code point order, so equality,
  \<open>startswith\<close>, \<open>in\<close>, \<open>split\<close> and \<open>sorted\<close> agree with Python's. \<open>strip\<close> and \<open>lower\<close> treat ASCII
  characters only; the service answers and host lists they are applied to are ASCII.
\<close>

named_theorems text_simps "unfolding rules of the text operations"

subsection \<open>Python's str\<close>

definition is_space :: "char \<Rightarrow> bool" where
  "is_space c \<longleftrightarrow> (let n = (of_char c :: nat) in n = 32 \<or> (9 \<le> n \<and> n \<le> 13) \<or> (28 \<le> n \<and> n \<le> 31))"

definition strip_by :: "(char \<Rightarrow> bool) \<Rightarrow> string \<Rightarrow> string" where
  "strip_by p s = rev (dropWhile p (rev (dropWhile p s)))"

definition strip :: "string \<Rightarrow> string" where
  "strip = strip_by is_space"

definition lower :: "string \<Rightarrow> string" where
  "lower = map (\<lambda>c. let n = (of_char c :: nat) in if 65 \<le> n \<and> n \<le> 90 then char_of (n + 32) else c)"

definition starts_with :: "string \<Rightarrow> string \<Rightarrow> bool" where
  "starts_with s p \<longleftrightarrow> take (length p) s = p"

definition ends_with :: "string \<Rightarrow> string \<Rightarrow> bool" where
  "ends_with s p \<longleftrightarrow> starts_with (rev s) (rev p)"

fun contains :: "string \<Rightarrow> string \<Rightarrow> bool" where
  "contains [] p = (p = [])"
| "contains (c # s) p = (starts_with (c # s) p \<or> contains s p)"

text \<open>\<open>str.split(sep)\<close> for a one-character separator: never empty, and joining gives the string back.\<close>

fun split_on :: "char \<Rightarrow> string \<Rightarrow> string list" where
  "split_on sep [] = [[]]"
| "split_on sep (c # s) =
     (if c = sep then [] # split_on sep s
      else (case split_on sep s of [] \<Rightarrow> [[c]] | w # ws \<Rightarrow> (c # w) # ws))"

text \<open>\<open>str.split()\<close>: the maximal runs of non-space characters.\<close>

function words :: "string \<Rightarrow> string list" where
  "words s =
     (let s' = dropWhile is_space s
      in if s' = [] then []
         else takeWhile (\<lambda>c. \<not> is_space c) s' # words (dropWhile (\<lambda>c. \<not> is_space c) s'))"
  by pat_completeness auto

termination
proof (relation "measure length")
  fix s s' :: string
  assume "s' = dropWhile is_space s" and "s' \<noteq> []"
  then have "\<not> is_space (hd s')" by (simp add: hd_dropWhile)
  with \<open>s' \<noteq> []\<close> have "length (dropWhile (\<lambda>c. \<not> is_space c) s') < length s'"
    by (cases s') (auto simp: length_dropWhile_le le_imp_less_Suc)
  also have "\<dots> \<le> length s" using \<open>s' = _\<close> by (simp add: length_dropWhile_le)
  finally show "(dropWhile (\<lambda>c. \<not> is_space c) s', s) \<in> measure length" by simp
qed simp

declare words.simps [simp del]

fun join :: "string \<Rightarrow> string list \<Rightarrow> string" where
  "join sep [] = []"
| "join sep [w] = w"
| "join sep (w # ws) = w @ sep @ join sep ws"

text \<open>\<open>str(n)\<close> for an integer.\<close>

fun dec :: "nat \<Rightarrow> string" where
  "dec n = (if n < 10 then [char_of (48 + n)] else dec (n div 10) @ [char_of (48 + n mod 10)])"

declare dec.simps [simp del]

definition dec_int :: "int \<Rightarrow> string" where
  "dec_int i = (if i < 0 then CHR ''-'' # dec (nat (- i)) else dec (nat i))"

text \<open>
  \<open>int(text)\<close>: surrounding whitespace, one optional sign, then digits, in which single underscores
  may separate digits; \<open>None\<close> is the ValueError.
\<close>

definition digit :: "char \<Rightarrow> nat option" where
  "digit c = (let n = (of_char c :: nat) in if 48 \<le> n \<and> n \<le> 57 then Some (n - 48) else None)"

fun digits :: "nat \<Rightarrow> string \<Rightarrow> nat option" where
  "digits acc [] = Some acc"
| "digits acc (c # s) =
     (case digit c of
        Some d \<Rightarrow> digits (10 * acc + d) s
      | None \<Rightarrow> (if c = CHR ''_'' then
                   (case s of [] \<Rightarrow> None
                    | c' # s' \<Rightarrow> (case digit c' of Some d \<Rightarrow> digits (10 * acc + d) s' | None \<Rightarrow> None))
                 else None))"

definition py_nat :: "string \<Rightarrow> nat option" where
  "py_nat s = (case s of [] \<Rightarrow> None
               | c # s' \<Rightarrow> (case digit c of Some d \<Rightarrow> digits d s' | None \<Rightarrow> None))"

definition py_int :: "string \<Rightarrow> int option" where
  "py_int text =
     (case strip text of
        [] \<Rightarrow> None
      | c # s \<Rightarrow> (if c = CHR ''-'' then map_option (\<lambda>n. - int n) (py_nat s)
                  else if c = CHR ''+'' then map_option int (py_nat s)
                  else map_option int (py_nat (c # s))))"

subsection \<open>Facts about the text operations\<close>

lemma starts_with_prefix [text_simps]: "starts_with s p \<longleftrightarrow> prefix p s"
  by (metis append_eq_conv_conj append_take_drop_id prefix_def starts_with_def)

lemma ends_with_suffix [text_simps]: "ends_with s p \<longleftrightarrow> suffix p s"
  by (simp add: ends_with_def starts_with_prefix suffix_to_prefix)

lemma contains_sublist [text_simps]: "contains s p \<longleftrightarrow> sublist p s"
  by (induction s) (auto simp: starts_with_prefix sublist_Cons_right)

lemma split_on_not_Nil [simp]: "split_on sep s \<noteq> []"
  by (cases s) (auto split: list.splits)

lemma join_Cons: "ws \<noteq> [] \<Longrightarrow> join sep (w # ws) = w @ sep @ join sep ws"
  by (cases ws) auto

lemma set_join: "set (join sep ws) \<subseteq> set sep \<union> \<Union> (set ` set ws)"
  by (induction ws rule: join.induct [of _ sep]) auto

lemma join_split_on: "join [sep] (split_on sep s) = s"
proof (induction s)
  case Nil
  then show ?case by simp
next
  case (Cons c s)
  obtain w ws where w: "split_on sep s = w # ws"
    by (cases "split_on sep s") auto
  with Cons show ?case
    by (cases ws) (auto simp: join_Cons)
qed

lemma split_on_no_sep: "w \<in> set (split_on sep s) \<Longrightarrow> sep \<notin> set w"
  by (induction s arbitrary: w) (auto split: if_splits list.splits)

lemma split_on_single: "sep \<notin> set s \<Longrightarrow> split_on sep s = [s]"
  by (induction s) auto

lemma split_on_append: "sep \<notin> set w \<Longrightarrow> split_on sep (w @ sep # s) = w # split_on sep s"
  by (induction w) auto

lemma split_on_append_sep: "split_on sep (u @ sep # s) = split_on sep u @ split_on sep s"
proof (induction u)
  case Nil
  then show ?case by simp
next
  case (Cons c u)
  then show ?case by (cases "split_on sep u") auto
qed

lemma split_on_join:
  "ws \<noteq> [] \<Longrightarrow> \<forall>w \<in> set ws. sep \<notin> set w \<Longrightarrow> split_on sep (join [sep] ws) = ws"
proof (induction ws)
  case Nil
  then show ?case by simp
next
  case (Cons w ws)
  show ?case
  proof (cases "ws = []")
    case True
    with Cons.prems show ?thesis by (simp add: split_on_single)
  next
    case False
    with Cons show ?thesis by (simp add: join_Cons split_on_append)
  qed
qed

lemma words_nonempty: "\<forall>w \<in> set (words s). w \<noteq> [] \<and> (\<forall>c \<in> set w. \<not> is_space c)"
proof (induction s rule: words.induct)
  case (1 s)
  let ?s = "dropWhile is_space s"
  show ?case
  proof (cases "?s = []")
    case True
    then show ?thesis by (subst words.simps) simp
  next
    case False
    then have "\<not> is_space (hd ?s)" by (simp add: hd_dropWhile)
    with False have first: "takeWhile (\<lambda>c. \<not> is_space c) ?s \<noteq> []" by (cases ?s) auto
    have "words s = takeWhile (\<lambda>c. \<not> is_space c) ?s # words (dropWhile (\<lambda>c. \<not> is_space c) ?s)"
      using False by (subst words.simps) (simp only: Let_def if_False)
    moreover have "\<forall>c \<in> set (takeWhile (\<lambda>c. \<not> is_space c) ?s). \<not> is_space c"
      by (auto dest: set_takeWhileD)
    moreover note first 1 [OF refl False]
    ultimately obtain w ws where "words s = w # ws" "w \<noteq> []" "\<forall>c \<in> set w. \<not> is_space c"
      "\<forall>w \<in> set ws. w \<noteq> [] \<and> (\<forall>c \<in> set w. \<not> is_space c)"
      by blast
    then show ?thesis by simp
  qed
qed

lemma strip_no_space:
  assumes "\<forall>c \<in> set w. \<not> is_space c"
  shows "strip w = w"
  using assms by (metis strip_by_def strip_def dropWhile_eq_self_iff hd_in_set rev_rev_ident set_rev)

lemma dec_not_Nil [simp]: "dec n \<noteq> []"
  by (subst dec.simps) simp

lemma digit_char_of: "d < 10 \<Longrightarrow> digit (char_of (48 + d)) = Some d"
  by (simp add: digit_def)

lemma digits_append_dec:
  "digits acc (s @ [char_of (48 + d)]) = map_option (\<lambda>a. 10 * a + d) (digits acc s)"
  if "d < 10" "\<forall>c \<in> set s. digit c \<noteq> None"
  using that by (induction s arbitrary: acc) (auto simp: digit_char_of)

lemma dec_digits: "\<forall>c \<in> set (dec n). digit c \<noteq> None"
proof (induction n rule: dec.induct)
  case (1 n)
  have last_digit: "digit (char_of (48 + n mod 10)) \<noteq> None"
    by (subst digit_char_of) simp_all
  show ?case
  proof (cases "n < 10")
    case True
    with digit_char_of [of n] show ?thesis by (subst dec.simps) simp
  next
    case False
    with 1 last_digit show ?thesis by (subst dec.simps) auto
  qed
qed

lemma digits_0_dec: "digits 0 (dec n) = Some n"
proof (induction n rule: dec.induct)
  case (1 n)
  show ?case
  proof (cases "n < 10")
    case True
    then show ?thesis by (subst dec.simps) (simp add: digit_char_of)
  next
    case False
    have "digits 0 (dec (n div 10) @ [char_of (48 + n mod 10)]) = Some n"
      using 1 False by (subst digits_append_dec) (simp_all add: dec_digits)
    with False show ?thesis by (subst dec.simps) simp
  qed
qed

lemma py_nat_dec: "py_nat (dec n) = Some n"
proof -
  obtain c s where cs: "dec n = c # s" by (cases "dec n") simp_all
  then obtain d where d: "digit c = Some d" using dec_digits [of n] by auto
  with cs digits_0_dec [of n] show ?thesis by (simp add: py_nat_def)
qed

lemma inj_dec: "dec m = dec n \<longleftrightarrow> m = n"
  by (metis option.inject py_nat_dec)

lemma dec_no_dot: "CHR ''.'' \<notin> set (dec n)"
proof
  assume "CHR ''.'' \<in> set (dec n)"
  with dec_digits [of n] have "digit (CHR ''.'') \<noteq> None" by blast
  then show False by (simp add: digit_def)
qed

lemma dec_not_space: "\<forall>c \<in> set (dec n). \<not> is_space c"
proof
  fix c
  assume "c \<in> set (dec n)"
  with dec_digits [of n] have "digit c \<noteq> None" by blast
  then show "\<not> is_space c" by (auto simp: digit_def is_space_def Let_def split: if_splits)
qed

lemma py_int_dec: "py_int (dec n) = Some (int n)"
proof -
  obtain c s where cs: "dec n = c # s" by (cases "dec n") simp_all
  with dec_digits [of n] have "digit c \<noteq> None" by simp
  then have "c \<noteq> CHR ''-''" "c \<noteq> CHR ''+''" by (auto simp: digit_def)
  with cs py_nat_dec [of n] strip_no_space [OF dec_not_space, of n] show ?thesis
    by (simp add: py_int_def)
qed

lemma py_int_dec_int [simp]: "py_int (dec_int n) = Some n"
proof (cases "n < 0")
  case True
  then have "strip (dec_int n) = dec_int n"
    using dec_not_space by (intro strip_no_space) (auto simp: dec_int_def is_space_def)
  with True show ?thesis by (simp add: py_int_def dec_int_def py_nat_dec)
qed (simp add: dec_int_def py_int_dec)

subsection \<open>Insertion-ordered dictionaries\<close>

text \<open>
  A Python \<open>dict\<close> built by successive \<open>d[k] = v\<close>: a later write replaces the value and keeps the
  position of the key.
\<close>

definition dict_of :: "('k \<times> 'v) list \<Rightarrow> ('k \<times> 'v) list" where
  "dict_of kvs = fold (\<lambda>(k, v) d. AList.update k v d) kvs []"

lemma map_of_fold_update:
  "map_of (fold (\<lambda>(k, v) d. AList.update k v d) kvs d) = map_of d ++ map_of (rev kvs)"
  by (induction kvs arbitrary: d) (auto simp: update_conv' map_add_def fun_eq_iff split: option.splits)

lemma map_of_dict_of: "map_of (dict_of kvs) k = map_of (rev kvs) k"
  by (simp add: dict_of_def map_of_fold_update)

lemma distinct_dict_of: "distinct (map fst (dict_of kvs))"
proof -
  have "distinct (map fst (fold (\<lambda>(k, v) d. AList.update k v d) kvs d))"
    if "distinct (map fst d)" for d :: "('a \<times> 'b) list"
    using that by (induction kvs arbitrary: d) (auto simp: distinct_update)
  then show ?thesis by (simp add: dict_of_def)
qed

lemma keys_dict_of: "fst ` set (dict_of kvs) = fst ` set kvs"
  by (metis dom_map_of_conv_image_fst map_of_dict_of domIff rev_rev_ident set_rev subsetI
      subset_antisym)

lemma dict_of_distinct: "distinct (map fst kvs) \<Longrightarrow> dict_of kvs = kvs"
proof -
  have "distinct (map fst (d @ kvs)) \<Longrightarrow> fold (\<lambda>(k, v) d. AList.update k v d) kvs d = d @ kvs" for d
  proof (induction kvs arbitrary: d)
    case Nil
    then show ?case by simp
  next
    case (Cons kv kvs)
    obtain k v where kv: "kv = (k, v)" by force
    have "k \<notin> fst ` set d \<Longrightarrow> AList.update k v d = d @ [(k, v)]"
      by (induction d) auto
    with Cons kv show ?case by simp
  qed
  from this [of "[]"] show "distinct (map fst kvs) \<Longrightarrow> dict_of kvs = kvs"
    by (simp add: dict_of_def)
qed

text \<open>First occurrences, in order: the keys of a dict filled from a list.\<close>

definition first_occurrences :: "'a list \<Rightarrow> 'a list" where
  "first_occurrences xs = rev (remdups (rev xs))"

lemma set_first_occurrences [simp]: "set (first_occurrences xs) = set xs"
  by (simp add: first_occurrences_def)

lemma distinct_first_occurrences [simp]: "distinct (first_occurrences xs)"
  by (simp add: first_occurrences_def)

end
