(* ===== verification/Json.thy ===== *)
theory Json
  imports Prelude
begin

text \<open>
  Decoded JSON bodies as the Python code sees them, and the Python operations the tools apply to
  them: truth value, \<open>get\<close>, \<open>[...]\<close>, iteration and \<open>in\<close>. Each operation raises what Python raises on
  a value of the wrong shape, so a reply that is not the documented object is a branch of the model.
  \<open>JNull\<close> stands for JSON's null and for Python's None, which are the same value after
  decoding. An object holds its members in order; the decoder never yields a key twice. Numbers are
  integers: no body the tools read holds another kind.
\<close>

datatype json =
    JNull
  | JBool bool
  | JNum int
  | JStr string
  | JArr "json list"
  | JObj "(string \<times> json) list"

text \<open>The exceptions of the language itself, none of which the tools' handlers name.\<close>

datatype pyerr = AttributeError | KeyError | TypeError | EOFError | OSError | ValueError | IndexError
  | OverflowError | UnicodeDecodeError | ZeroDivisionError | NameError

type_synonym 'a py = "pyerr + 'a"

definition ebind :: "'a py \<Rightarrow> ('a \<Rightarrow> 'b py) \<Rightarrow> 'b py" where
  "ebind m f = (case m of Inl e \<Rightarrow> Inl e | Inr x \<Rightarrow> f x)"

fun emap :: "('a \<Rightarrow> 'b py) \<Rightarrow> 'a list \<Rightarrow> 'b list py" where
  "emap f [] = Inr []"
| "emap f (x # xs) = ebind (f x) (\<lambda>y. ebind (emap f xs) (\<lambda>ys. Inr (y # ys)))"

lemma ebind_simps [simp]:
  "ebind (Inl e) f = Inl e"
  "ebind (Inr x) f = f x"
  by (simp_all add: ebind_def)

lemma ebind_Inr_iff: "ebind m f = Inr y \<longleftrightarrow> (\<exists>x. m = Inr x \<and> f x = Inr y)"
  by (auto simp: ebind_def split: sum.splits)

lemma emap_Inr_iff: "emap f xs = Inr ys \<longleftrightarrow> list_all2 (\<lambda>x y. f x = Inr y) xs ys"
  by (induction xs arbitrary: ys) (auto simp: ebind_Inr_iff list_all2_Cons1)

lemma emap_Inr_map: "(\<And>x. x \<in> set xs \<Longrightarrow> f x = Inr (g x)) \<Longrightarrow> emap f xs = Inr (map g xs)"
  by (induction xs) auto

subsection \<open>Python operations on decoded values\<close>

fun truthy :: "json \<Rightarrow> bool" where
  "truthy JNull = False"
| "truthy (JBool b) = b"
| "truthy (JNum i) = (i \<noteq> 0)"
| "truthy (JStr s) = (s \<noteq> [])"
| "truthy (JArr xs) = (xs \<noteq> [])"
| "truthy (JObj kvs) = (kvs \<noteq> [])"

definition or_else :: "json \<Rightarrow> json \<Rightarrow> json" where
  "or_else a b = (if truthy a then a else b)"

text \<open>\<open>value.get(key, default)\<close>: only an object has the method.\<close>

fun jget_default :: "json \<Rightarrow> string \<Rightarrow> json \<Rightarrow> json py" where
  "jget_default (JObj kvs) k d = Inr (case map_of kvs k of None \<Rightarrow> d | Some v \<Rightarrow> v)"
| "jget_default _ k d = Inl AttributeError"

definition jget :: "json \<Rightarrow> string \<Rightarrow> json py" where
  "jget j k = jget_default j k JNull"

text \<open>\<open>value["key"]\<close>: a missing key is a KeyError, any other shape a TypeError.\<close>

fun jindex :: "json \<Rightarrow> string \<Rightarrow> json py" where
  "jindex (JObj kvs) k = (case map_of kvs k of None \<Rightarrow> Inl KeyError | Some v \<Rightarrow> Inr v)"
| "jindex _ k = Inl TypeError"

text \<open>\<open>for x in value\<close>: an object yields its keys, a string its characters.\<close>

fun jiter :: "json \<Rightarrow> json list py" where
  "jiter (JArr xs) = Inr xs"
| "jiter (JObj kvs) = Inr (map (\<lambda>(k, v). JStr k) kvs)"
| "jiter (JStr s) = Inr (map (\<lambda>c. JStr [c]) s)"
| "jiter _ = Inl TypeError"

definition jlen :: "json \<Rightarrow> nat py" where
  "jlen j = ebind (jiter j) (\<lambda>xs. Inr (length xs))"

text \<open>\<open>s in value\<close> for a string \<open>s\<close>: a member, a key, or a substring.\<close>

fun jcontains :: "json \<Rightarrow> string \<Rightarrow> bool py" where
  "jcontains (JArr xs) s = Inr (JStr s \<in> set xs)"
| "jcontains (JObj kvs) s = Inr (s \<in> fst ` set kvs)"
| "jcontains (JStr t) s = Inr (contains t s)"
| "jcontains _ s = Inl TypeError"

text \<open>A value the code uses as text; the endpoints it comes from document a string.\<close>

fun jtext :: "json \<Rightarrow> string py" where
  "jtext (JStr s) = Inr s"
| "jtext _ = Inl TypeError"

text \<open>A value used as a dictionary key: lists and objects are not hashable.\<close>

fun jkey :: "json \<Rightarrow> json py" where
  "jkey (JArr xs) = Inl TypeError"
| "jkey (JObj kvs) = Inl TypeError"
| "jkey j = Inr j"

lemma jget_obj: "jget (JObj kvs) k = Inr (case map_of kvs k of None \<Rightarrow> JNull | Some v \<Rightarrow> v)"
  by (simp add: jget_def)

lemma jget_Inr_iff: "jget j k = Inr v \<longleftrightarrow> (\<exists>kvs. j = JObj kvs \<and> v = (case map_of kvs k of None \<Rightarrow> JNull | Some v \<Rightarrow> v))"
  by (cases j) (auto simp: jget_def)

lemma jget_not_obj: "(\<And>kvs. j \<noteq> JObj kvs) \<Longrightarrow> jget j k = Inl AttributeError"
  by (cases j) (auto simp: jget_def)

lemma jtext_Inr_iff [simp]: "jtext j = Inr s \<longleftrightarrow> j = JStr s"
  by (cases j) auto

end
