(* ===== verification/Tls.thy ===== *)
theory Tls
  imports Json
begin

text \<open>
  The TLS contexts the tools build for the driver: the part of the standard module \<open>ssl\<close> they use, and
  what a client with such a context accepts of the peer.
\<close>

subsection \<open>Building a context\<close>

datatype protocol = PROTOCOL_TLS | PROTOCOL_TLS_CLIENT | PROTOCOL_TLS_SERVER

datatype verify_mode = CERT_NONE | CERT_OPTIONAL | CERT_REQUIRED

datatype tls_version = MINIMUM_SUPPORTED | TLSv1_2 | TLSv1_3 | MAXIMUM_SUPPORTED

record ssl_context =
  check_hostname :: bool
  peer_verification :: verify_mode
  minimum_version :: tls_version
  maximum_version :: tls_version
  authorities :: "string list"
  client_chain :: "(string \<times> string) option"

text \<open>A client context starts with both checks switched on.\<close>

definition SSLContext :: "protocol \<Rightarrow> ssl_context" where
  "SSLContext p =
     \<lparr>check_hostname = (p = PROTOCOL_TLS_CLIENT),
      peer_verification = (if p = PROTOCOL_TLS_CLIENT then CERT_REQUIRED else CERT_NONE),
      minimum_version = MINIMUM_SUPPORTED, maximum_version = MAXIMUM_SUPPORTED,
      authorities = [], client_chain = None\<rparr>"

definition set_verify_mode :: "verify_mode \<Rightarrow> ssl_context \<Rightarrow> ssl_context py" where
  "set_verify_mode mode c =
     (if mode = CERT_NONE \<and> check_hostname c then Inl ValueError else Inr (c\<lparr>peer_verification := mode\<rparr>))"

text \<open>\<open>loads f\<close>: the file \<open>f\<close> is there and holds what it should; otherwise loading raises an OSError.\<close>

definition load_verify_locations :: "(string \<Rightarrow> bool) \<Rightarrow> string \<Rightarrow> ssl_context \<Rightarrow> ssl_context py" where
  "load_verify_locations loads cafile c =
     (if loads cafile then Inr (c\<lparr>authorities := authorities c @ [cafile]\<rparr>) else Inl OSError)"

definition load_cert_chain :: "(string \<Rightarrow> bool) \<Rightarrow> string \<Rightarrow> string \<Rightarrow> ssl_context \<Rightarrow> ssl_context py" where
  "load_cert_chain loads certfile keyfile c =
     (if loads certfile \<and> loads keyfile then Inr (c\<lparr>client_chain := Some (certfile, keyfile)\<rparr>) else Inl OSError)"

subsection \<open>The peer\<close>

text \<open>
  A certificate, by the authority its chain leads to and the names it is issued for. A client accepts it if
  it demands none (for a client, optional means required) or the authority is one of its own, and if it
  does not check the name or the name it asked for is one of them.
\<close>

record peer_certificate =
  issuer :: string
  issued_for :: "string list"

definition admits :: "ssl_context \<Rightarrow> string option \<Rightarrow> peer_certificate \<Rightarrow> bool" where
  "admits c name cert \<longleftrightarrow>
     (peer_verification c = CERT_NONE \<or> issuer cert \<in> set (authorities c)) \<and>
     (\<not> check_hostname c \<or> (\<exists>n. name = Some n \<and> n \<in> set (issued_for cert)))"

end
