(* ===== verification/Effects.thy ===== *)
theory Effects
  imports Tls
begin

text \<open>
  The computations of the migration tool. A computation reads and changes the tool's state, talks
  to its surroundings through calls, and ends with a value, with a Python exception, or, for a
  polling loop modelled with fuel, by running out of it. It also yields the trace of its calls with
  their answers, in order. The surroundings (the ScyllaDB REST API, the Kubernetes API, the CQL
  session, the terminal, the passing of time) are one parameter, \<open>'w env\<close>: any function that
  answers a call, says how long that took, and moves to a next world.
\<close>

subsection \<open>Calls, answers, exceptions\<close>

text \<open>
  One constructor per way the code reaches outside: an HTTP request to a node's REST API (method,
  host, port, path, query parameters, timeout in seconds), one to the Kubernetes API (method, URL),
  the SelfSubjectAccessReview POST (URL, namespace), opening the CQL session with a driver
  configuration, its replication query and its shutdown, \<open>time.sleep\<close> (seconds) and \<open>input\<close>.
\<close>

record connection =
  contact_points :: "string list"
  cql_port :: int
  tls :: "ssl_context option"
  server_name :: "string option"
  local_dc :: string
  credentials :: "(string \<times> string) option"

datatype call =
    Rest string string int string "(string \<times> string) list" int
  | Kube string string
  | Kube_review string "string option"
  | Cql_connect connection
  | Cql_replication string
  | Cql_shutdown
  | Sleep int
  | Ask

text \<open>
  An HTTP response as \<open>requests\<close> gives it: status code, body text, and what \<open>resp.json()\<close> yields
  (\<open>None\<close> for the ValueError of a body that is not JSON).
\<close>

record response =
  status_code :: int
  body_text :: string
  body_json :: "json option"

datatype answer =
    Reply response
  | Net_error
  | Row "(string \<times> string) list option"
  | Line string
  | Interrupt
  | Done

type_synonym trace = "(call \<times> answer) list"

type_synonym api_error = "string \<times> string \<times> int \<times> json"

text \<open>One constructor per \<open>raise Fatal(...)\<close> of the program, with the values its message shows.\<close>

datatype fatal =
    Kubernetes_api api_error
  | No_service_account
  | Unmatched_pods "string list"
  | May_not_delete_pods "string option"
  | Never_went_down string
  | Not_back_in_time string int
  | No_terminal
  | No_contact_points
  | Not_rollbackable string json
  | Not_back_to_vnodes string
  | Rollback_not_vnodes string json
  | Cluster_not_up
  | Status_unreadable string api_error
  | Already_tablets string
  | Unexpected_state string json
  | Preflight_failed
  | Aborted
  | Could_not_start string
  | Not_migrating string json
  | No_other_node
  | Not_on_tablets string
  | Aborted_before_finalization
  | Not_finalized string json
  | Topology_empty
  | Unreachable_nodes
  | No_node_answering

datatype exn =
    Fatal fatal
  | ApiError api_error
  | RequestException
  | KeyboardInterrupt
  | DriverError
  | SystemExit int
  | ClientError string
  | PyError pyerr

datatype stop = Exn exn | Out_of_fuel

subsection \<open>State\<close>

text \<open>
  The \<open>Node\<close> objects are mutable and shared: the list of nodes, \<open>control\<close>, \<open>peer\<close> and the node being
  restarted are references to the same objects. A node never changes its host ID and
  \<open>discover_nodes\<close> keeps one object per host ID, so the host ID is the reference and the state holds
  the other fields of each.
\<close>

type_synonym ref = string

record node =
  dc :: string
  rack :: string
  addresses :: "string list"
  api_host :: "string option"
  pod :: "string option"

text \<open>
  The state: the world the environment works on, the clock \<open>time.monotonic\<close> reads (in nanoseconds),
  the node objects, the REST port (\<open>API_PORT\<close>), and whether standard input is a terminal.
\<close>

record 'w st =
  world :: 'w
  clock :: int
  store :: "ref \<Rightarrow> node"
  api_port :: int
  tty :: bool

type_synonym 'w env = "'w \<Rightarrow> call \<Rightarrow> answer \<times> nat \<times> 'w"

text \<open>
  The combinators do not depend on the calls and the state of one tool: a computation over any state
  \<open>'s\<close> yields the events \<open>'c\<close> it caused, its end state and how it stopped.
\<close>

type_synonym ('c, 's, 'a) run = "'s \<Rightarrow> 'c list \<times> 's \<times> (stop + 'a)"

type_synonym ('w, 'a) prog = "(call \<times> answer, 'w st, 'a) run"

definition second :: int where
  "second = 1000000000"

subsection \<open>Building computations\<close>

definition ret :: "'a \<Rightarrow> ('c, 's, 'a) run" where
  "ret x s = ([], s, Inr x)"

definition halt :: "stop \<Rightarrow> ('c, 's, 'a) run" where
  "halt e s = ([], s, Inl e)"

definition raise :: "exn \<Rightarrow> ('c, 's, 'a) run" where
  "raise e = halt (Exn e)"

definition fatal :: "fatal \<Rightarrow> ('c, 's, 'a) run" where
  "fatal f = raise (Fatal f)"

definition lift :: "'a py \<Rightarrow> ('c, 's, 'a) run" where
  "lift r = (case r of Inl e \<Rightarrow> raise (PyError e) | Inr x \<Rightarrow> ret x)"

definition bind :: "('c, 's, 'a) run \<Rightarrow> ('a \<Rightarrow> ('c, 's, 'b) run) \<Rightarrow> ('c, 's, 'b) run" where
  "bind m f s =
     (case m s of
        (t, s', Inl e) \<Rightarrow> (t, s', Inl e)
      | (t, s', Inr x) \<Rightarrow> (case f x s' of (t', s'', r) \<Rightarrow> (t @ t', s'', r)))"

definition seq :: "('c, 's, 'a) run \<Rightarrow> ('c, 's, 'b) run \<Rightarrow> ('c, 's, 'b) run" where
  "seq m n = bind m (\<lambda>_. n)"

text \<open>\<open>try: m except <the exceptions c accepts> as e: h e\<close>. State changes before the exception stay.\<close>

definition catch :: "(exn \<Rightarrow> bool) \<Rightarrow> ('c, 's, 'a) run \<Rightarrow> (exn \<Rightarrow> ('c, 's, 'a) run) \<Rightarrow> ('c, 's, 'a) run" where
  "catch c m h s =
     (case m s of
        (t, s', Inr x) \<Rightarrow> (t, s', Inr x)
      | (t, s', Inl Out_of_fuel) \<Rightarrow> (t, s', Inl Out_of_fuel)
      | (t, s', Inl (Exn e)) \<Rightarrow>
          (if c e then (case h e s' of (t', s'', r) \<Rightarrow> (t @ t', s'', r))
           else (t, s', Inl (Exn e))))"

definition gets :: "('s \<Rightarrow> 'a) \<Rightarrow> ('c, 's, 'a) run" where
  "gets f s = ([], s, Inr (f s))"

definition modify :: "ref \<Rightarrow> (node \<Rightarrow> node) \<Rightarrow> ('w, unit) prog" where
  "modify r f s = ([], s\<lparr>store := (store s)(r := f (store s r))\<rparr>, Inr ())"

text \<open>\<open>for x in xs: acc = f(acc, x)\<close>, and the loops without an accumulator.\<close>

fun fold_m :: "('b \<Rightarrow> 'a \<Rightarrow> ('c, 's, 'b) run) \<Rightarrow> 'b \<Rightarrow> 'a list \<Rightarrow> ('c, 's, 'b) run" where
  "fold_m f acc [] = ret acc"
| "fold_m f acc (x # xs) = bind (f acc x) (\<lambda>acc'. fold_m f acc' xs)"

fun for_each :: "('a \<Rightarrow> ('c, 's, unit) run) \<Rightarrow> 'a list \<Rightarrow> ('c, 's, unit) run" where
  "for_each f [] = ret ()"
| "for_each f (x # xs) = seq (f x) (for_each f xs)"

fun map_m :: "('a \<Rightarrow> ('c, 's, 'b) run) \<Rightarrow> 'a list \<Rightarrow> ('c, 's, 'b list) run" where
  "map_m f [] = ret []"
| "map_m f (x # xs) = bind (f x) (\<lambda>y. bind (map_m f xs) (\<lambda>ys. ret (y # ys)))"

text \<open>\<open>try: m finally: n\<close>. An exception of \<open>n\<close> replaces that of \<open>m\<close>.\<close>

definition finally_do :: "('c, 's, 'a) run \<Rightarrow> ('c, 's, unit) run \<Rightarrow> ('c, 's, 'a) run" where
  "finally_do m n s =
     (case m s of
        (t, s1, r) \<Rightarrow>
          (if r = Inl Out_of_fuel then (t, s1, r)
           else (case n s1 of
                   (t', s2, Inl e) \<Rightarrow> (t @ t', s2, Inl e)
                 | (t', s2, Inr u) \<Rightarrow> (t @ t', s2, r))))"

text \<open>
  One call to the surroundings. Time passes: at least the requested time for a sleep, any
  non-negative time for the rest. Ctrl-C can arrive during any call and raises KeyboardInterrupt.
\<close>

definition requested_time :: "call \<Rightarrow> int" where
  "requested_time c = (case c of Sleep n \<Rightarrow> max 0 n * second | _ \<Rightarrow> 0)"

definition perform :: "'w env \<Rightarrow> call \<Rightarrow> ('w, answer) prog" where
  "perform E c s =
     (case E (world s) c of
        (a, d, w) \<Rightarrow>
          ([(c, a)],
           s\<lparr>world := w,
             clock := clock s + (if a = Interrupt then 0 else requested_time c) + int d\<rparr>,
           if a = Interrupt then Inl (Exn KeyboardInterrupt) else Inr a))"

definition sleep :: "'w env \<Rightarrow> int \<Rightarrow> ('w, unit) prog" where
  "sleep E n = bind (perform E (Sleep n)) (\<lambda>_. ret ())"

definition monotonic :: "('w, int) prog" where
  "monotonic = gets clock"

definition result :: "('c, 's, 'a) run \<Rightarrow> 's \<Rightarrow> stop + 'a" where
  "result m s = snd (snd (m s))"

definition trace_of :: "('c, 's, 'a) run \<Rightarrow> 's \<Rightarrow> 'c list" where
  "trace_of m s = fst (m s)"

definition final :: "('c, 's, 'a) run \<Rightarrow> 's \<Rightarrow> 's" where
  "final m s = fst (snd (m s))"

end
