(* ===== verification/Judgement.thy ===== *)
theory Judgement
  imports Effects
begin

text \<open>
  How the development proves facts about whole runs. \<open>obeys \<Phi> m\<close> says that every run of \<open>m\<close> relates its
  start state, its trace, its end state and how it stopped by \<open>\<Phi>\<close>. The locale \<open>composing\<close> collects
  what \<open>\<Phi>\<close> has to satisfy for the judgement to compose (a run may be empty, runs may be joined), and
  proves once that sequencing, handlers and loops keep it. The components extend it with the
  operations they need and derive \<open>obeys\<close> for their own operations inside the extension; each
  interpretation then gives one family of facts for the whole tool.
\<close>

subsection \<open>Runs of the combinators\<close>

lemma run_simps [simp]:
  "ret x s = ([], s, Inr x)"
  "halt e s = ([], s, Inl e)"
  "raise ex s = ([], s, Inl (Exn ex))"
  "fatal f s = ([], s, Inl (Exn (Fatal f)))"
  "gets g s = ([], s, Inr (g s))"
  "lift (Inr x) = ret x"
  "lift (Inl p) = raise (PyError p)"
  by (simp_all add: ret_def halt_def raise_def fatal_def gets_def lift_def)

lemma run_parts: "m s = (trace_of m s, final m s, result m s)"
  by (simp add: trace_of_def final_def result_def)

lemma run_Inr: "result m s = Inr y \<Longrightarrow> m s = (trace_of m s, final m s, Inr y)"
  by (metis run_parts)

lemma run_eq_iff: "m s = (t, s', r) \<longleftrightarrow> trace_of m s = t \<and> final m s = s' \<and> result m s = r"
  by (subst run_parts) simp

lemma bind_Inr_iff:
  "bind m f s = (t, s', Inr y) \<longleftrightarrow>
     (\<exists>t1 s1 x t2. m s = (t1, s1, Inr x) \<and> f x s1 = (t2, s', Inr y) \<and> t = t1 @ t2)"
  by (fastforce simp: bind_def split: prod.splits sum.splits)

lemma bind_Inl_iff:
  "bind m f s = (t, s', Inl e) \<longleftrightarrow>
     m s = (t, s', Inl e) \<or>
     (\<exists>t1 s1 x t2. m s = (t1, s1, Inr x) \<and> f x s1 = (t2, s', Inl e) \<and> t = t1 @ t2)"
  by (fastforce simp: bind_def split: prod.splits sum.splits)

lemma bindE:
  assumes "bind m f s = (t, s', r)"
  obtains (stopped) e where "m s = (t, s', Inl e)" "r = Inl e"
    | (went_on) t1 s1 x t2 where "m s = (t1, s1, Inr x)" "f x s1 = (t2, s', r)" "t = t1 @ t2"
  using assms by (auto simp: bind_def split: prod.splits sum.splits)

lemma catchE:
  assumes "catch c m h s = (t, s', r)"
  obtains (passed) "m s = (t, s', r)" "\<And>e. r = Inl (Exn e) \<Longrightarrow> \<not> c e"
    | (caught) t1 s1 e t2 where "m s = (t1, s1, Inl (Exn e))" "c e" "h e s1 = (t2, s', r)" "t = t1 @ t2"
  using assms by (auto simp: catch_def split: prod.splits sum.splits stop.splits if_splits)

lemma bind_InrE:
  assumes "bind m f s = (t, s', Inr y)"
  obtains t1 s1 x t2 where "m s = (t1, s1, Inr x)" "f x s1 = (t2, s', Inr y)" "t = t1 @ t2"
  using assms by (auto simp: bind_Inr_iff)

lemma seq_InrE:
  assumes "seq m n s = (t, s', Inr y)"
  obtains t1 s1 x t2 where "m s = (t1, s1, Inr x)" "n s1 = (t2, s', Inr y)" "t = t1 @ t2"
  using assms unfolding seq_def by (rule bind_InrE)

lemma finally_doE:
  assumes "finally_do m n s = (t, s', r)"
  obtains (endless) "m s = (t, s', Inl Out_of_fuel)" "r = Inl Out_of_fuel"
    | (cleaned) t1 s1 r1 t2 x where "m s = (t1, s1, r1)" "r1 \<noteq> Inl Out_of_fuel" "n s1 = (t2, s', x)"
        "t = t1 @ t2" "r = (case x of Inl e \<Rightarrow> Inl e | Inr u \<Rightarrow> r1)"
  using assms by (auto simp: finally_do_def split: prod.splits sum.splits if_splits)

lemma finally_do_InrE:
  assumes "finally_do m n s = (t, s', Inr y)"
  obtains t1 s1 t2 u where "m s = (t1, s1, Inr y)" "n s1 = (t2, s', Inr u)" "t = t1 @ t2"
  using assms by (auto simp: finally_do_def split: prod.splits sum.splits if_splits)

lemma bind_later:
  assumes "bind m f s = (t, s', Inr y)" and "\<And>x s1 t1. f x s1 = (t1, s', Inr y) \<Longrightarrow> H t1"
    and "\<And>t1 t2. H t2 \<Longrightarrow> H (t1 @ t2)"
  shows "H t"
  using assms by (auto simp: bind_Inr_iff)

lemma bind_earlier:
  assumes "bind m f s = (t, s', Inr y)" and "\<And>x s1 t1. m s = (t1, s1, Inr x) \<Longrightarrow> H t1"
    and "\<And>t1 t2. H t1 \<Longrightarrow> H (t1 @ t2)"
  shows "H t"
  using assms by (auto simp: bind_Inr_iff)

lemma bind_run:
  "m s = (t1, s1, Inr x) \<Longrightarrow> f x s1 = (t2, s2, r) \<Longrightarrow> bind m f s = (t1 @ t2, s2, r)"
  "m s = (t1, s1, Inl e) \<Longrightarrow> bind m f s = (t1, s1, Inl e)"
  by (simp_all add: bind_def)

lemma bind_ret [simp]: "bind (ret x) f = f x"
  by (rule ext) (simp add: bind_def split: prod.splits)

lemma bind_raise [simp]: "bind (raise e) f = raise e"
  by (rule ext) (simp add: bind_def)

lemma bind_fatal [simp]: "bind (fatal e) f = fatal e"
  by (rule ext) (simp add: bind_def)

lemma bind_gets: "bind (gets g) f s = f (g s) s"
  by (simp add: bind_def split: prod.splits)

lemma seq_Inr_iff:
  "seq m n s = (t, s', Inr y) \<longleftrightarrow>
     (\<exists>t1 s1 x t2. m s = (t1, s1, Inr x) \<and> n s1 = (t2, s', Inr y) \<and> t = t1 @ t2)"
  by (simp add: seq_def bind_Inr_iff)

lemma lift_Inr_iff: "lift r s = (t, s', Inr x) \<longleftrightarrow> r = Inr x \<and> t = [] \<and> s' = s"
  by (cases r) auto

lemma lift_Inl_iff: "lift r s = (t, s', Inl e) \<longleftrightarrow> (\<exists>p. r = Inl p \<and> e = Exn (PyError p)) \<and> t = [] \<and> s' = s"
  by (cases r) auto

lemma for_each_as_fold: "for_each f xs = fold_m (\<lambda>_. f) () xs"
  by (induction xs) (simp_all add: seq_def)

lemma for_each_append: "for_each f (xs @ ys) s = seq (for_each f xs) (for_each f ys) s"
  by (induction xs arbitrary: s) (simp_all add: seq_def bind_def split: prod.splits sum.splits)

text \<open>Every accumulation step of a fold that ended normally, as a relation between accumulators.\<close>

lemma fold_m_Inr_state:
  assumes "fold_m f acc xs s = (t, s', Inr acc')"
    and "P acc [] s"
    and "\<And>pre x b b' s1 t1 s2. P b pre s1 \<Longrightarrow> x \<in> set xs \<Longrightarrow> f b x s1 = (t1, s2, Inr b') \<Longrightarrow> set t1 \<subseteq> set t
           \<Longrightarrow> P b' (pre @ [x]) s2"
  shows "P acc' xs s'"
proof -
  have "P acc' (pre @ ys) s'"
    if "fold_m f b ys s1 = (t', s', Inr acc')" "P b pre s1" "set ys \<subseteq> set xs" "set t' \<subseteq> set t" for b ys s1 t' pre
    using that
  proof (induction ys arbitrary: b s1 t' pre)
    case Nil
    then show ?case by simp
  next
    case (Cons y ys)
    then obtain t1 s2 b' t2 where run: "f b y s1 = (t1, s2, Inr b')"
      "fold_m f b' ys s2 = (t2, s', Inr acc')" "t' = t1 @ t2"
      by (auto simp: bind_Inr_iff)
    with Cons.prems assms(3) have "P b' (pre @ [y]) s2" by force
    with Cons.IH [OF run(2) this] Cons.prems run(3) show ?case by simp
  qed
  from this [of acc xs s t "[]"] assms(1,2) show ?thesis by simp
qed

lemma fold_m_Inr_induct:
  assumes "fold_m f acc xs s = (t, s', Inr acc')"
    and "P acc []"
    and "\<And>pre x b b' s1 t1 s2. P b pre \<Longrightarrow> x \<in> set xs \<Longrightarrow> f b x s1 = (t1, s2, Inr b') \<Longrightarrow> set t1 \<subseteq> set t
           \<Longrightarrow> P b' (pre @ [x])"
  shows "P acc' xs"
  by (rule fold_m_Inr_state [OF assms(1), where P = "\<lambda>acc pre s. P acc pre"]) (use assms(2,3) in blast)+

lemma map_m_Inr_all2:
  assumes "map_m f xs s = (t, s', Inr ys)"
  shows "list_all2 (\<lambda>x y. \<exists>s1 t1 s2. f x s1 = (t1, s2, Inr y) \<and> set t1 \<subseteq> set t) xs ys"
  using assms
proof (induction xs arbitrary: s t ys)
  case Nil
  then show ?case by simp
next
  case (Cons x xs)
  from Cons.prems obtain t1 s1 y t2 zs where x: "f x s = (t1, s1, Inr y)"
    and xs: "map_m f xs s1 = (t2, s', Inr zs)" and t: "t = t1 @ t2" and ys: "ys = y # zs"
    by (auto simp: bind_Inr_iff)
  from Cons.IH [OF xs] have "list_all2 (\<lambda>x y. \<exists>s1 t1 s2. f x s1 = (t1, s2, Inr y) \<and> set t1 \<subseteq> set t) xs zs"
    by (rule list_all2_mono) (use t in fastforce)
  moreover from x t have "\<exists>s1 t1 s2. f x s1 = (t1, s2, Inr y) \<and> set t1 \<subseteq> set t" by fastforce
  ultimately show ?case using ys by simp
qed

subsection \<open>The judgement\<close>

definition stopped :: "stop + 'a \<Rightarrow> stop option" where
  "stopped r = (case r of Inl e \<Rightarrow> Some e | Inr _ \<Rightarrow> None)"

lemma stopped_simps [simp]:
  "stopped (Inl e) = Some e"
  "stopped (Inr x) = None"
  by (simp_all add: stopped_def)

type_synonym ('c, 's) outcome = "'s \<Rightarrow> 'c list \<Rightarrow> 's \<Rightarrow> stop option \<Rightarrow> bool"

type_synonym 'w effect = "(call \<times> answer, 'w st) outcome"

definition obeys :: "('c, 's) outcome \<Rightarrow> ('c, 's, 'a) run \<Rightarrow> bool" where
  "obeys \<Phi> m \<longleftrightarrow> (\<forall>s t s' r. m s = (t, s', r) \<longrightarrow> \<Phi> s t s' (stopped r))"

lemma obeysI: "(\<And>s t s' r. m s = (t, s', r) \<Longrightarrow> \<Phi> s t s' (stopped r)) \<Longrightarrow> obeys \<Phi> m"
  by (simp add: obeys_def)

lemma obeysD: "obeys \<Phi> m \<Longrightarrow> m s = (t, s', r) \<Longrightarrow> \<Phi> s t s' (stopped r)"
  by (simp add: obeys_def)

locale composing =
  fixes \<Phi> :: "('c, 's) outcome"
  assumes idle: "\<Phi> s [] s None"
    and raising: "\<Phi> s [] s (Some (Exn e))"
    and joined: "\<Phi> s t s1 x \<Longrightarrow> \<Phi> s1 t' s2 y \<Longrightarrow> \<Phi> s (t @ t') s2 y"
begin

text \<open>The same rules for runs the simplifier has already unfolded.\<close>

lemma obeys_unfolded [simp, intro!]:
  "obeys \<Phi> (\<lambda>s. ([], s, Inr (f s)))"
  "obeys \<Phi> (\<lambda>s. ([], s, Inl (Exn e)))"
  by (auto intro!: obeysI idle raising)

lemma obeys_ret [intro!]: "obeys \<Phi> (ret x)"
  by (auto intro!: obeysI idle)

lemma obeys_gets [intro!]: "obeys \<Phi> (gets f)"
  by (auto intro!: obeysI idle)

lemma obeys_raise [intro!]: "obeys \<Phi> (raise e)"
  by (auto intro!: obeysI raising)

lemma obeys_fatal [intro!]: "obeys \<Phi> (fatal e)"
  by (auto intro!: obeysI raising)

lemma obeys_lift [intro!]: "obeys \<Phi> (lift r)"
  by (cases r) (auto simp del: run_simps(1,3))

lemma obeys_bind [intro!]:
  assumes "obeys \<Phi> m" and "\<And>x. obeys \<Phi> (f x)"
  shows "obeys \<Phi> (bind m f)"
proof (rule obeysI)
  fix s t s' r
  assume "bind m f s = (t, s', r)"
  then show "\<Phi> s t s' (stopped r)"
    by (cases rule: bindE) (use assms in \<open>auto dest: obeysD intro: joined\<close>)
qed

text \<open>Only the values the first computation can return matter.\<close>

lemma obeys_bind_value:
  assumes m: "obeys \<Phi> m" and f: "\<And>s t s' x. m s = (t, s', Inr x) \<Longrightarrow> obeys \<Phi> (f x)"
  shows "obeys \<Phi> (bind m f)"
proof (rule obeysI)
  fix s t s' r
  assume "bind m f s = (t, s', r)"
  then show "\<Phi> s t s' (stopped r)"
  proof (cases rule: bindE)
    case (stopped e)
    with m show ?thesis by (auto dest: obeysD)
  next
    case (went_on t1 s1 x t2)
    from joined [OF obeysD [OF m went_on(1)] obeysD [OF f [OF went_on(1)] went_on(2)]] went_on(3)
    show ?thesis by simp
  qed
qed

lemma obeys_seq [intro!]: "obeys \<Phi> m \<Longrightarrow> obeys \<Phi> n \<Longrightarrow> obeys \<Phi> (seq m n)"
  unfolding seq_def by (rule obeys_bind)

lemma obeys_catch [intro!]:
  assumes "obeys \<Phi> m" and "\<And>e. obeys \<Phi> (h e)"
  shows "obeys \<Phi> (catch c m h)"
proof (rule obeysI)
  fix s t s' r
  assume "catch c m h s = (t, s', r)"
  then show "\<Phi> s t s' (stopped r)"
    by (cases rule: catchE) (use assms in \<open>auto dest: obeysD intro: joined\<close>)
qed

lemma obeys_fold_m [intro!]: "(\<And>b x. obeys \<Phi> (f b x)) \<Longrightarrow> obeys \<Phi> (fold_m f b xs)"
  by (induction xs arbitrary: b) auto

lemma obeys_for_each_in: "(\<And>x. x \<in> set xs \<Longrightarrow> obeys \<Phi> (f x)) \<Longrightarrow> obeys \<Phi> (for_each f xs)"
  by (induction xs) auto

lemma obeys_for_each [intro!]: "(\<And>x. obeys \<Phi> (f x)) \<Longrightarrow> obeys \<Phi> (for_each f xs)"
  by (rule obeys_for_each_in)

lemma obeys_map_m [intro!]: "(\<And>x. obeys \<Phi> (f x)) \<Longrightarrow> obeys \<Phi> (map_m f xs)"
  by (induction xs) auto

lemma obeys_if [intro!]: "obeys \<Phi> m \<Longrightarrow> obeys \<Phi> n \<Longrightarrow> obeys \<Phi> (if b then m else n)"
  by simp

end

text \<open>For the migration tool, whose polling loops are bounded by the clock.\<close>

locale contract = composing \<Phi> for \<Phi> :: "'w effect" +
  assumes fuelled: "(\<forall>s. \<Phi> s [] s (Some Out_of_fuel)) \<or> (\<forall>s t s' x. \<Phi> s t s' x \<longrightarrow> clock s \<le> clock s')"
begin

lemma obeys_monotonic [intro!]: "obeys \<Phi> monotonic"
  by (auto simp: monotonic_def)

end

subsection \<open>Two families of facts\<close>

text \<open>\<open>steady\<close>: time does not run backwards and no polling loop runs out of fuel.\<close>

definition steady :: "'w effect" where
  "steady s t s' x \<longleftrightarrow> clock s \<le> clock s' \<and> x \<noteq> Some Out_of_fuel"

text \<open>\<open>calls_in Q\<close>: every call of the run, with its answer, satisfies \<open>Q\<close>.\<close>

definition calls_in :: "('c \<Rightarrow> bool) \<Rightarrow> ('c, 's) outcome" where
  "calls_in Q s t s' x \<longleftrightarrow> (\<forall>c \<in> set t. Q c)"

text \<open>A call that changes nothing outside.\<close>

fun read_only :: "call \<times> answer \<Rightarrow> bool" where
  "read_only (Rest meth h port path ps tm, a) = (meth = ''GET'')"
| "read_only (Kube meth u, a) = (meth = ''GET'')"
| "read_only (_, a) = True"

text \<open>
  \<open>each_call P t0 t\<close>: every call of \<open>t\<close> satisfies \<open>P\<close> given all that happened before it, \<open>t0\<close> being the
  past of the whole run.
\<close>

fun each_call :: "(trace \<Rightarrow> call \<Rightarrow> bool) \<Rightarrow> trace \<Rightarrow> trace \<Rightarrow> bool" where
  "each_call P t0 [] = True"
| "each_call P t0 ((c, a) # t) = (P t0 c \<and> each_call P (t0 @ [(c, a)]) t)"

lemma each_call_append [simp]:
  "each_call P t0 (t @ t') \<longleftrightarrow> each_call P t0 t \<and> each_call P (t0 @ t) t'"
  by (induction t arbitrary: t0) auto

lemma each_call_iff:
  "each_call P t0 t \<longleftrightarrow> (\<forall>pre c a post. t = pre @ (c, a) # post \<longrightarrow> P (t0 @ pre) c)"
proof (induction t arbitrary: t0)
  case Nil
  then show ?case by simp
next
  case (Cons ca t)
  obtain c a where ca: "ca = (c, a)" by force
  show ?case
    by (auto simp: Cons.IH ca Cons_eq_append_conv)
qed

lemma each_call_mono:
  assumes "each_call P t0 t" and "\<And>pre c a. (c, a) \<in> set t \<Longrightarrow> P (t0 @ pre) c \<Longrightarrow> P' (t0 @ pre) c"
  shows "each_call P' t0 t"
  unfolding each_call_iff
proof (intro allI impI)
  fix pre c a post
  assume t: "t = pre @ (c, a) # post"
  with assms(1) have "P (t0 @ pre) c" unfolding each_call_iff by blast
  moreover from t have "(c, a) \<in> set t" by simp
  ultimately show "P' (t0 @ pre) c" by (rule assms(2) [rotated])
qed

lemma each_callI: "(\<And>pre c a. (c, a) \<in> set t \<Longrightarrow> P (t0 @ pre) c) \<Longrightarrow> each_call P t0 t"
  by (rule each_call_mono [where P = "\<lambda>_ _. True"]) (simp_all add: each_call_iff)

interpretation steady: contract steady
  by unfold_locales (auto simp: steady_def)

interpretation calls: composing "calls_in Q" for Q
  by unfold_locales (auto simp: calls_in_def)

interpretation tool_calls: contract "calls_in Q" for Q
  by unfold_locales (auto simp: calls_in_def)

lemma obeys_calls_in: "obeys (calls_in Q) m \<longleftrightarrow> (\<forall>s. \<forall>c \<in> set (trace_of m s). Q c)"
  unfolding obeys_def calls_in_def trace_of_def by (metis fst_conv prod_cases3)

lemma calls_inD: "obeys (calls_in Q) m \<Longrightarrow> m s = (t, s', r) \<Longrightarrow> c \<in> set t \<Longrightarrow> Q c"
  by (auto simp: obeys_def calls_in_def)

lemma steadyD: "obeys steady m \<Longrightarrow> m s = (t, s', r) \<Longrightarrow> clock s \<le> clock s' \<and> r \<noteq> Inl Out_of_fuel"
  by (cases r) (fastforce simp: obeys_def steady_def)+

lemma steady_perform: "obeys steady (perform E c)"
  by (auto simp: obeys_def steady_def perform_def requested_time_def second_def
      split: prod.splits call.splits if_splits)

lemma calls_in_perform: "(\<And>a. Q (c, a)) \<Longrightarrow> obeys (calls_in Q) (perform E c)"
  by (auto simp: obeys_def calls_in_def perform_def split: prod.splits)

lemma calls_in_mono: "obeys (calls_in Q) m \<Longrightarrow> (\<And>c. Q c \<Longrightarrow> Q' c) \<Longrightarrow> obeys (calls_in Q') m"
  by (auto simp: obeys_def calls_in_def)

lemma calls_inI: "(\<And>s t s' r c. m s = (t, s', r) \<Longrightarrow> c \<in> set t \<Longrightarrow> Q c) \<Longrightarrow> obeys (calls_in Q) m"
  by (auto simp: obeys_def calls_in_def)

lemma calls_in_finally:
  assumes m: "obeys (calls_in Q) m" and n: "obeys (calls_in Q) n"
  shows "obeys (calls_in Q) (finally_do m n)"
proof (rule calls_inI)
  fix s t s' r c
  assume "finally_do m n s = (t, s', r)" and "c \<in> set t"
  then show "Q c"
    by (cases rule: finally_doE) (auto dest: calls_inD [OF m] calls_inD [OF n])
qed

end
