(* ===== verification/Bytes.thy ===== *)
theory Bytes
  imports Prelude "HOL-Library.Word"
begin

text \<open>
  Byte strings: slices, little-endian integers and UTF-8 decoding, the parts of Python's \<open>bytes\<close> and
  \<open>int\<close> that the schema extension decoder and the Alternator value codec use. A byte is an 8-bit word.
\<close>

type_synonym byte = "8 word"

subsection \<open>Slices and integers\<close>

text \<open>\<open>xs[i:j]\<close> for indices that are not negative: out of range bounds are cut, nothing is raised.\<close>

definition slice :: "'a list \<Rightarrow> nat \<Rightarrow> nat \<Rightarrow> 'a list" where
  "slice xs i j = take (j - i) (drop i xs)"

text \<open>\<open>int.from_bytes(bs, "little")\<close>, 0 for no bytes.\<close>

fun from_le :: "byte list \<Rightarrow> nat" where
  "from_le [] = 0"
| "from_le (b # bs) = unat b + 256 * from_le bs"

text \<open>\<open>n.to_bytes(k, "little")\<close> for \<open>0 \<le> n\<close>: \<open>None\<close> is the OverflowError.\<close>

fun le_bytes :: "nat \<Rightarrow> nat \<Rightarrow> byte list" where
  "le_bytes 0 n = []"
| "le_bytes (Suc k) n = of_nat (n mod 256) # le_bytes k (n div 256)"

definition to_bytes_le :: "nat \<Rightarrow> int \<Rightarrow> byte list option" where
  "to_bytes_le k i = (if 0 \<le> i \<and> i < 256 ^ k then Some (le_bytes k (nat i)) else None)"

lemma slice_append_left: "i \<le> j \<Longrightarrow> j \<le> length xs \<Longrightarrow> slice (xs @ ys) i j = slice xs i j"
  by (simp add: slice_def)

lemma slice_at: "length xs = i \<Longrightarrow> slice (xs @ ys @ zs) i (i + length ys) = ys"
  by (simp add: slice_def)

lemma length_le_bytes [simp]: "length (le_bytes k n) = k"
  by (induction k arbitrary: n) auto

lemma unat_of_nat_byte: "unat (of_nat (n mod 256) :: byte) = n mod 256"
  by (simp add: unat_of_nat)

lemma from_le_bytes: "n < 256 ^ k \<Longrightarrow> from_le (le_bytes k n) = n"
proof (induction k arbitrary: n)
  case 0
  then show ?case by simp
next
  case (Suc k)
  then have "n div 256 < 256 ^ k" by (simp add: less_mult_imp_div_less mult.commute)
  with Suc.IH show ?case by (simp add: unat_of_nat_byte)
qed

lemma unat_byte_less: "unat (b :: byte) < 256"
  using unsigned_less [of b] by simp

lemma le_bytes_from_le: "length bs = k \<Longrightarrow> le_bytes k (from_le bs) = bs"
proof (induction bs arbitrary: k)
  case Nil
  then show ?case by simp
next
  case (Cons b bs)
  then obtain k' where k: "k = Suc k'" "length bs = k'" by auto
  have "of_nat ((unat b + 256 * from_le bs) mod 256) = b"
    using unat_byte_less [of b] by simp
  moreover have "(unat b + 256 * from_le bs) div 256 = from_le bs"
    using unat_byte_less [of b] by simp
  ultimately show ?case using Cons.IH [OF k(2)] k by simp
qed

lemma from_le_less: "from_le bs < 256 ^ length bs"
proof (induction bs)
  case Nil
  then show ?case by simp
next
  case (Cons b bs)
  have "unat b + 256 * from_le bs < 256 * (from_le bs + 1)"
    using unat_byte_less [of b] by simp
  also have "\<dots> \<le> 256 * 256 ^ length bs"
    using Cons.IH by (intro mult_le_mono2) simp
  finally show ?case by simp
qed

subsection \<open>UTF-8\<close>

text \<open>The bytes of a string, whose representation is its UTF-8 bytes, and back.\<close>

definition utf8_bytes :: "string \<Rightarrow> byte list" where
  "utf8_bytes s = map (\<lambda>c. of_nat (of_char c)) s"

definition string_of_bytes :: "byte list \<Rightarrow> string" where
  "string_of_bytes bs = map (\<lambda>b. char_of (unat b)) bs"

lemma string_of_utf8_bytes [simp]: "string_of_bytes (utf8_bytes s) = s"
proof -
  have "char_of (unat (of_nat (of_char c) :: byte)) = c" for c :: char
  proof -
    have "(of_char c :: nat) < 256" by simp
    then show ?thesis by (simp add: unat_of_nat)
  qed
  then show ?thesis by (simp add: string_of_bytes_def utf8_bytes_def comp_def)
qed

text \<open>
  One step of a decoder: the length of the well-formed sequence at the head, or else the number of
  bytes of the maximal ill-formed part, which \<open>errors="replace"\<close> turns into one U+FFFD.
\<close>

definition within :: "nat \<Rightarrow> nat \<Rightarrow> byte \<Rightarrow> bool" where
  "within lo hi b \<longleftrightarrow> lo \<le> unat b \<and> unat b \<le> hi"

definition second_byte :: "nat \<Rightarrow> byte \<Rightarrow> bool" where
  "second_byte lead b \<longleftrightarrow>
     (if lead = 224 then within 160 191 b
      else if lead = 237 then within 128 159 b
      else if lead = 240 then within 144 191 b
      else if lead = 244 then within 128 143 b
      else within 128 191 b)"

definition sequence_length :: "nat \<Rightarrow> nat" where
  "sequence_length lead =
     (if lead < 128 then 1 else if 194 \<le> lead \<and> lead \<le> 223 then 2
      else if 224 \<le> lead \<and> lead \<le> 239 then 3 else if 240 \<le> lead \<and> lead \<le> 244 then 4 else 0)"

text \<open>How many of the bytes after the lead continue the sequence, at most \<open>n\<close>.\<close>

fun continuation :: "nat \<Rightarrow> byte list \<Rightarrow> nat" where
  "continuation (Suc n) (b # bs) = (if within 128 191 b then Suc (continuation n bs) else 0)"
| "continuation _ _ = 0"

definition continued :: "nat \<Rightarrow> byte list \<Rightarrow> nat" where
  "continued lead bs =
     (case bs of [] \<Rightarrow> 0
      | b # bs' \<Rightarrow> (if second_byte lead b then Suc (continuation (sequence_length lead - 2) bs') else 0))"

definition replacement :: "byte list" where
  "replacement = [239, 191, 189]"

definition utf8_step :: "byte \<Rightarrow> byte list \<Rightarrow> byte list \<times> nat" where
  "utf8_step b bs =
     (let n = sequence_length (unat b); k = (if n \<le> 1 then 0 else continued (unat b) bs)
      in if n \<noteq> 0 \<and> Suc k = n then (b # take k bs, k) else (replacement, k))"

function utf8_replace :: "byte list \<Rightarrow> byte list" where
  "utf8_replace [] = []"
| "utf8_replace (b # bs) =
     (case utf8_step b bs of (out, k) \<Rightarrow> out @ utf8_replace (drop k bs))"
  by pat_completeness auto
termination
  by (relation "measure length") auto

declare utf8_replace.simps [simp del]

definition ascii :: "byte list \<Rightarrow> bool" where
  "ascii bs \<longleftrightarrow> (\<forall>b \<in> set bs. unat b < 128)"

text \<open>\<open>bs.decode("utf-8", "replace")\<close>\<close>

definition decode_replace :: "byte list \<Rightarrow> string" where
  "decode_replace bs = string_of_bytes (utf8_replace bs)"

text \<open>Well-formed UTF-8: nothing to replace.\<close>

definition well_formed :: "byte list \<Rightarrow> bool" where
  "well_formed bs \<longleftrightarrow> utf8_replace bs = bs"

lemma utf8_replace_ascii: "ascii bs \<Longrightarrow> utf8_replace bs = bs"
  by (induction bs) (simp_all add: ascii_def utf8_replace.simps utf8_step_def sequence_length_def)

lemma decode_replace_well_formed: "well_formed (utf8_bytes s) \<Longrightarrow> decode_replace (utf8_bytes s) = s"
  by (simp add: decode_replace_def well_formed_def)

end
