(* ===== verification/Floats.thy ===== *)
theory Floats
  imports Complex_Main
begin

text \<open>
  The doubles of the data tools. Python divides two integers with one correctly rounded result, so a
  double is modelled by the rational it stands for and \<open>to_double\<close> rounds a rational to 53 significant
  bits, ties to even. Overflow and subnormal numbers cannot occur at the sizes used here. The lemmas
  say that this rounding never crosses an integer, so a ceiling computed from it is exact as long as
  the dividend stays below \<open>2 ^ 53\<close>.
\<close>

definition round_even :: "rat \<Rightarrow> int" where
  "round_even x =
     (let f = \<lfloor>x\<rfloor>; d = x - of_int f
      in if d < 1 / 2 then f else if d > 1 / 2 then f + 1 else if even f then f else f + 1)"

text \<open>
  How often a numerator has to be doubled to reach \<open>m\<close>, and \<open>m\<close> to pass it: the binary digits to keep
  behind the point, or to drop before it, so that 53 remain.
\<close>

function doublings :: "int \<Rightarrow> int \<Rightarrow> nat" where
  "doublings p m = (if 0 < p \<and> p < m then Suc (doublings (2 * p) m) else 0)"
  by pat_completeness auto
termination
  by (relation "measure (\<lambda>(p, m). nat (m - p))") auto

declare doublings.simps [simp del]

definition scale_up :: "rat \<Rightarrow> nat" where
  "scale_up x = (case quotient_of x of (p, q) \<Rightarrow> doublings p (2 ^ 52 * q))"

definition scale_down :: "rat \<Rightarrow> nat" where
  "scale_down x = (case quotient_of x of (p, q) \<Rightarrow> doublings (2 ^ 53 * q) (p + 1))"

text \<open>The nearest double.\<close>

definition to_double :: "rat \<Rightarrow> rat" where
  "to_double x =
     (if x = 0 then 0
      else let a = \<bar>x\<bar>; k = scale_up a; j = scale_down a
           in sgn x * of_int (round_even (a * 2 ^ k / 2 ^ j)) * 2 ^ j / 2 ^ k)"

definition true_div :: "int \<Rightarrow> int \<Rightarrow> rat" where
  "true_div m n = to_double (of_int m / of_int n)"

lemma doublings_enough: "0 < p \<Longrightarrow> m \<le> p * 2 ^ doublings p m"
proof (induction p m rule: doublings.induct)
  case (1 p m)
  then show ?case by (cases "p < m"; subst doublings.simps) (auto simp: algebra_simps)
qed

lemma scale_up_enough: "0 < x \<Longrightarrow> 2 ^ 52 \<le> x * 2 ^ scale_up x"
proof -
  assume "0 < x"
  obtain p q where pq: "quotient_of x = (p, q)" by force
  then have x: "x = of_int p / of_int q" and q: "0 < q"
    by (simp_all add: quotient_of_div quotient_of_denom_pos)
  with \<open>0 < x\<close> have "0 < p" by (simp add: zero_less_divide_iff)
  then have "2 ^ 52 * q \<le> p * 2 ^ scale_up x"
    using doublings_enough [of p "2 ^ 52 * q"] pq by (simp add: scale_up_def)
  then have "(of_int (2 ^ 52 * q) :: rat) \<le> of_int (p * 2 ^ scale_up x)" by (simp only: of_int_le_iff)
  with q show ?thesis by (simp add: x le_divide_eq)
qed

lemma scale_down_0: "x < 2 ^ 53 \<Longrightarrow> scale_down x = 0"
proof -
  assume small: "x < 2 ^ 53"
  obtain p q where pq: "quotient_of x = (p, q)" by force
  then have x: "x = of_int p / of_int q" and q: "0 < q"
    by (simp_all add: quotient_of_div quotient_of_denom_pos)
  from small q have "(of_int p :: rat) < of_int (2 ^ 53 * q)" by (simp add: x divide_less_eq)
  then have "p < 2 ^ 53 * q" by (simp only: of_int_less_iff)
  then show ?thesis by (simp add: scale_down_def pq doublings.simps)
qed

lemma round_even_floor: "\<lfloor>x\<rfloor> \<le> round_even x"
  by (simp add: round_even_def Let_def)

lemma round_even_below: "of_int m \<le> x \<Longrightarrow> m \<le> round_even x"
  by (rule order_trans [OF _ round_even_floor]) (simp add: le_floor_iff)

lemma round_even_above: "x \<le> of_int m \<Longrightarrow> round_even x \<le> m"
proof -
  assume x: "x \<le> of_int m"
  have "\<lfloor>x\<rfloor> = m \<or> \<lfloor>x\<rfloor> < m" using x by linarith
  then show ?thesis
  proof
    assume f: "\<lfloor>x\<rfloor> = m"
    with x have "x = of_int m" by linarith
    then show ?thesis by (simp add: round_even_def)
  qed (simp add: round_even_def Let_def)
qed

lemma round_even_over: "of_int m + 1 / 2 < x \<Longrightarrow> m + 1 \<le> round_even x"
proof -
  assume x: "of_int m + 1 / 2 < x"
  show ?thesis
  proof (cases "m + 1 \<le> \<lfloor>x\<rfloor>")
    case True
    then show ?thesis by (simp add: round_even_def Let_def)
  next
    case False
    with x have "\<lfloor>x\<rfloor> = m" by linarith
    with x show ?thesis by (simp add: round_even_def Let_def)
  qed
qed

text \<open>The rounded quotient and the exact one lie in the same interval between integers.\<close>

lemma to_double_pos:
  assumes "0 < x" "x < 2 ^ 53"
  shows "to_double x = of_int (round_even (x * 2 ^ scale_up x)) / 2 ^ scale_up x"
  using assms by (simp add: to_double_def scale_down_0 Let_def)

lemma to_double_le:
  assumes "0 < x" "x < 2 ^ 53" "x \<le> of_int n"
  shows "to_double x \<le> of_int n"
proof -
  have "x * 2 ^ scale_up x \<le> of_int (n * 2 ^ scale_up x)"
    using assms(3) by simp
  then have "round_even (x * 2 ^ scale_up x) \<le> n * 2 ^ scale_up x"
    by (rule round_even_above)
  then have "(of_int (round_even (x * 2 ^ scale_up x)) :: rat) \<le> of_int (n * 2 ^ scale_up x)"
    by (simp only: of_int_le_iff)
  then show ?thesis using assms by (simp add: to_double_pos divide_le_eq)
qed

lemma to_double_ge:
  assumes "0 < x" "x < 2 ^ 53" "of_int n \<le> x"
  shows "of_int n \<le> to_double x"
proof -
  have "of_int (n * 2 ^ scale_up x) \<le> x * 2 ^ scale_up x" using assms(3) by simp
  then have "n * 2 ^ scale_up x \<le> round_even (x * 2 ^ scale_up x)" by (rule round_even_below)
  then have "of_int (n * 2 ^ scale_up x) \<le> (of_int (round_even (x * 2 ^ scale_up x)) :: rat)"
    by (simp only: of_int_le_iff)
  then show ?thesis using assms by (simp add: to_double_pos le_divide_eq)
qed

lemma to_double_within: "0 \<le> x \<Longrightarrow> x < 2 ^ 53 \<Longrightarrow> x \<le> of_int n \<Longrightarrow> to_double x \<le> of_int n"
  using to_double_le [of x n] by (cases "x = 0") (auto simp: to_double_def)

text \<open>At the scale used for a quotient by \<open>n\<close>, a distance of \<open>1 / n\<close> is more than half a unit.\<close>

lemma quotient_small:
  assumes "0 < n" "0 \<le> m" "m < 2 ^ 53"
  shows "(of_int m / of_int n :: rat) < 2 ^ 53"
proof -
  have "of_int m \<le> (of_int m :: rat) * of_int n" using assms by (simp add: mult_le_cancel_left1)
  then have "of_int m / of_int n \<le> (of_int m :: rat)" using assms(1) by (simp add: divide_le_eq)
  also have "(of_int m :: rat) < 2 ^ 53" using assms(3) by (metis of_int_less_iff of_int_numeral of_int_power)
  finally show ?thesis .
qed

lemma scale_gap:
  assumes n: "0 < n" and m: "0 < m" "m < 2 ^ 53"
  shows "1 / 2 < 2 ^ scale_up (of_int m / of_int n) / (of_int n :: rat)"
proof -
  let ?x = "of_int m / of_int n :: rat" and ?K = "2 ^ scale_up (of_int m / of_int n) :: rat"
  from m n have "2 ^ 52 \<le> ?x * ?K" by (intro scale_up_enough) simp
  then have "2 ^ 52 * of_int n \<le> of_int m * ?K" using n by (simp add: field_simps)
  also have "(of_int m :: rat) < 2 ^ 53" using m(2) by (metis of_int_less_iff of_int_numeral of_int_power)
  then have "of_int m * ?K < 2 ^ 53 * ?K" by (rule mult_strict_right_mono) simp
  finally have "of_int n < 2 * ?K" by simp
  then show ?thesis using n by (simp add: field_simps)
qed

lemma true_div_over:
  assumes n: "0 < n" and m: "0 < m" "m < 2 ^ 53" and k: "k * n < m"
  shows "of_int k < true_div m n"
proof -
  let ?x = "of_int m / of_int n :: rat"
  define K :: int where "K = 2 ^ scale_up ?x"
  have K: "0 < K" "(of_int K :: rat) = 2 ^ scale_up ?x" by (simp_all add: K_def)
  from k have "(of_int (k * n + 1) :: rat) \<le> of_int m" by (simp only: of_int_le_iff)
  then have "of_int (k * n + 1) / of_int n \<le> ?x" using n by (intro divide_right_mono) simp_all
  moreover have "of_int (k * n + 1) / of_int n = of_int k + 1 / (of_int n :: rat)"
    using n by (simp add: add_divide_distrib)
  ultimately have "of_int k + 1 / of_int n \<le> ?x" by simp
  then have "of_int k * of_int K + of_int K / of_int n \<le> ?x * of_int K"
    using mult_right_mono [of "of_int k + 1 / of_int n" ?x "of_int K"] K(1) by (simp add: distrib_right)
  moreover have "1 / 2 < of_int K / (of_int n :: rat)" using scale_gap [OF n m] by (simp only: K(2))
  ultimately have "of_int (k * K) + 1 / 2 < ?x * of_int K" unfolding of_int_mult by linarith
  then have "k * K + 1 \<le> round_even (?x * of_int K)" by (rule round_even_over)
  then have "of_int (k * K) < (of_int (round_even (?x * of_int K)) :: rat)" by (simp only: of_int_less_iff)
  moreover have "true_div m n = of_int (round_even (?x * of_int K)) / of_int K"
    using n m quotient_small [of n m] by (simp add: true_div_def to_double_pos K)
  ultimately show ?thesis using K(1) by (simp add: less_divide_eq)
qed

lemma round_even_under: "x < of_int m - 1 / 2 \<Longrightarrow> round_even x \<le> m - 1"
proof -
  assume x: "x < of_int m - 1 / 2"
  show ?thesis
  proof (cases "\<lfloor>x\<rfloor> < m - 1")
    case True
    then show ?thesis by (simp add: round_even_def Let_def)
  next
    case False
    with x have "\<lfloor>x\<rfloor> = m - 1" by linarith
    with x show ?thesis by (simp add: round_even_def Let_def)
  qed
qed

lemma true_div_under:
  assumes n: "0 < n" and m: "0 < m" "m < 2 ^ 53" and k: "m < k * n"
  shows "true_div m n < of_int k"
proof -
  let ?x = "of_int m / of_int n :: rat"
  define K :: int where "K = 2 ^ scale_up ?x"
  have K: "0 < K" "(of_int K :: rat) = 2 ^ scale_up ?x" by (simp_all add: K_def)
  from k have "(of_int (m + 1) :: rat) \<le> of_int (k * n)" by (simp only: of_int_le_iff)
  then have "of_int (m + 1) / of_int n \<le> (of_int (k * n) / of_int n :: rat)"
    using n by (intro divide_right_mono) simp_all
  then have "?x + 1 / of_int n \<le> of_int k" using n by (simp add: add_divide_distrib)
  then have "?x * of_int K + of_int K / of_int n \<le> of_int k * of_int K"
    using mult_right_mono [of "?x + 1 / of_int n" "of_int k" "of_int K"] K(1) by (simp add: distrib_right)
  moreover have "1 / 2 < of_int K / (of_int n :: rat)" using scale_gap [OF n m] by (simp only: K(2))
  ultimately have "?x * of_int K < of_int (k * K) - 1 / 2" unfolding of_int_mult by linarith
  then have "round_even (?x * of_int K) \<le> k * K - 1" by (rule round_even_under)
  then have "(of_int (round_even (?x * of_int K)) :: rat) < of_int (k * K)" by (simp only: of_int_less_iff)
  moreover have "true_div m n = of_int (round_even (?x * of_int K)) / of_int K"
    using n m quotient_small [of n m] by (simp add: true_div_def to_double_pos K)
  ultimately show ?thesis using K(1) by (simp add: divide_less_eq)
qed

lemma true_div_0 [simp]: "true_div 0 n = 0"
  by (simp add: true_div_def to_double_def)

lemma ceiling_true_div:
  assumes n: "0 < n" and m: "0 \<le> m" "m < 2 ^ 53"
  shows "\<lceil>true_div m n\<rceil> = - (- m div n)"
proof (cases "m = 0")
  case False
  define q where "q = - (- m div n)"
  have "q = \<lceil>of_int m / (of_int n :: rat)\<rceil>" by (simp add: q_def ceiling_divide_eq_div)
  then have "of_int m / (of_int n :: rat) \<le> of_int q" by simp
  with False m n have "true_div m n \<le> of_int q"
    unfolding true_div_def by (intro to_double_le quotient_small) simp_all
  moreover have "(q - 1) * n < m"
    using div_mult_mod_eq [of "- m" n] pos_mod_bound [OF n, of "- m"] unfolding q_def
    by (simp only: left_diff_distrib minus_mult_left [symmetric] mult_1)
  then have "of_int (q - 1) < true_div m n" using False m n by (intro true_div_over) simp_all
  ultimately show ?thesis by (simp add: ceiling_eq_iff q_def)
qed simp

text \<open>\<open>int(m / n)\<close> is the integer quotient, too.\<close>

lemma floor_true_div:
  assumes n: "0 < n" and m: "0 \<le> m" "m < 2 ^ 53"
  shows "\<lfloor>true_div m n\<rfloor> = m div n"
proof (cases "m = 0")
  case False
  have "m < (m div n + 1) * n"
    using pos_mod_bound [OF n, of m] div_mult_mod_eq [of m n] unfolding distrib_right by linarith
  then have "true_div m n < of_int (m div n + 1)" using False m n by (intro true_div_under) simp_all
  moreover have "of_int (m div n) \<le> true_div m n"
  proof -
    let ?x = "of_int m / of_int n :: rat"
    have "of_int (m div n) \<le> ?x" by (metis floor_divide_of_int_eq of_int_floor_le)
    then have "of_int (m div n) * 2 ^ scale_up ?x \<le> ?x * 2 ^ scale_up ?x" by (rule mult_right_mono) simp
    then have "of_int (m div n * 2 ^ scale_up ?x) \<le> ?x * 2 ^ scale_up ?x" by simp
    then have "m div n * 2 ^ scale_up ?x \<le> round_even (?x * 2 ^ scale_up ?x)" by (rule round_even_below)
    then have "(of_int (m div n * 2 ^ scale_up ?x) :: rat) \<le> of_int (round_even (?x * 2 ^ scale_up ?x))"
      by (simp only: of_int_le_iff)
    with False m n quotient_small [of n m] show ?thesis
      by (simp add: true_div_def to_double_pos le_divide_eq)
  qed
  ultimately show ?thesis by (simp add: floor_eq_iff)
qed simp

text \<open>The relative error of one rounding.\<close>

lemma round_even_near: "of_int (round_even x) \<le> x + 1 / 2"
  unfolding round_even_def Let_def by (simp split: if_splits) linarith

lemma to_double_upper:
  assumes "0 < x" "x < 2 ^ 53"
  shows "to_double x \<le> x * (1 + 1 / 2 ^ 53)"
proof -
  define K :: rat where "K = 2 ^ scale_up x"
  define c :: rat where "c = 1 / 2 ^ 53"
  have K: "0 < K" by (simp add: K_def)
  have c: "2 ^ 52 * c = 1 / 2" "0 \<le> c" by (simp_all add: c_def)
  have "2 ^ 52 * c \<le> x * K * c"
    unfolding K_def by (rule mult_right_mono [OF scale_up_enough [OF assms(1)] c(2)])
  then have "of_int (round_even (x * K)) \<le> x * K + x * K * c"
    using round_even_near [of "x * K"] c(1) by linarith
  also have "\<dots> = x * (1 + c) * K" by (simp add: algebra_simps)
  finally have "of_int (round_even (x * K)) / K \<le> x * (1 + c)" using K by (simp add: divide_le_eq)
  then show ?thesis using to_double_pos [OF assms] by (simp only: K_def c_def)
qed

lemma round_even_near_below: "x - 1 / 2 \<le> of_int (round_even x)"
  unfolding round_even_def Let_def by (simp split: if_splits) linarith

lemma to_double_lower:
  assumes "0 < x" "x < 2 ^ 53"
  shows "x * (1 - 1 / 2 ^ 53) \<le> to_double x"
proof -
  define K :: rat where "K = 2 ^ scale_up x"
  define c :: rat where "c = 1 / 2 ^ 53"
  have K: "0 < K" by (simp add: K_def)
  have c: "2 ^ 52 * c = 1 / 2" "0 \<le> c" by (simp_all add: c_def)
  have "2 ^ 52 * c \<le> x * K * c"
    unfolding K_def by (rule mult_right_mono [OF scale_up_enough [OF assms(1)] c(2)])
  then have "x * K - x * K * c \<le> of_int (round_even (x * K))"
    using round_even_near_below [of "x * K"] c(1) by linarith
  moreover have "x * (1 - c) * K = x * K - x * K * c" by (simp add: algebra_simps)
  ultimately have "x * (1 - c) \<le> of_int (round_even (x * K)) / K" using K by (simp add: le_divide_eq)
  then show ?thesis using to_double_pos [OF assms] by (simp only: K_def c_def)
qed

lemma to_double_near:
  assumes "0 \<le> x" "x < 2 ^ 53"
  shows "\<bar>to_double x - x\<bar> \<le> x * (1 / 2 ^ 53)"
proof (cases "x = 0")
  case False
  with assms(1) have "0 < x" by simp
  from to_double_upper [OF this assms(2)] to_double_lower [OF this assms(2)]
  show ?thesis unfolding distrib_left right_diff_distrib abs_le_iff by linarith
qed (simp add: to_double_def)

lemma to_double_nonneg:
  assumes "0 \<le> x" "x < 2 ^ 53"
  shows "0 \<le> to_double x"
proof (cases "x = 0")
  case False
  with assms(1) have "0 < x" by simp
  moreover have "0 \<le> round_even (x * 2 ^ scale_up x)" using assms(1) by (intro round_even_below) simp
  ultimately show ?thesis by (simp only: to_double_pos [OF _ assms(2)]) simp
qed (simp add: to_double_def)

end
