(* ===== verification/Driver.thy ===== *)
theory Driver
  imports Effects Judgement Bytes Floats
begin

text \<open>
  The CQL side of the data tools: the values and statements a session executes, the requests a tool
  makes of its surroundings (the driver, the random generator, the clock), and the computations over
  them. The surroundings are one parameter, a \<open>'w server\<close>; the text of a CQL statement is represented
  by its parts, layout apart.
\<close>

subsection \<open>Values and statements\<close>

datatype cell =
    Text string
  | Number int
  | Real rat
  | Blob "byte list"
  | Dict "(string \<times> cell) list"
  | Null

type_synonym row = "(string \<times> cell) list"

text \<open>
  A keyspace's options: replication class, replication factor, and the text after \<open>enabled\<close> when the
  statement sets \<open>tablets\<close>. A table: columns with their types, partition key, clustering columns with
  their order, and the options after \<open>WITH\<close>.
\<close>

record keyspace_spec =
  strategy :: string
  replication_factor :: int
  tablets_enabled :: "string option"

record table_spec =
  columns :: "(string \<times> string) list"
  partition_key :: "string list"
  clustering_key :: "(string \<times> bool) list"
  with_options :: "(string \<times> string) list"

text \<open>
  \<open>Insert table columns using\<close>; \<open>Increment table counter by key\<close>, where \<open>by\<close> is \<open>None\<close> for a bound
  value; \<open>Select columns table where\<close> with the comparisons of its \<open>WHERE\<close>; a name is qualified when
  the statement qualifies it. \<open>LIMIT\<close> and \<open>ALLOW FILTERING\<close> are last entries of the comparisons.
\<close>

datatype statement =
    Create_keyspace string keyspace_spec
  | Drop_keyspace string
  | Create_table string table_spec
  | Drop_table string
  | Create_index string string string
  | Create_view string string "string list" "string list" table_spec
  | Insert string "string list" "(string \<times> string) list"
  | Increment string string "int option" string
  | Delete_where string "(string \<times> string) list"
  | Select "string list" string "(string \<times> string) list"

definition table_in :: "string \<Rightarrow> string \<Rightarrow> string" where
  "table_in keyspace table = keyspace @ ''.'' @ table"

subsection \<open>The configuration of a cluster object\<close>

datatype balancing =
    Round_robin
  | Only_host string
  | Token_aware_dc string
  | Token_aware_rack string string

record cluster =
  cluster_hosts :: "string list"
  cluster_port :: int
  cluster_tls :: "ssl_context option"
  server_hostname :: "string option"
  load_balancing :: balancing
  request_timeout :: int
  default_consistency :: "string option"
  shard_aware_disabled :: "bool option"
  protocol_version :: int
  connect_timeout :: int
  control_connection_timeout :: int
  metadata_enabled :: bool
  address_translator :: "string option"
  plain_text_auth :: "(string \<times> string) option"

text \<open>A host as \<open>cluster.metadata.all_hosts()\<close> describes it.\<close>

record host_info =
  datacenter :: "string option"
  host_rack :: "string option"

subsection \<open>Requests\<close>

text \<open>
  \<open>Connect_plain hosts port auth keyspace\<close> connects a cluster object built with these arguments and the
  driver's defaults, \<open>Connect_proxied\<close> one that sends every node address to the host it names;
  \<open>Dynamo_resource\<close> fixes the URL of the DynamoDB endpoint and the CA file; \<open>Table_op\<close>, \<open>Batch_write\<close>,
  \<open>Batch_get\<close>, \<open>Put_item\<close> (with whether it is conditional) and \<open>Scan\<close> go to the Alternator (DynamoDB)
  endpoint. The value of \<open>Random_unit\<close> stands for \<open>random.random()\<close>, a multiple of \<open>1 / 2 ^ 53\<close>.
\<close>

datatype request =
    Connect cluster
  | Connect_plain "string list" int "string \<times> string" "string option"
  | Connect_proxied string "string list" int "string \<times> string" "(string \<times> int) list"
  | Dynamo_resource string "string option"
  | Batch_write string "row list"
  | Batch_get string "row list"
  | Table_op string string
  | Put_item row bool
  | Scan string int
  | Use_keyspace string
  | Prepare statement
  | Execute statement "cell list"
  | Execute_concurrent statement "cell list list"
  | All_hosts
  | Session_shutdown
  | Cluster_shutdown
  | Random_int int int
  | Random_choice nat
  | Random_unit
  | Fresh_uuid
  | Time_now
  | Pause rat

datatype reply =
    Ok
  | Rows "row list"
  | Outcomes "bool list"
  | Hosts "host_info list"
  | Value int
  | Raised exn

type_synonym 'w server = "'w \<Rightarrow> request \<Rightarrow> reply \<times> 'w"

type_synonym event = "request \<times> reply"

type_synonym ('w, 'a) script = "(event, 'w, 'a) run"

definition ask :: "'w server \<Rightarrow> request \<Rightarrow> ('w, reply) script" where
  "ask E q w =
     (case E w q of
        (a, w') \<Rightarrow> ([(q, a)], w', case a of Raised e \<Rightarrow> Inl (Exn e) | _ \<Rightarrow> Inr a))"

definition tell :: "'w server \<Rightarrow> request \<Rightarrow> ('w, unit) script" where
  "tell E q = bind (ask E q) (\<lambda>_. ret ())"

definition rows_of :: "reply \<Rightarrow> row list" where
  "rows_of a = (case a of Rows rs \<Rightarrow> rs | _ \<Rightarrow> [])"

definition value_of :: "reply \<Rightarrow> int" where
  "value_of a = (case a of Value v \<Rightarrow> v | _ \<Rightarrow> 0)"

definition outcomes_of :: "reply \<Rightarrow> bool list" where
  "outcomes_of a = (case a of Outcomes rs \<Rightarrow> rs | _ \<Rightarrow> [])"

definition hosts_in :: "reply \<Rightarrow> host_info list" where
  "hosts_in a = (case a of Hosts hs \<Rightarrow> hs | _ \<Rightarrow> [])"

definition fetch :: "'w server \<Rightarrow> statement \<Rightarrow> cell list \<Rightarrow> ('w, row list) script" where
  "fetch E s cs = bind (ask E (Execute s cs)) (\<lambda>a. ret (rows_of a))"

definition number :: "'w server \<Rightarrow> request \<Rightarrow> ('w, int) script" where
  "number E q = bind (ask E q) (\<lambda>a. ret (value_of a))"

text \<open>\<open>random.randint(a, b)\<close> and \<open>time.sleep(s)\<close>, with the ValueError of an empty range and of a negative time.\<close>

definition randint :: "'w server \<Rightarrow> int \<Rightarrow> int \<Rightarrow> ('w, int) script" where
  "randint E a b = (if b < a then raise (PyError ValueError) else number E (Random_int a b))"

definition pause :: "'w server \<Rightarrow> rat \<Rightarrow> ('w, unit) script" where
  "pause E s = (if s < 0 then raise (PyError ValueError) else tell E (Pause s))"

text \<open>A random generator that keeps to its range.\<close>

definition fair :: "'w server \<Rightarrow> bool" where
  "fair E \<longleftrightarrow> (\<forall>w a b. a \<le> b \<longrightarrow> (\<exists>v. fst (E w (Random_int a b)) = Value v \<and> a \<le> v \<and> v \<le> b))"

text \<open>\<open>except Exception\<close> does not catch \<open>SystemExit\<close> and \<open>KeyboardInterrupt\<close>.\<close>

fun ordinary :: "exn \<Rightarrow> bool" where
  "ordinary KeyboardInterrupt = False"
| "ordinary (SystemExit n) = False"
| "ordinary _ = True"

lemma ordinary_iff: "ordinary e \<longleftrightarrow> e \<noteq> KeyboardInterrupt \<and> (\<forall>n. e \<noteq> SystemExit n)"
  by (cases e) auto

definition quietly :: "('w, unit) script \<Rightarrow> ('w, unit) script" where
  "quietly m = catch ordinary m (\<lambda>_. ret ())"

text \<open>The exit code of a tool whose last statement is \<open>main()\<close>.\<close>

definition exit_status :: "stop + 'a \<Rightarrow> int option" where
  "exit_status r =
     (case r of
        Inr x \<Rightarrow> Some 0
      | Inl Out_of_fuel \<Rightarrow> None
      | Inl (Exn (SystemExit n)) \<Rightarrow> Some n
      | Inl (Exn KeyboardInterrupt) \<Rightarrow> Some 130
      | Inl (Exn e) \<Rightarrow> Some 1)"

subsection \<open>Runs\<close>

lemma request_run: "ask E q w = (t, w', r) \<Longrightarrow> \<exists>a. t = [(q, a)] \<and> E w q = (a, w') \<and> (r = Inr a \<or> (\<exists>e. a = Raised e \<and> r = Inl (Exn e)))"
  by (auto simp: ask_def split: prod.splits reply.splits)

lemma ask_Inr: "ask E q w = (t, w', Inr a) \<longleftrightarrow> t = [(q, a)] \<and> E w q = (a, w') \<and> (\<forall>e. a \<noteq> Raised e)"
  by (auto simp: ask_def split: prod.splits reply.splits)

lemma tell_Inr: "tell E q w = (t, w', Inr u) \<longleftrightarrow> (\<exists>a. t = [(q, a)] \<and> E w q = (a, w') \<and> (\<forall>e. a \<noteq> Raised e))"
  by (auto simp: tell_def bind_Inr_iff ask_Inr)

lemma fetch_Inr:
  "fetch E s cs w = (t, w', Inr rs) \<longleftrightarrow>
     (\<exists>a. t = [(Execute s cs, a)] \<and> E w (Execute s cs) = (a, w') \<and> (\<forall>e. a \<noteq> Raised e) \<and> rs = rows_of a)"
  by (auto simp: fetch_def bind_Inr_iff ask_Inr)

lemma number_Inr:
  "number E q w = (t, w', Inr v) \<longleftrightarrow>
     (\<exists>a. t = [(q, a)] \<and> E w q = (a, w') \<and> (\<forall>e. a \<noteq> Raised e) \<and> v = value_of a)"
  by (auto simp: number_def bind_Inr_iff ask_Inr)

named_theorems script_runs "results of the requests"

lemmas [script_runs] = bind_Inr_iff seq_Inr_iff ask_Inr tell_Inr fetch_Inr number_Inr

lemma fetch_run:
  assumes "fetch E s cs w = (t, w', r)"
  obtains a where "t = [(Execute s cs, a)]" "E w (Execute s cs) = (a, w')"
    "r = Inr (rows_of a) \<and> (\<forall>e. a \<noteq> Raised e) \<or> (\<exists>e. a = Raised e \<and> r = Inl (Exn e))"
  using assms unfolding fetch_def
  by (cases rule: bindE) (auto simp: ask_Inr dest: request_run)

lemma randint_run:
  assumes "fair E" "a \<le> b" "randint E a b w = (t, w', r)"
  shows "\<exists>v. r = Inr v \<and> t = [(Random_int a b, Value v)] \<and> a \<le> v \<and> v \<le> b"
proof -
  from assms(1,2) obtain v w1 where "E w (Random_int a b) = (Value v, w1)" "a \<le> v" "v \<le> b"
    unfolding fair_def by (metis prod.collapse)
  with assms(2,3) show ?thesis by (auto simp add: randint_def number_def bind_def ask_def value_of_def)
qed

lemma quietly_run:
  "quietly m w = (t, w', r) \<Longrightarrow>
     \<exists>r'. m w = (t, w', r') \<and> (r = r' \<or> (r = Inr () \<and> (\<exists>e. r' = Inl (Exn e) \<and> ordinary e)))"
  unfolding quietly_def by (auto elim!: catchE)

subsection \<open>Judgements on requests\<close>

text \<open>
  What a script asks of its surroundings: every request of a run satisfies \<open>Q\<close>. The rules of \<open>calls_in\<close>
  apply; these are the ones for a single request.
\<close>

definition asks :: "(request \<Rightarrow> bool) \<Rightarrow> (event, 'w) outcome" where
  "asks Q = calls_in (\<lambda>c. Q (fst c))"

interpretation asks: composing "asks Q" for Q
  by unfold_locales (auto simp: asks_def calls_in_def)

lemma asks_ask [intro!]: "Q q \<Longrightarrow> obeys (asks Q) (ask E q)"
  by (auto simp: obeys_def asks_def calls_in_def dest!: request_run)

lemma asks_tell [intro!]: "Q q \<Longrightarrow> obeys (asks Q) (tell E q)"
  unfolding tell_def by (intro asks.obeys_bind asks_ask asks.obeys_ret)

lemma asks_fetch [intro!]: "Q (Execute s cs) \<Longrightarrow> obeys (asks Q) (fetch E s cs)"
  unfolding fetch_def by (intro asks.obeys_bind asks_ask asks.obeys_ret)

lemma asks_number [intro!]: "Q q \<Longrightarrow> obeys (asks Q) (number E q)"
  unfolding number_def by (intro asks.obeys_bind asks_ask asks.obeys_ret)

lemma asksD: "obeys (asks Q) m \<Longrightarrow> m w = (t, w', r) \<Longrightarrow> (q, a) \<in> set t \<Longrightarrow> Q q"
  by (force simp: obeys_def asks_def calls_in_def)

lemma asksI: "(\<And>w t w' r q a. m w = (t, w', r) \<Longrightarrow> (q, a) \<in> set t \<Longrightarrow> Q q) \<Longrightarrow> obeys (asks Q) m"
  by (force simp: obeys_def asks_def calls_in_def)

lemma asks_randint [intro!]: "Q (Random_int a b) \<Longrightarrow> obeys (asks Q) (randint E a b)"
  unfolding randint_def by (auto intro: asks_number)

lemma asks_pause [intro!]: "Q (Pause s) \<Longrightarrow> obeys (asks Q) (pause E s)"
  unfolding pause_def by (auto intro: asks_tell)

lemma asks_finally [intro!]: "obeys (asks Q) m \<Longrightarrow> obeys (asks Q) n \<Longrightarrow> obeys (asks Q) (finally_do m n)"
  unfolding asks_def by (rule calls_in_finally)

lemma asks_quietly [intro!]: "obeys (asks Q) m \<Longrightarrow> obeys (asks Q) (quietly m)"
  unfolding quietly_def by (intro asks.obeys_catch asks.obeys_ret)

lemma asks_mono: "obeys (asks Q) m \<Longrightarrow> (\<And>q. Q q \<Longrightarrow> Q' q) \<Longrightarrow> obeys (asks Q') m"
  by (auto simp: obeys_def asks_def calls_in_def)

subsection \<open>Observing requests\<close>

text \<open>
  What the claims on data tools speak of is read off the events of a run: the rows inserted, the items put,
  the pauses. An observer maps each event to what it shows; \<open>silent\<close> requests show nothing. So a
  computation that only makes silent requests leaves no observation, and loops add up those of their bodies.
\<close>

locale observing =
  fixes observe :: "event \<Rightarrow> 'x list" and silent :: "request \<Rightarrow> bool"
  assumes silent: "silent q \<Longrightarrow> observe (q, a) = []"
begin

lemma unobserved:
  assumes "obeys (asks silent) m" and "m w = (t, w', r)"
  shows "concat (map observe t) = []"
proof -
  have "\<forall>(q, a) \<in> set t. silent q" using asksD [OF assms] by blast
  then show ?thesis by (induction t) (auto simp: silent)
qed

lemma for_each_observed:
  assumes "for_each body us w = (t, w', Inr v)"
    and "\<And>u w t w'. body u w = (t, w', Inr ()) \<Longrightarrow> map f (concat (map observe t)) = g u"
  shows "map f (concat (map observe t)) = concat (map g us)"
  using assms(1) by (induction us arbitrary: w t) (auto simp: seq_Inr_iff dest: assms(2))

text \<open>A loop that also counts what it shows.\<close>

lemma fold_observed:
  assumes "fold_m body n xs w = (t, w', Inr n')"
    and "\<And>n x w t w' n'. body n x w = (t, w', Inr n') \<Longrightarrow>
      map f (concat (map observe t)) = g x \<and> n' = n + int (length (g x))"
  shows "map f (concat (map observe t)) = concat (map g xs) \<and> n' = n + int (length (concat (map g xs)))"
  using assms(1)
proof (induction xs arbitrary: n w t)
  case (Cons x xs)
  then obtain t1 w1 n1 t2 where run: "body n x w = (t1, w1, Inr n1)" "fold_m body n1 xs w1 = (t2, w', Inr n')"
    and t: "t = t1 @ t2"
    by (auto elim: bind_InrE)
  from assms(2) [OF run(1)] Cons.IH [OF run(2)] show ?case by (simp add: t)
qed simp

end

subsection \<open>Judgements on ending\<close>

text \<open>A computation that returns or raises, in every run.\<close>

definition ending :: "('c, 's) outcome" where
  "ending s t s' x \<longleftrightarrow> x \<noteq> Some Out_of_fuel"

interpretation ending: composing ending
  by unfold_locales (auto simp: ending_def)

lemma endingI: "(\<And>s t s'. m s \<noteq> (t, s', Inl Out_of_fuel)) \<Longrightarrow> obeys ending m"
  by (auto simp: obeys_def ending_def stopped_def split: sum.splits)

lemma endingD: "obeys ending m \<Longrightarrow> m s \<noteq> (t, s', Inl Out_of_fuel)"
  by (fastforce simp: obeys_def ending_def)

lemma ending_requests [intro!]:
  "obeys ending (ask E q)" "obeys ending (tell E q)" "obeys ending (fetch E c cs)" "obeys ending (number E q)"
proof -
  show ask: "obeys ending (ask E q)" for q by (rule endingI) (auto dest: request_run)
  show "obeys ending (tell E q)" "obeys ending (fetch E c cs)" "obeys ending (number E q)"
    unfolding tell_def fetch_def number_def
    by (rule ending.obeys_bind, rule ask, rule ending.obeys_ret)+
qed

lemma ending_quietly [intro!]: "obeys ending m \<Longrightarrow> obeys ending (quietly m)"
  unfolding quietly_def by (intro ending.obeys_catch ending.obeys_ret)

lemma ending_finally [intro!]:
  assumes m: "obeys ending m" and n: "obeys ending n"
  shows "obeys ending (finally_do m n)"
proof (rule endingI, rule notI)
  fix s t s'
  assume "finally_do m n s = (t, s', Inl Out_of_fuel)"
  then show False
    by (cases rule: finally_doE) (use endingD [OF m] endingD [OF n] in \<open>auto split: sum.splits\<close>)
qed

subsection \<open>Success\<close>

text \<open>A server that answers every request without an exception, and computations that return in every run.\<close>

definition willing :: "'w server \<Rightarrow> bool" where
  "willing E \<longleftrightarrow> (\<forall>w q e. fst (E w q) \<noteq> Raised e)"

definition succeeds :: "('c, 's, 'a) run \<Rightarrow> bool" where
  "succeeds m \<longleftrightarrow> (\<forall>s. \<exists>t s' x. m s = (t, s', Inr x))"

named_theorems success "computations that succeed"

lemma succeeds_ret [success]: "succeeds (ret x)"
  by (simp add: succeeds_def ret_def)

lemma succeeds_lift [success]: "r = Inr x \<Longrightarrow> succeeds (lift r)"
  by (simp add: succeeds_def lift_def ret_def)

lemma succeeds_bind [success]: "succeeds m \<Longrightarrow> (\<And>x. succeeds (f x)) \<Longrightarrow> succeeds (bind m f)"
  unfolding succeeds_def bind_def by (auto split: prod.splits sum.splits) (metis Pair_inject Inl_Inr_False Inr_inject)+

lemma succeeds_seq [success]: "succeeds m \<Longrightarrow> succeeds n \<Longrightarrow> succeeds (seq m n)"
  unfolding seq_def by (intro success)

lemma succeeds_loops [success]:
  "(\<And>acc x. succeeds (g acc x)) \<Longrightarrow> succeeds (fold_m g acc xs)"
  "(\<And>x. succeeds (f x)) \<Longrightarrow> succeeds (for_each f xs)"
  "(\<And>x. succeeds (h x)) \<Longrightarrow> succeeds (map_m h xs)"
proof -
  show "(\<And>acc x. succeeds (g acc x)) \<Longrightarrow> succeeds (fold_m g acc xs)"
    by (induction xs arbitrary: acc) (auto intro: success)
  show "(\<And>x. succeeds (f x)) \<Longrightarrow> succeeds (for_each f xs)" "(\<And>x. succeeds (h x)) \<Longrightarrow> succeeds (map_m h xs)"
    by (induction xs) (auto intro: success)
qed

lemma succeeds_finally [success]: "succeeds m \<Longrightarrow> succeeds n \<Longrightarrow> succeeds (finally_do m n)"
  unfolding succeeds_def finally_do_def by (auto split: prod.splits sum.splits) (metis Pair_inject Inl_Inr_False Inr_inject)+

lemma succeeds_catch [success]:
  assumes "succeeds m"
  shows "succeeds (catch c m h)"
  unfolding succeeds_def
proof
  fix s
  from assms obtain t s' x where "m s = (t, s', Inr x)" unfolding succeeds_def by blast
  then show "\<exists>t s' x. catch c m h s = (t, s', Inr x)" by (simp add: catch_def)
qed

lemma willing_requests [success]:
  assumes "willing E"
  shows "succeeds (ask E q)" "succeeds (tell E q)" "succeeds (fetch E s cs)" "succeeds (number E q)"
proof -
  show ask: "succeeds (ask E q)" for q
    using assms unfolding succeeds_def ask_def willing_def
    by (auto split: prod.split reply.split) (metis fst_conv)
  show "succeeds (tell E q)" "succeeds (fetch E s cs)" "succeeds (number E q)"
    unfolding tell_def fetch_def number_def by (intro success ask)+
qed

lemma succeeds_randint [success]: "willing E \<Longrightarrow> a \<le> b \<Longrightarrow> succeeds (randint E a b)"
  unfolding randint_def by (auto intro: success)

lemma succeedsE:
  assumes "succeeds m"
  obtains t s' x where "m s = (t, s', Inr x)"
  using assms unfolding succeeds_def by blast

text \<open>The total-correctness view of one run: \<open>m\<close> returns from \<open>w\<close>, and its end state and value satisfy \<open>P\<close>.\<close>

definition yields :: "('c, 's, 'a) run \<Rightarrow> 's \<Rightarrow> ('s \<Rightarrow> 'a \<Rightarrow> bool) \<Rightarrow> bool" where
  "yields m w P \<longleftrightarrow> (\<exists>t w' x. m w = (t, w', Inr x) \<and> P w' x)"

lemma yields_ret: "P w x \<Longrightarrow> yields (ret x) w P"
  by (simp add: yields_def)

lemma yields_bind: "yields m w (\<lambda>w' x. yields (f x) w' P) \<Longrightarrow> yields (bind m f) w P"
  by (fastforce simp: yields_def bind_def)

lemma yields_seq: "yields m w (\<lambda>w' x. yields n w' P) \<Longrightarrow> yields (seq m n) w P"
  unfolding seq_def by (rule yields_bind)

lemma yields_tell: "E w q = (a, w') \<Longrightarrow> \<forall>e. a \<noteq> Raised e \<Longrightarrow> P w' () \<Longrightarrow> yields (tell E q) w P"
  by (auto simp: yields_def tell_Inr)

lemma yields_fetch:
  "E w (Execute s cs) = (Rows rs, w') \<Longrightarrow> P w' rs \<Longrightarrow> yields (fetch E s cs) w P"
  by (auto simp: yields_def fetch_Inr rows_of_def)

lemma yields_mono: "yields m w P \<Longrightarrow> (\<And>w' x. P w' x \<Longrightarrow> Q w' x) \<Longrightarrow> yields m w Q"
  by (auto simp: yields_def)

lemma yieldsD: "yields m w P \<Longrightarrow> \<exists>x. result m w = Inr x \<and> P (final m w) x"
  by (auto simp: yields_def result_def final_def)

end
