(* ===== verification/Arguments.thy ===== *)
theory Arguments
  imports Effects
begin

text \<open>
  Command lines. Every tool declares its options with \<open>argparse\<close> and starts with
  \<open>parser.parse_args()\<close>. A declaration is a value of \<open>'a cli\<close>, where \<open>'a\<close> is the record of the
  parsed options: each option string comes with what it does to that record. Parsing is what
  \<open>ArgumentParser.parse_args\<close> does with such a declaration: exact option strings, \<open>--option=value\<close>,
  unambiguous abbreviations of long options, clusters of short ones, \<open>--\<close>, values that look like
  negative numbers (in the details as of Python 3.11.10). It either yields the record or ends the
  process, with exit code 2 for a usage error and 0 after \<open>--help\<close>.
\<close>

subsection \<open>Declarations\<close>

text \<open>
  What \<open>add_argument\<close> can ask for here: the help that every parser has, an option without value
  (\<open>store_true\<close>, \<open>BooleanOptionalAction\<close>), and one with a value, converted by \<open>type\<close> and checked
  against \<open>choices\<close> (\<open>None\<close>: the conversion fails or the value is no choice).
\<close>

datatype 'a action =
    Help
  | Flag "'a \<Rightarrow> 'a"
  | Store "string \<Rightarrow> ('a \<Rightarrow> 'a) option"

datatype 'a positional =
    No_positional
  | One_positional "string \<Rightarrow> 'a \<Rightarrow> 'a"
  | Many_positional "string list \<Rightarrow> 'a \<Rightarrow> 'a"

text \<open>\<open>complete\<close> says that every option with \<open>required=True\<close> was given.\<close>

record 'a cli =
  cli_options :: "(string list \<times> 'a action) list"
  positional :: "'a positional"
  complete :: "'a \<Rightarrow> bool"

definition help_option :: "string list \<times> 'a action" where
  "help_option = ([''-h'', ''--help''], Help)"

definition switch :: "((bool \<Rightarrow> bool) \<Rightarrow> 'a \<Rightarrow> 'a) \<Rightarrow> 'a action" where
  "switch upd = Flag (upd (\<lambda>_. True))"

definition text_value :: "((string \<Rightarrow> string) \<Rightarrow> 'a \<Rightarrow> 'a) \<Rightarrow> 'a action" where
  "text_value upd = Store (\<lambda>v. Some (upd (\<lambda>_. v)))"

definition some_text :: "((string option \<Rightarrow> string option) \<Rightarrow> 'a \<Rightarrow> 'a) \<Rightarrow> 'a action" where
  "some_text upd = Store (\<lambda>v. Some (upd (\<lambda>_. Some v)))"

definition int_value :: "((int \<Rightarrow> int) \<Rightarrow> 'a \<Rightarrow> 'a) \<Rightarrow> 'a action" where
  "int_value upd = Store (\<lambda>v. map_option (\<lambda>n. upd (\<lambda>_. n)) (py_int v))"

definition some_int :: "((int option \<Rightarrow> int option) \<Rightarrow> 'a \<Rightarrow> 'a) \<Rightarrow> 'a action" where
  "some_int upd = Store (\<lambda>v. map_option (\<lambda>n. upd (\<lambda>_. Some n)) (py_int v))"

definition choice :: "string list \<Rightarrow> ((string \<Rightarrow> string) \<Rightarrow> 'a \<Rightarrow> 'a) \<Rightarrow> 'a action" where
  "choice choices upd = Store (\<lambda>v. if v \<in> set choices then Some (upd (\<lambda>_. v)) else None)"

text \<open>Options that another module adds to the parser act on a part of the record.\<close>

fun within_part :: "(('b \<Rightarrow> 'b) \<Rightarrow> 'a \<Rightarrow> 'a) \<Rightarrow> 'b action \<Rightarrow> 'a action" where
  "within_part upd Help = Help"
| "within_part upd (Flag g) = Flag (upd g)"
| "within_part upd (Store conv) = Store (\<lambda>v. map_option upd (conv v))"

definition part_options ::
    "(('b \<Rightarrow> 'b) \<Rightarrow> 'a \<Rightarrow> 'a) \<Rightarrow> (string list \<times> 'b action) list \<Rightarrow> (string list \<times> 'a action) list" where
  "part_options upd = map (map_prod id (within_part upd))"

subsection \<open>Which words are options\<close>

definition action_of :: "'a cli \<Rightarrow> string \<Rightarrow> 'a action option" where
  "action_of p s = map_option snd (find (\<lambda>(ss, a). s \<in> set ss) (cli_options p))"

definition option_strings :: "'a cli \<Rightarrow> string list" where
  "option_strings p = concat (map fst (cli_options p))"

text \<open>\<open>split('=', 1)\<close> of a word that has an equals sign.\<close>

definition cut_at_equals :: "string \<Rightarrow> (string \<times> string) option" where
  "cut_at_equals s =
     (if CHR ''='' \<in> set s
      then Some (takeWhile (\<lambda>c. c \<noteq> CHR ''='') s, tl (dropWhile (\<lambda>c. c \<noteq> CHR ''='') s)) else None)"

text \<open>
  The option strings a word can stand for, with the value it carries and whether an equals sign is in
  front of it: those a long word abbreviates, and the short option whose value is joined to it.
\<close>

definition candidates :: "'a cli \<Rightarrow> string \<Rightarrow> (string \<times> (bool \<times> string) option) list" where
  "candidates p s =
     (if starts_with s ''--'' then
        (case cut_at_equals s of
           None \<Rightarrow> map (\<lambda>opt. (opt, None)) (filter (\<lambda>opt. starts_with opt s) (option_strings p))
         | Some (pre, e) \<Rightarrow> map (\<lambda>opt. (opt, Some (True, e))) (filter (\<lambda>opt. starts_with opt pre) (option_strings p)))
      else concat (map (\<lambda>opt. if opt = take 2 s then [(opt, Some (False, drop 2 s))]
                            else if starts_with opt s then [(opt, None)] else []) (option_strings p)))"

definition numeral :: "string \<Rightarrow> bool" where
  "numeral s \<longleftrightarrow> list_all (\<lambda>c. digit c \<noteq> None) s"

text \<open>The pattern \<open>^-\d+$|^-\d*\.\d+$\<close>. No tool here has an option that looks like a negative number.\<close>

definition negative_number :: "string \<Rightarrow> bool" where
  "negative_number s =
     (case s of
        [] \<Rightarrow> False
      | c # t \<Rightarrow> c = CHR ''-'' \<and>
          (case split_on CHR ''.'' t of
             [n] \<Rightarrow> n \<noteq> [] \<and> numeral n
           | [n, f] \<Rightarrow> numeral n \<and> f \<noteq> [] \<and> numeral f
           | _ \<Rightarrow> False))"

datatype 'a token =
    Option "'a action option" string "(bool \<times> string) option"
  | Plain string
  | Double_dash

text \<open>\<open>_parse_optional\<close>; \<open>None\<close> for an ambiguous abbreviation.\<close>

definition classify :: "'a cli \<Rightarrow> string \<Rightarrow> 'a token option" where
  "classify p s =
     (if \<not> starts_with s ''-'' then Some (Plain s)
      else case action_of p s of
        Some a \<Rightarrow> Some (Option (Some a) s None)
      | None \<Rightarrow>
          (if s = ''-'' then Some (Plain s)
           else case Option.bind (cut_at_equals s) (\<lambda>(opt, e). map_option (\<lambda>a. (a, opt, e)) (action_of p opt)) of
             Some (a, opt, e) \<Rightarrow> Some (Option (Some a) opt (Some (True, e)))
           | None \<Rightarrow>
               (case candidates p s of
                  [] \<Rightarrow> (if negative_number s \<or> CHR '' '' \<in> set s then Some (Plain s)
                         else Some (Option None s None))
                | [(opt, e)] \<Rightarrow> Some (Option (action_of p opt) opt e)
                | _ \<Rightarrow> None)))"

fun tokens :: "'a cli \<Rightarrow> string list \<Rightarrow> 'a token list option" where
  "tokens p [] = Some []"
| "tokens p (s # ss) =
     (if s = ''--'' then Some (Double_dash # map Plain ss)
      else Option.bind (classify p s) (\<lambda>t. map_option (\<lambda>ts. t # ts) (tokens p ss)))"

subsection \<open>What they do\<close>

text \<open>
  A short option without value that has text joined to it opens a cluster: the next character is the
  next short option. The result is the options before the last one, and the last one with the value
  left for it, or nothing when the next character is no option and the rest is left over; \<open>None\<close> is the
  error that a joined value is ignored.
\<close>

fun cluster ::
    "'a cli \<Rightarrow> 'a action \<Rightarrow> string \<Rightarrow> bool \<Rightarrow> string \<Rightarrow> ('a action list \<times> ('a action \<times> string option) option) option" where
  "cluster p (Store conv) opt sep e = Some ([], Some (Store conv, Some e))"
| "cluster p a opt sep [] = None"
| "cluster p a opt sep (c # e) =
     (if starts_with opt ''--'' \<or> sep \<or> c = CHR ''-'' then None
      else case action_of p [CHR ''-'', c] of
        None \<Rightarrow> Some ([a], None)
      | Some b \<Rightarrow>
          (case e of
             [] \<Rightarrow> Some ([a], Some (b, None))
           | d # e' \<Rightarrow>
               map_option (map_prod ((#) a) id)
                 (if d = CHR ''='' then cluster p b [CHR ''-'', c] True e'
                  else cluster p b [CHR ''-'', c] False e)))"

definition usage_error :: "exn + 'a" where
  "usage_error = Inl (SystemExit 2)"

fun take_flags :: "'a action list \<Rightarrow> 'a \<Rightarrow> exn + 'a" where
  "take_flags [] st = Inr st"
| "take_flags (Help # as) st = Inl (SystemExit 0)"
| "take_flags (Flag g # as) st = take_flags as (g st)"
| "take_flags (Store conv # as) st = take_flags as st"

definition take_value :: "(string \<Rightarrow> ('a \<Rightarrow> 'a) option) \<Rightarrow> string \<Rightarrow> 'a \<Rightarrow> exn + 'a" where
  "take_value conv v st = (case conv v of None \<Rightarrow> usage_error | Some g \<Rightarrow> Inr (g st))"

text \<open>
  \<open>consume_optional\<close>: one option word, with the words after it, of which it may take the first as its
  value. The result is the words left, whether a part of the word was left over, and the new record.
\<close>

definition last_option ::
    "('a action \<times> string option) option \<Rightarrow> 'a token list \<Rightarrow> 'a token list \<times> bool \<times> ('a \<Rightarrow> exn + 'a) option" where
  "last_option lst ts =
     (case lst of
        None \<Rightarrow> (ts, True, Some Inr)
      | Some (Store conv, Some v) \<Rightarrow> (ts, False, Some (take_value conv v))
      | Some (Store conv, None) \<Rightarrow>
          (case ts of Plain v # ts' \<Rightarrow> (ts', False, Some (take_value conv v)) | _ \<Rightarrow> (ts, False, None))
      | Some (b, _) \<Rightarrow> (ts, False, Some (take_flags [b])))"

definition take_option ::
    "'a cli \<Rightarrow> 'a action \<Rightarrow> string \<Rightarrow> (bool \<times> string) option \<Rightarrow> 'a token list \<Rightarrow> 'a \<Rightarrow>
     'a token list \<times> bool \<times> (exn + 'a)" where
  "take_option p a opt e ts st =
     (case (case e of None \<Rightarrow> Some ([], Some (a, None)) | Some (sep, v) \<Rightarrow> cluster p a opt sep v) of
        None \<Rightarrow> (ts, False, usage_error)
      | Some (flags, lst) \<Rightarrow>
          (case last_option lst ts of
             (rest, over, None) \<Rightarrow> (rest, over, usage_error)
           | (rest, over, Some act) \<Rightarrow>
               (rest, over, case take_flags flags st of Inl x \<Rightarrow> Inl x | Inr st' \<Rightarrow> act st')))"

fun is_option :: "'a token \<Rightarrow> bool" where
  "is_option (Option a opt e) = True"
| "is_option _ = False"

fun plain_text :: "'a token \<Rightarrow> string list" where
  "plain_text (Plain s) = [s]"
| "plain_text _ = []"

text \<open>
  \<open>consume_positionals\<close> on the words up to the next option: what is left to be filled, whether words
  were left over, and the new record.
\<close>

definition take_positionals :: "'a positional \<Rightarrow> string list \<Rightarrow> 'a \<Rightarrow> 'a positional \<times> bool \<times> 'a" where
  "take_positionals pos vs st =
     (case (pos, vs) of
        (One_positional f, v # rest) \<Rightarrow> (No_positional, rest \<noteq> [], f v st)
      | (Many_positional f, v # rest) \<Rightarrow> (No_positional, False, f vs st)
      | _ \<Rightarrow> (pos, True, st))"

fun filled :: "'a positional \<Rightarrow> bool" where
  "filled No_positional = True"
| "filled _ = False"

lemma last_option_rest: "last_option lst ts = (rest, r) \<Longrightarrow> rest = ts \<or> (\<exists>v. ts = Plain v # rest)"
  by (auto simp: last_option_def split: option.splits prod.splits action.splits list.splits token.splits)

lemma take_option_rest: "take_option p a opt e ts st = (rest, r) \<Longrightarrow> rest = ts \<or> (\<exists>v. ts = Plain v # rest)"
  by (auto simp: take_option_def split: option.splits prod.splits dest: last_option_rest)

lemma take_option_shorter: "take_option p a opt e ts st = (rest, r) \<Longrightarrow> length rest \<le> length ts"
  by (auto dest: take_option_rest)

function consume :: "'a cli \<Rightarrow> 'a positional \<Rightarrow> bool \<Rightarrow> 'a token list \<Rightarrow> 'a \<Rightarrow> exn + 'a" where
  "consume p pos extra [] st =
     (if filled pos \<and> complete p st \<and> \<not> extra then Inr st else usage_error)"
| "consume p pos extra (Option None opt e # ts) st = consume p pos True ts st"
| "consume p pos extra (Option (Some a) opt e # ts) st =
     (case take_option p a opt e ts st of
        (rest, over, Inl x) \<Rightarrow> Inl x
      | (rest, over, Inr st') \<Rightarrow> consume p pos (extra \<or> over) rest st')"
| "consume p pos extra (Plain s # ts) st =
     (case take_positionals pos (s # concat (map plain_text (takeWhile (\<lambda>t. \<not> is_option t) ts))) st of
        (pos', over, st') \<Rightarrow> consume p pos' (extra \<or> over) (dropWhile (\<lambda>t. \<not> is_option t) ts) st')"
| "consume p pos extra (Double_dash # ts) st =
     (case take_positionals pos (concat (map plain_text (takeWhile (\<lambda>t. \<not> is_option t) ts))) st of
        (pos', over, st') \<Rightarrow> consume p pos' (extra \<or> over) (dropWhile (\<lambda>t. \<not> is_option t) ts) st')"
  by pat_completeness auto
termination
  by (relation "measure (\<lambda>(p, pos, extra, ts, st). length ts)")
    (auto simp: le_imp_less_Suc length_dropWhile_le dest!: take_option_shorter [OF sym])

definition parse_command_line :: "'a cli \<Rightarrow> 'a \<Rightarrow> string list \<Rightarrow> exn + 'a" where
  "parse_command_line p defaults argv =
     (case tokens p argv of
        None \<Rightarrow> usage_error
      | Some ts \<Rightarrow> consume p (positional p) False ts defaults)"

text \<open>A script from its command line: \<open>main\<close> runs on the parsed options, if there are any.\<close>

definition with_args :: "exn + 'a \<Rightarrow> ('a \<Rightarrow> ('c, 's, 'b) run) \<Rightarrow> ('c, 's, 'b) run" where
  "with_args parsed main = (case parsed of Inl e \<Rightarrow> raise e | Inr opts \<Rightarrow> main opts)"

subsection \<open>What every option keeps\<close>

text \<open>
  The contract between a tool and its parser: \<open>Q\<close> is kept by every option and by the positional
  arguments. Then every accepted command line keeps it, and a word that is an option establishing
  \<open>Q\<close> makes it hold in the end, wherever it stands.
\<close>

fun keeps :: "('a \<Rightarrow> bool) \<Rightarrow> 'a action \<Rightarrow> bool" where
  "keeps Q Help = True"
| "keeps Q (Flag g) = (\<forall>st. Q st \<longrightarrow> Q (g st))"
| "keeps Q (Store conv) = (\<forall>v g st. conv v = Some g \<longrightarrow> Q st \<longrightarrow> Q (g st))"

fun fills :: "('a \<Rightarrow> bool) \<Rightarrow> ('a \<Rightarrow> bool) \<Rightarrow> 'a positional \<Rightarrow> bool" where
  "fills P Q No_positional = True"
| "fills P Q (One_positional f) = (\<forall>v st. P st \<longrightarrow> Q (f v st))"
| "fills P Q (Many_positional f) = (\<forall>v vs st. P st \<longrightarrow> Q (f (v # vs) st))"

lemma keeps_values [simp]:
  "keeps Q (switch upd) \<longleftrightarrow> (\<forall>st. Q st \<longrightarrow> Q (upd (\<lambda>_. True) st))"
  "keeps Q (text_value tupd) \<longleftrightarrow> (\<forall>v st. Q st \<longrightarrow> Q (tupd (\<lambda>_. v) st))"
  "keeps Q (some_text supd) \<longleftrightarrow> (\<forall>v st. Q st \<longrightarrow> Q (supd (\<lambda>_. Some v) st))"
  "keeps Q (choice choices tupd) \<longleftrightarrow> (\<forall>v \<in> set choices. \<forall>st. Q st \<longrightarrow> Q (tupd (\<lambda>_. v) st))"
  by (auto simp: switch_def text_value_def some_text_def choice_def)

lemma keeps_int_value: "(\<And>v st. Q st \<Longrightarrow> Q (upd (\<lambda>_. v) st)) \<Longrightarrow> keeps Q (int_value upd)"
  by (auto simp: int_value_def)

fun harmless :: "('a \<Rightarrow> bool) \<Rightarrow> 'a token \<Rightarrow> bool" where
  "harmless Q (Option (Some a) opt e) = keeps Q a"
| "harmless Q _ = True"

fun settles :: "('a \<Rightarrow> bool) \<Rightarrow> 'a token \<Rightarrow> bool" where
  "settles Q (Option (Some (Flag g)) opt None) = (\<forall>st. Q (g st))"
| "settles Q _ = False"

lemma take_flags_keeps:
  "take_flags as st = Inr st' \<Longrightarrow> list_all (keeps Q) as \<Longrightarrow> Q st \<Longrightarrow> Q st'"
  by (induction as st rule: take_flags.induct) auto

lemma take_value_keeps: "take_value conv v st = Inr st' \<Longrightarrow> keeps Q (Store conv) \<Longrightarrow> Q st \<Longrightarrow> Q st'"
  by (auto simp: take_value_def usage_error_def split: option.splits)

lemma in_dropped_options: "t \<in> set ts \<Longrightarrow> is_option t \<Longrightarrow> t \<in> set (dropWhile (\<lambda>t. \<not> is_option t) ts)"
  by (induction ts) auto

lemma settles_option: "settles Q t \<Longrightarrow> is_option t"
  by (cases t) auto

locale respected =
  fixes p :: "'a cli" and Q :: "'a \<Rightarrow> bool"
  assumes respects: "list_all (keeps Q \<circ> snd) (cli_options p)"
begin

lemma action_kept: "action_of p s = Some a \<Longrightarrow> keeps Q a"
  using respects by (auto simp: action_of_def list_all_iff dest!: find_Some_iff [THEN iffD1] nth_mem)

lemma harmless_option: "harmless Q (Option (action_of p opt) opt' e)"
  by (cases "action_of p opt") (simp_all add: action_kept)

lemma classify_harmless: "classify p s = Some t \<Longrightarrow> harmless Q t"
  by (auto simp: classify_def bind_eq_Some_conv harmless_option dest: action_kept
      split: if_splits option.splits list.splits prod.splits)

lemma tokens_harmless: "tokens p ss = Some ts \<Longrightarrow> list_all (harmless Q) ts"
  by (induction ss arbitrary: ts)
    (auto simp: bind_eq_Some_conv list_all_iff classify_harmless split: if_splits)

fun last_keeps :: "('a action \<times> string option) option \<Rightarrow> bool" where
  "last_keeps None = True"
| "last_keeps (Some (b, v)) = keeps Q b"

lemma cluster_kept:
  "cluster p a opt sep e = Some (as, lst) \<Longrightarrow> keeps Q a \<Longrightarrow> last_keeps lst \<and> list_all (keeps Q) as"
  by (induction p' \<equiv> p a opt sep e arbitrary: as lst rule: cluster.induct)
    (fastforce dest: action_kept split: if_splits option.splits list.splits)+

lemma last_option_kept:
  assumes "last_option lst ts = (rest, over, Some act)" "last_keeps lst" "act st = Inr st'" "Q st"
  shows "Q st'"
  using assms
  by (auto simp: last_option_def split: option.splits prod.splits action.splits list.splits token.splits
      dest: take_value_keeps [where Q = Q] take_flags_keeps [where Q = Q])

lemma take_option_kept:
  assumes "take_option p a opt e ts st = (rest, over, Inr st')" "keeps Q a" "Q st"
  shows "Q st'"
proof -
  from assms(1) obtain as lst act st1 where
    found: "(case e of None \<Rightarrow> Some ([], Some (a, None)) | Some (sep, v) \<Rightarrow> cluster p a opt sep v) = Some (as, lst)"
    and lst: "last_option lst ts = (rest, over, Some act)"
    and taken: "take_flags as st = Inr st1" "act st1 = Inr st'"
    by (auto simp: take_option_def usage_error_def split: option.splits prod.splits sum.splits)
  from found assms(2) have "last_keeps lst" "list_all (keeps Q) as"
    by (auto split: option.splits prod.splits dest: cluster_kept)
  then show ?thesis
    using last_option_kept [OF lst _ taken(2)] take_flags_keeps [OF taken(1)] assms(3) by blast
qed

lemma take_positionals_kept:
  assumes "take_positionals pos vs st = (pos', over, st')" "fills Q Q pos"
  shows "fills Q Q pos'"
    and "Q st \<or> (\<not> filled pos \<and> fills (\<lambda>_. True) Q pos) \<Longrightarrow>
      Q st' \<or> (\<not> filled pos' \<and> fills (\<lambda>_. True) Q pos')"
  using assms by (auto simp: take_positionals_def split: positional.splits list.splits)

lemma take_option_settles:
  assumes "take_option p a opt e ts st = (rest, over, Inr st')" "settles Q (Option (Some a) opt e)"
  shows "Q st'"
  using assms by (cases a; cases e) (auto simp: take_option_def last_option_def)

text \<open>What makes \<open>Q\<close> hold in the end: it holds, or an option or the positionals to come establish it.\<close>

definition promised :: "'a positional \<Rightarrow> 'a token list \<Rightarrow> 'a \<Rightarrow> bool" where
  "promised pos ts st \<longleftrightarrow>
     Q st \<or> (\<exists>t \<in> set ts. settles Q t) \<or> (\<not> filled pos \<and> fills (\<lambda>_. True) Q pos)"

lemma promised_positionals:
  assumes "promised pos (t # ts) st" "\<not> is_option t" "fills Q Q pos"
    and "take_positionals pos vs st = (pos', over, st')"
  shows "promised pos' (dropWhile (\<lambda>t. \<not> is_option t) ts) st'"
  using assms(1,2) take_positionals_kept(2) [OF assms(4,3)] in_dropped_options settles_option
  unfolding promised_def by (metis set_ConsD)

lemma promised_option:
  assumes "promised pos (Option (Some a) opt e # ts) st" "keeps Q a"
    and "take_option p a opt e ts st = (rest, over, Inr st')"
  shows "promised pos rest st'"
  using assms(1) take_option_rest [OF assms(3)] take_option_kept [OF assms(3,2)]
    take_option_settles [OF assms(3)]
  by (auto simp: promised_def)

lemma consume_promised:
  "consume p pos extra ts st = Inr st' \<Longrightarrow> list_all (harmless Q) ts \<Longrightarrow> fills Q Q pos \<Longrightarrow>
     promised pos ts st \<Longrightarrow> Q st'"
proof (induction p' \<equiv> p pos extra ts st rule: consume.induct)
  case (1 pos extra st)
  then show ?case by (auto simp: promised_def usage_error_def split: if_splits)
next
  case (2 pos extra opt e ts st)
  then show ?case by (auto simp: promised_def)
next
  case (3 pos extra a opt e ts st)
  from 3(2) obtain rest over st1 where option: "take_option p a opt e ts st = (rest, over, Inr st1)"
    and go_on: "consume p pos (extra \<or> over) rest st1 = Inr st'"
    by (auto split: prod.splits sum.splits)
  from take_option_rest [OF option] 3(3) have "list_all (harmless Q) rest" by auto
  moreover have "promised pos rest st1" using promised_option [OF 3(5) _ option] 3(3) by simp
  ultimately show ?case using 3(1) [OF option [symmetric] refl refl go_on] 3(4) by simp
next
  case (4 pos extra s ts st)
  then obtain pos' over st1 where
    found: "take_positionals pos (s # concat (map plain_text (takeWhile (\<lambda>t. \<not> is_option t) ts))) st = (pos', over, st1)"
    and go_on: "consume p pos' (extra \<or> over) (dropWhile (\<lambda>t. \<not> is_option t) ts) st1 = Inr st'"
    by (auto split: prod.splits)
  have "list_all (harmless Q) (dropWhile (\<lambda>t. \<not> is_option t) ts)"
    using 4(3) by (auto simp: list_all_iff dest: set_dropWhileD)
  with go_on found show ?case
    using 4(1) [OF found [symmetric] refl go_on] take_positionals_kept(1) [OF found 4(4)]
      promised_positionals [OF 4(5) _ 4(4) found] by simp
next
  case (5 pos extra ts st)
  then obtain pos' over st1 where
    found: "take_positionals pos (concat (map plain_text (takeWhile (\<lambda>t. \<not> is_option t) ts))) st = (pos', over, st1)"
    and go_on: "consume p pos' (extra \<or> over) (dropWhile (\<lambda>t. \<not> is_option t) ts) st1 = Inr st'"
    by (auto split: prod.splits)
  have "list_all (harmless Q) (dropWhile (\<lambda>t. \<not> is_option t) ts)"
    using 5(3) by (auto simp: list_all_iff dest: set_dropWhileD)
  with go_on found show ?case
    using 5(1) [OF found [symmetric] refl go_on] take_positionals_kept(1) [OF found 5(4)]
      promised_positionals [OF 5(5) _ 5(4) found] by simp
qed

text \<open>A word in front of any \<open>--\<close> that is an option stays one, whatever surrounds it.\<close>

lemma tokens_before_dashes:
  assumes "tokens p argv = Some ts" "s \<in> set (takeWhile (\<lambda>s. s \<noteq> ''--'') argv)" "action_of p s = Some a"
    "starts_with s ''-''"
  shows "Option (Some a) s None \<in> set ts"
  using assms(1,2)
proof (induction argv arbitrary: ts)
  case (Cons s' argv)
  from assms(3,4) have "classify p s = Some (Option (Some a) s None)" by (simp add: classify_def)
  with Cons show ?case by (auto simp: bind_eq_Some_conv split: if_splits)
qed simp

lemma accepted:
  assumes "parse_command_line p defaults argv = Inr st" "fills Q Q (positional p)"
    and "Q defaults \<or> (\<not> filled (positional p) \<and> fills (\<lambda>_. True) Q (positional p))"
  shows "Q st"
proof -
  from assms(1) obtain ts where ts: "tokens p argv = Some ts"
    and taken: "consume p (positional p) False ts defaults = Inr st"
    by (auto simp: parse_command_line_def usage_error_def split: option.splits)
  show ?thesis
    by (rule consume_promised [OF taken tokens_harmless [OF ts] assms(2)])
      (use assms(3) in \<open>auto simp: promised_def\<close>)
qed

lemma accepted_with:
  assumes "parse_command_line p defaults argv = Inr st" "fills Q Q (positional p)"
    and "s \<in> set (takeWhile (\<lambda>s. s \<noteq> ''--'') argv)" "starts_with s ''-''"
    and "action_of p s = Some (Flag g)" "\<And>st. Q (g st)"
  shows "Q st"
proof -
  from assms(1) obtain ts where ts: "tokens p argv = Some ts"
    and taken: "consume p (positional p) False ts defaults = Inr st"
    by (auto simp: parse_command_line_def usage_error_def split: option.splits)
  have "settles Q (Option (Some (Flag g)) s None)" using assms(6) by simp
  with tokens_before_dashes [OF ts assms(3,5,4)] have "promised (positional p) ts defaults"
    unfolding promised_def by blast
  then show ?thesis by (rule consume_promised [OF taken tokens_harmless [OF ts] assms(2)])
qed

end

subsection \<open>Words with their values\<close>

text \<open>\<open>--option=value\<close> is always understood, whatever the value, as no option string has an equals sign.\<close>

definition assigned :: "string \<Rightarrow> string \<Rightarrow> string" where
  "assigned opt v = opt @ CHR ''='' # v"

lemma assigned_nonempty [simp]: "assigned opt v \<noteq> []"
  by (simp add: assigned_def)

lemma action_of_listed: "action_of p opt = Some a \<Longrightarrow> opt \<in> set (option_strings p)"
  by (force simp: action_of_def option_strings_def find_Some_iff dest: nth_mem)

lemma action_of_unlisted: "opt \<notin> set (option_strings p) \<Longrightarrow> action_of p opt = None"
  using action_of_listed by fastforce

lemma cut_assigned: "CHR ''='' \<notin> set opt \<Longrightarrow> cut_at_equals (assigned opt v) = Some (opt, v)"
  by (auto simp: cut_at_equals_def assigned_def takeWhile_append dropWhile_append)

lemma classify_assigned:
  assumes "\<forall>opt \<in> set (option_strings p). CHR ''='' \<notin> set opt" "action_of p opt = Some a" "starts_with opt ''-''"
  shows "classify p (assigned opt v) = Some (Option (Some a) opt (Some (True, v)))"
proof -
  from assms(1,2) have opt: "CHR ''='' \<notin> set opt" using action_of_listed by blast
  have "CHR ''='' \<in> set (assigned opt v)" by (simp add: assigned_def)
  with assms(1) have "action_of p (assigned opt v) = None" using action_of_unlisted by blast
  moreover have "assigned opt v \<noteq> ''-''" "starts_with (assigned opt v) ''-''"
    using assms(3) opt by (auto simp: assigned_def starts_with_prefix Cons_eq_append_conv append_eq_Cons_conv)
  ultimately show ?thesis using assms(2) by (simp add: classify_def cut_assigned [OF opt])
qed

lemma classify_exact:
  "action_of p s = Some a \<Longrightarrow> starts_with s ''-'' \<Longrightarrow> classify p s = Some (Option (Some a) s None)"
  by (simp add: classify_def)

lemma take_option_simps [simp]:
  "take_option p (Flag g) opt None ts st = (ts, False, Inr (g st))"
  "take_option p (Store conv) opt (Some (sep, v)) ts st = (ts, False, take_value conv v st)"
  by (simp_all add: take_option_def last_option_def)

lemma tokens_dashes [simp]: "tokens p (''--'' # ss) = Some (Double_dash # map Plain ss)"
  by simp

lemma plain_words [simp]:
  "takeWhile (\<lambda>t. \<not> is_option t) (map Plain vs) = map Plain vs"
  "dropWhile (\<lambda>t. \<not> is_option t) (map Plain vs) = []"
  "concat (map (plain_text \<circ> Plain) vs) = vs"
  by (induction vs) simp_all

lemma consume_after_dashes:
  "vs \<noteq> [] \<Longrightarrow> complete p (f vs st) \<Longrightarrow>
     consume p (Many_positional f) False (Double_dash # map Plain vs) st = Inr (f vs st)"
  by (cases vs) (simp_all add: take_positionals_def)

text \<open>A command line is accepted, or ends the process with 0 (help) or 2 (usage error).\<close>

lemma take_flags_Inl: "take_flags as st = Inl e \<Longrightarrow> e = SystemExit 0"
  by (induction as st rule: take_flags.induct) auto

lemma take_value_Inl: "take_value conv v st = Inl e \<Longrightarrow> e = SystemExit 2"
  by (auto simp: take_value_def usage_error_def split: option.splits)

lemma last_option_Inl:
  "last_option lst ts = (rest, over, Some act) \<Longrightarrow> act st = Inl x \<Longrightarrow> x \<in> {SystemExit 0, SystemExit 2}"
  by (auto simp: last_option_def dest: take_flags_Inl take_value_Inl
      split: option.splits prod.splits action.splits list.splits token.splits)

lemma take_option_Inl: "take_option p a opt e ts st = (rest, over, Inl x) \<Longrightarrow> x \<in> {SystemExit 0, SystemExit 2}"
  by (auto simp: take_option_def usage_error_def dest: take_flags_Inl last_option_Inl
      split: option.splits prod.splits sum.splits)

lemma consume_Inl: "consume p pos extra ts st = Inl x \<Longrightarrow> x \<in> {SystemExit 0, SystemExit 2}"
proof (induction p pos extra ts st rule: consume.induct)
  case (3 p pos extra a opt e ts st)
  then show ?case by (auto split: prod.splits sum.splits dest: take_option_Inl)
qed (auto simp: usage_error_def split: if_splits prod.splits)

lemma parse_command_line_Inl:
  "parse_command_line p defaults argv = Inl x \<Longrightarrow> x \<in> {SystemExit 0, SystemExit 2}"
  by (auto simp: parse_command_line_def usage_error_def split: option.splits dest: consume_Inl)

end
