(* ===== verification/Connection.thy ===== *)
theory Connection
  imports Driver Arguments
begin

text \<open>
  \<open>sample_app/scylla_connection_library.py\<close>: the connection flags the load and query tools share, the
  contact points and port of a \<open>-s\<close> value, the TLS checks made before connecting, and the
  configuration of the cluster object in local-only and cluster mode.
\<close>

subsection \<open>Constants and flags\<close>

definition CONFIG_DIR :: string where
  "CONFIG_DIR = ''./config''"

definition DEFAULT_PORT :: string where
  "DEFAULT_PORT = ''9042''"

definition TLS_PORT :: string where
  "TLS_PORT = ''9142''"

definition MTLS_USERNAME :: string where
  "MTLS_USERNAME = ''mtls''"

record connection_args =
  arg_hosts :: string
  arg_username :: string
  arg_password :: string
  arg_local_only :: bool
  arg_mtls :: bool
  arg_tls :: bool
  arg_dc :: string
  arg_rack :: "string option"

text \<open>\<open>os.environ.get(x) or default\<close>: an empty variable counts as unset.\<close>

definition environ_or :: "(string \<Rightarrow> string option) \<Rightarrow> string \<Rightarrow> string \<Rightarrow> string" where
  "environ_or environ x fallback = (case environ x of Some (c # v) \<Rightarrow> c # v | _ \<Rightarrow> fallback)"

definition add_connection_args :: "(string \<Rightarrow> string option) \<Rightarrow> connection_args" where
  "add_connection_args environ =
     \<lparr>arg_hosts = environ_or environ ''CONTACT_POINTS'' ''127.0.0.1'',
      arg_username = environ_or environ ''USERNAME'' ''cassandra'',
      arg_password = environ_or environ ''PASSWORD'' ''cassandra'',
      arg_local_only = False, arg_mtls = False, arg_tls = False,
      arg_dc = environ_or environ ''DC'' ''dc1'',
      arg_rack = (case environ ''RACK'' of Some (c # v) \<Rightarrow> Some (c # v) | _ \<Rightarrow> None)\<rparr>"

subsection \<open>Contact points\<close>

text \<open>What \<open>add_connection_args\<close> adds to a tool's parser.\<close>

definition connection_options :: "(string list \<times> connection_args action) list" where
  "connection_options =
     [([''-s'', ''--hosts''], text_value arg_hosts_update),
      ([''-u'', ''--username''], text_value arg_username_update),
      ([''-p'', ''--password''], text_value arg_password_update),
      ([''-l'', ''--local_only''], switch arg_local_only_update),
      ([''-m'', ''--mtls''], switch arg_mtls_update),
      ([''-e'', ''--tls''], switch arg_tls_update),
      ([''--dc''], text_value arg_dc_update),
      ([''-z'', ''--rack''], some_text arg_rack_update)]"

definition parse_hosts :: "string \<Rightarrow> string list \<times> string" where
  "parse_hosts spec =
     (let hosts = map (\<lambda>h. hd (split_on CHR '':'' (strip h)))
                    (filter (\<lambda>h. strip h \<noteq> []) (split_on CHR '','' spec));
          parts = split_on CHR '':'' (strip spec)
      in (hosts, if length parts > 1 then parts ! 1 else DEFAULT_PORT))"

text \<open>
  The file system as the checks see it: which paths exist, are directories (symbolic links followed),
  are regular files, and load as TLS material (otherwise \<open>ssl\<close> raises an OSError).
\<close>

record files =
  lexists :: "string \<Rightarrow> bool"
  isdir :: "string \<Rightarrow> bool"
  isfile :: "string \<Rightarrow> bool"
  loads :: "string \<Rightarrow> bool"

definition in_config :: "string \<Rightarrow> string" where
  "in_config name = CONFIG_DIR @ ''/'' @ name"

definition required_files :: "string list" where
  "required_files = [in_config ''ca.crt'', in_config ''tls.crt'', in_config ''tls.key'']"

definition tls_preflight :: "files \<Rightarrow> bool" where
  "tls_preflight fs \<longleftrightarrow>
     lexists fs CONFIG_DIR \<and> isdir fs CONFIG_DIR \<and> list_all (isfile fs) required_files"

definition resolve_connection :: "files \<Rightarrow> connection_args \<Rightarrow> exn + string list \<times> string \<times> string" where
  "resolve_connection fs opts =
     (case parse_hosts (arg_hosts opts) of
        (hosts, port) \<Rightarrow>
          (if arg_mtls opts \<or> arg_tls opts then
             (if \<not> tls_preflight fs then Inl (SystemExit 1)
              else Inr (hosts, TLS_PORT, if arg_mtls opts then MTLS_USERNAME else arg_username opts))
           else Inr (hosts, port, arg_username opts)))"

subsection \<open>The cluster object\<close>

text \<open>\<open>SingleEndpointTranslator(host).translate(addr)\<close>, and what a cluster does with an address.\<close>

definition translate :: "string \<Rightarrow> string \<Rightarrow> string" where
  "translate host addr = host"

definition reached_at :: "cluster \<Rightarrow> string \<Rightarrow> string" where
  "reached_at c addr = (case address_translator c of None \<Rightarrow> addr | Some host \<Rightarrow> translate host addr)"

text \<open>\<open>hosts[0]\<close> and \<open>int(port)\<close> with the exceptions they raise.\<close>

definition first_of :: "'a list \<Rightarrow> 'a py" where
  "first_of xs = (case xs of [] \<Rightarrow> Inl IndexError | x # _ \<Rightarrow> Inr x)"

definition int_of :: "string \<Rightarrow> int py" where
  "int_of text = (case py_int text of None \<Rightarrow> Inl ValueError | Some n \<Rightarrow> Inr n)"

definition loopback :: "string list \<Rightarrow> bool" where
  "loopback hosts \<longleftrightarrow> (case hosts of [] \<Rightarrow> False | h # _ \<Rightarrow> h = ''127.0.0.1'' \<or> h = ''localhost'')"

definition tls_setup_of :: "files \<Rightarrow> string \<Rightarrow> ssl_context option py" where
  "tls_setup_of fs port =
     (if port = TLS_PORT then
        ebind (load_verify_locations (loads fs) (in_config ''ca.crt'')
                 ((SSLContext PROTOCOL_TLS_CLIENT)\<lparr>minimum_version := TLSv1_2, maximum_version := TLSv1_3\<rparr>)) (\<lambda>c.
        ebind (set_verify_mode CERT_REQUIRED c) (\<lambda>c.
        ebind (load_cert_chain (loads fs) (in_config ''tls.crt'') (in_config ''tls.key'') c) (\<lambda>c.
        Inr (Some c))))
      else Inr None)"

text \<open>The configuration for one mode: the values of \<open>common_kwargs\<close>.\<close>

definition local_cluster :: "string list \<Rightarrow> string \<Rightarrow> cluster" where
  "local_cluster hosts endpoint =
     \<lparr>cluster_hosts = hosts, cluster_port = 0, cluster_tls = None, server_hostname = None,
      load_balancing = Round_robin, request_timeout = 30, default_consistency = Some ''ONE'',
      shard_aware_disabled = Some True, protocol_version = 4, connect_timeout = 30,
      control_connection_timeout = 5, metadata_enabled = False,
      address_translator = Some endpoint, plain_text_auth = None\<rparr>"

definition remote_cluster :: "string list \<Rightarrow> string \<Rightarrow> string option \<Rightarrow> cluster" where
  "remote_cluster hosts center near =
     \<lparr>cluster_hosts = hosts, cluster_port = 0, cluster_tls = None, server_hostname = None,
      load_balancing = (case near of Some (c # r) \<Rightarrow> Token_aware_rack center (c # r) | _ \<Rightarrow> Token_aware_dc center),
      request_timeout = 30, default_consistency = None, shard_aware_disabled = Some False,
      protocol_version = 4, connect_timeout = 30, control_connection_timeout = 30,
      metadata_enabled = True, address_translator = None, plain_text_auth = None\<rparr>"

definition cluster_of ::
    "files \<Rightarrow> string list \<Rightarrow> string \<Rightarrow> string \<Rightarrow> string \<Rightarrow> string \<Rightarrow> bool \<Rightarrow> string option \<Rightarrow> cluster py" where
  "cluster_of fs hosts port username password center local near =
     ebind (if loopback hosts \<or> local
            then ebind (first_of hosts) (\<lambda>h. Inr (local_cluster hosts h))
            else Inr (remote_cluster hosts center near)) (\<lambda>mode.
     ebind (tls_setup_of fs port) (\<lambda>tls.
     ebind (if tls = None then Inr None else ebind (first_of hosts) (\<lambda>h. Inr (Some h))) (\<lambda>sni.
     ebind (int_of port) (\<lambda>n.
     Inr (mode\<lparr>cluster_port := n, cluster_tls := tls, server_hostname := sni,
               plain_text_auth :=
                 (if username \<noteq> MTLS_USERNAME then Some (username, password) else None)\<rparr>)))))"

text \<open>
  What \<open>log_rack_placement\<close> reports: how many hosts of the datacenter are in the near (a warning when
  none is) and which racks the datacenter has.
\<close>

record placement =
  members :: nat
  racks_found :: "string list"

definition log_rack_placement :: "host_info list \<Rightarrow> string \<Rightarrow> string \<Rightarrow> placement" where
  "log_rack_placement all_hosts center near =
     (let hosts = filter (\<lambda>h. datacenter h = Some center) all_hosts;
          named = List.map_filter (\<lambda>h. case host_rack h of Some (c # r) \<Rightarrow> Some (c # r) | _ \<Rightarrow> None) hosts
      in \<lparr>members = length (filter (\<lambda>h. host_rack h = Some near) hosts),
          racks_found = sort (remdups named)\<rparr>)"

definition given_rack :: "string option \<Rightarrow> string option" where
  "given_rack near = (case near of Some (c # r) \<Rightarrow> Some (c # r) | _ \<Rightarrow> None)"

definition build_cluster_and_session ::
    "'w server \<Rightarrow> files \<Rightarrow> string list \<Rightarrow> string \<Rightarrow> string \<Rightarrow> string \<Rightarrow> string \<Rightarrow> bool \<Rightarrow> string option
       \<Rightarrow> ('w, placement option) script" where
  "build_cluster_and_session E fs hosts port username password center local near =
     bind (lift (cluster_of fs hosts port username password center local near)) (\<lambda>c.
     seq (tell E (Connect c))
         (case given_rack near of
            Some r \<Rightarrow>
              (if loopback hosts \<or> local then ret None
               else bind (ask E All_hosts) (\<lambda>a.
                    ret (Some (log_rack_placement (hosts_in a) center r))))
          | None \<Rightarrow> ret None))"

text \<open>\<open>log_auth\<close>: the user and a mask of the password, or the note that certificates were used.\<close>

definition log_auth :: "string \<Rightarrow> string \<Rightarrow> (string \<times> string) option" where
  "log_auth username password =
     (if username = MTLS_USERNAME then None else Some (username, replicate (length password) CHR ''*''))"

subsection \<open>Facts about contact points\<close>

lemma digit_not_comma: "digit c = Some d \<Longrightarrow> c \<noteq> CHR '',''"
  by (auto simp: digit_def)

lemma digits_split:
  assumes "digits acc (c # s) = Some n"
  obtains (digit) d where "digit c = Some d" "digits (10 * acc + d) s = Some n"
    | (underscore) c' s' d where "c = CHR ''_''" "s = c' # s'" "digit c' = Some d"
        "digits (10 * acc + d) s' = Some n"
  using assms by (simp split: option.splits if_splits list.splits)

lemma sep_free_digits: "digits acc s = Some n \<Longrightarrow> CHR '','' \<notin> set s"
proof (induction "length s" arbitrary: acc s rule: less_induct)
  case less
  show ?case
  proof (cases s)
    case (Cons c s')
    from less.prems [unfolded Cons] show ?thesis
    proof (cases rule: digits_split)
      case (digit d)
      with less.hyps [of s'] Cons digit_not_comma [OF digit(1)] show ?thesis by simp
    next
      case (underscore c' s'' d)
      with less.hyps [of s''] Cons digit_not_comma [OF underscore(3)] show ?thesis by simp
    qed
  qed simp
qed

lemma sep_free_py_nat: "py_nat s = Some n \<Longrightarrow> CHR '','' \<notin> set s"
  by (auto simp: py_nat_def digit_def split: list.splits option.splits dest!: sep_free_digits)

lemma sep_free_py_int: "py_int s = Some n \<Longrightarrow> CHR '','' \<notin> set (strip s)"
  by (auto simp: py_int_def split: list.splits if_splits dest!: sep_free_py_nat)

text \<open>A part of a host list: not empty, and free of separators and white space.\<close>

definition plain :: "string \<Rightarrow> bool" where
  "plain w \<longleftrightarrow> w \<noteq> [] \<and> (\<forall>c \<in> set w. \<not> is_space c \<and> c \<noteq> CHR '','' \<and> c \<noteq> CHR '':'')"

lemma plainD:
  assumes "plain w"
  shows "w \<noteq> []" "strip w = w" "CHR '','' \<notin> set w" "CHR '':'' \<notin> set w"
  using assms by (auto simp: plain_def strip_no_space)

lemma strip_joined: "(\<forall>w \<in> set ws. \<forall>c \<in> set w. \<not> is_space c) \<Longrightarrow> \<not> is_space sep \<Longrightarrow> strip (join [sep] ws) = join [sep] ws"
proof -
  assume "\<forall>w \<in> set ws. \<forall>c \<in> set w. \<not> is_space c" and sep: "\<not> is_space sep"
  with set_join [of "[sep]" ws] have "\<forall>c \<in> set (join [sep] ws). \<not> is_space c" by fastforce
  then show ?thesis by (rule strip_no_space)
qed

lemma parse_hosts_plain:
  assumes "hosts \<noteq> []" and "list_all plain hosts"
  shows "parse_hosts (join '','' hosts) = (hosts, DEFAULT_PORT)"
proof -
  have parts: "split_on CHR '','' (join '','' hosts) = hosts"
    using assms by (intro split_on_join) (auto simp: list_all_iff plain_def)
  have colon: "CHR '':'' \<notin> set (join '','' hosts)"
    using set_join [of "'',''" hosts] assms(2) by (fastforce simp: list_all_iff plain_def)
  have "strip (join '','' hosts) = join '','' hosts"
    using assms(2) by (intro strip_joined) (auto simp: list_all_iff plain_def is_space_def)
  moreover have "map (\<lambda>h. hd (split_on CHR '':'' (strip h))) (filter (\<lambda>h. strip h \<noteq> []) hosts) = hosts"
    using assms(2) by (induction hosts) (auto simp: plainD split_on_single)
  ultimately show ?thesis
    by (simp add: parse_hosts_def parts split_on_single [OF colon])
qed

lemma parse_hosts_with_port:
  assumes "plain h" "plain p"
  shows "parse_hosts (h @ '':'' @ p) = ([h], p)"
proof -
  have all: "\<forall>c \<in> set (h @ '':'' @ p). \<not> is_space c" using assms by (auto simp: plain_def is_space_def)
  have "split_on CHR '','' (h @ '':'' @ p) = [h @ '':'' @ p]"
    using assms by (intro split_on_single) (auto simp: plain_def)
  moreover have "split_on CHR '':'' (h @ '':'' @ p) = [h, p]"
    using split_on_append [of "CHR '':''" h p] assms by (simp add: plainD split_on_single)
  ultimately show ?thesis
    using strip_no_space [OF all] by (simp add: parse_hosts_def)
qed

text \<open>Two contact points with a port each: the port is read up to the next colon, host included.\<close>

lemma parse_hosts_two_ports:
  assumes "plain h" "plain p" "plain h'" "plain p'"
  shows "parse_hosts (h @ '':'' @ p @ '','' @ h' @ '':'' @ p') = ([h, h'], p @ '','' @ h')"
proof -
  let ?s = "h @ '':'' @ p @ '','' @ h' @ '':'' @ p'"
  have all: "\<forall>c \<in> set ?s. \<not> is_space c" using assms by (auto simp: plain_def is_space_def)
  have comma: "split_on CHR '','' ?s = [h @ '':'' @ p, h' @ '':'' @ p']"
    using split_on_append [of "CHR '',''" "h @ '':'' @ p" "h' @ '':'' @ p'"] assms
    by (simp add: plainD split_on_single)
  have colon: "split_on CHR '':'' (w @ '':'' @ v) = w # split_on CHR '':'' v" if "plain w" for w v
    using split_on_append [of "CHR '':''" w v] plainD [OF that] by simp
  have rest: "split_on CHR '':'' (p @ '','' @ h' @ '':'' @ p') = [p @ '','' @ h', p']"
    using split_on_append [of "CHR '':''" "p @ '','' @ h'" p'] assms by (simp add: plainD split_on_single)
  have one: "strip (w @ '':'' @ v) = w @ '':'' @ v" if "plain w" "plain v" for w v
    using that by (intro strip_no_space) (auto simp: plain_def is_space_def)
  show ?thesis
    unfolding parse_hosts_def comma
    using strip_no_space [OF all] one assms colon [of h] colon [of h'] rest
    by (simp add: Let_def)
qed

subsection \<open>Facts about the cluster object\<close>

lemma cluster_of_Inr:
  assumes "cluster_of fs hosts port username password center local near = Inr c"
  shows "cluster_hosts c = hosts"
    and "int_of port = Inr (cluster_port c)"
    and "tls_setup_of fs port = Inr (cluster_tls c)"
    and "server_hostname c = (if cluster_tls c = None then None else Some (hd hosts))"
    and "plain_text_auth c = (if username = MTLS_USERNAME then None else Some (username, password))"
    and "address_translator c = (if loopback hosts \<or> local then Some (hd hosts) else None)"
    and "loopback hosts \<or> local \<or> cluster_tls c \<noteq> None \<Longrightarrow> hosts \<noteq> []"
  using assms
  by (auto simp: cluster_of_def ebind_Inr_iff first_of_def local_cluster_def remote_cluster_def
      split: if_splits list.splits)

lemma tls_setup_of_Inr: "tls_setup_of fs port = Inr t \<Longrightarrow> t \<noteq> None \<longleftrightarrow> port = TLS_PORT"
  by (auto simp: tls_setup_of_def ebind_Inr_iff split: if_splits)

lemma tls_setup_of_verifies:
  assumes "tls_setup_of fs port = Inr (Some t)"
  shows "minimum_version t = TLSv1_2 \<and> client_chain t = Some (in_config ''tls.crt'', in_config ''tls.key'') \<and>
    (admits t (Some h) cert \<longleftrightarrow> issuer cert = in_config ''ca.crt'' \<and> h \<in> set (issued_for cert))"
  using assms
  by (auto simp: tls_setup_of_def load_verify_locations_def set_verify_mode_def load_cert_chain_def SSLContext_def
      admits_def split: if_splits)

lemma int_of_TLS_PORT: "int_of TLS_PORT = Inr 9142"
  by code_simp

lemma resolve_connection_Inr:
  assumes "resolve_connection fs opts = Inr (hosts, port, user)"
  shows "hosts = fst (parse_hosts (arg_hosts opts))"
    and "port = (if arg_mtls opts \<or> arg_tls opts then TLS_PORT else snd (parse_hosts (arg_hosts opts)))"
    and "user = (if arg_mtls opts then MTLS_USERNAME else arg_username opts)"
    and "arg_mtls opts \<or> arg_tls opts \<Longrightarrow> tls_preflight fs"
  using assms by (auto simp: resolve_connection_def split: prod.splits if_splits)

lemma build_run:
  assumes "build_cluster_and_session E fs hosts port username password center local near w = (t, w', r)"
  shows "(\<exists>e. cluster_of fs hosts port username password center local near = Inl e \<and>
            t = [] \<and> w' = w \<and> r = Inl (Exn (PyError e))) \<or>
         (\<exists>c a t'. cluster_of fs hosts port username password center local near = Inr c \<and>
            t = (Connect c, a) # t' \<and> fst ` set t' \<subseteq> {All_hosts})"
proof (cases "cluster_of fs hosts port username password center local near")
  case (Inl e)
  with assms show ?thesis by (simp add: build_cluster_and_session_def)
next
  case (Inr c)
  with assms show ?thesis
    by (auto simp: build_cluster_and_session_def seq_def tell_def elim!: bindE dest!: request_run
        split: option.splits if_splits)
qed

lemma asks_build:
  assumes "\<And>c. Q (Connect c)" "Q All_hosts"
  shows "obeys (asks Q) (build_cluster_and_session E fs hosts port username password center local near)"
  using assms build_run [of E fs hosts port username password center local near]
  by (intro asksI) fastforce

lemma ending_build: "obeys ending (build_cluster_and_session E fs hosts port username password center local near)"
  unfolding build_cluster_and_session_def
  by (auto intro!: ending.obeys_bind ending.obeys_lift ending.obeys_seq split: option.split)

subsection \<open>Properties\<close>

text \<open>
  C18: A cluster object is configured the way the flags ask. With \<open>--tls\<close> or \<open>--mtls\<close> the TLS files
  were found, the connection uses TLS 1.2 or later on port 9142, and a peer is admitted exactly if its
  certificate comes from \<open>config/ca.crt\<close> and names the first contact point; with \<open>--mtls\<close> the client's
  certificate is presented and the password never handed to the driver. Every address the cluster
  advertises is reached at the one forwarded endpoint in local-only mode, and as it is otherwise.
\<close>

theorem connection_as_asked:
  assumes resolved: "resolve_connection fs opts = Inr (hosts, port, user)"
    and built: "cluster_of fs hosts port user (arg_password opts) (arg_dc opts) (arg_local_only opts) (arg_rack opts) = Inr c"
  shows "(if arg_tls opts \<or> arg_mtls opts
          then tls_preflight fs \<and> cluster_port c = 9142 \<and>
               (\<exists>t. cluster_tls c = Some t \<and> minimum_version t = TLSv1_2 \<and>
                  client_chain t = Some (in_config ''tls.crt'', in_config ''tls.key'') \<and>
                  (\<forall>cert. admits t (server_hostname c) cert \<longleftrightarrow>
                     issuer cert = in_config ''ca.crt'' \<and> hd hosts \<in> set (issued_for cert)))
          else int_of port = Inr (cluster_port c)) \<and>
         (arg_mtls opts \<longrightarrow> plain_text_auth c = None) \<and>
         (\<not> arg_mtls opts \<and> arg_username opts \<noteq> MTLS_USERNAME \<longrightarrow>
            plain_text_auth c = Some (arg_username opts, arg_password opts)) \<and>
         (\<forall>addr. reached_at c addr = (if loopback hosts \<or> arg_local_only opts then hd hosts else addr))"
proof -
  note r = resolve_connection_Inr [OF resolved] and c = cluster_of_Inr [OF built]
  have secure: "tls_preflight fs \<and> cluster_port c = 9142 \<and>
      (\<exists>t. cluster_tls c = Some t \<and> minimum_version t = TLSv1_2 \<and>
         client_chain t = Some (in_config ''tls.crt'', in_config ''tls.key'') \<and>
         (\<forall>cert. admits t (server_hostname c) cert \<longleftrightarrow>
            issuer cert = in_config ''ca.crt'' \<and> hd hosts \<in> set (issued_for cert)))" if "arg_tls opts \<or> arg_mtls opts"
  proof -
    from that r have port: "port = TLS_PORT" and ok: "tls_preflight fs" by auto
    with c(3) obtain t where t: "cluster_tls c = Some t" using tls_setup_of_Inr [OF c(3)] by auto
    then have "server_hostname c = Some (hd hosts)" using c(4) by simp
    with tls_setup_of_verifies [OF c(3) [unfolded t]] c(2) port ok t show ?thesis by (simp add: int_of_TLS_PORT)
  qed
  show ?thesis using secure c r(3) by (auto simp: reached_at_def translate_def)
qed

definition some_args :: connection_args where
  "some_args = (add_connection_args (\<lambda>_. None))\<lparr>arg_hosts := ''node1,node2'', arg_mtls := True\<rparr>"

definition tls_files :: files where
  "tls_files = \<lparr>lexists = (\<lambda>_. True), isdir = (\<lambda>_. True), isfile = (\<lambda>_. True), loads = (\<lambda>_. True)\<rparr>"

definition some_cluster :: cluster where
  "some_cluster = (remote_cluster [''node1'', ''node2''] ''dc1'' None)\<lparr>cluster_port := 9142,
     cluster_tls := Some \<lparr>check_hostname = True, peer_verification = CERT_REQUIRED, minimum_version = TLSv1_2,
       maximum_version = TLSv1_3, authorities = [in_config ''ca.crt''],
       client_chain = Some (in_config ''tls.crt'', in_config ''tls.key'')\<rparr>,
     server_hostname := Some ''node1''\<rparr>"

lemma some_resolved: "resolve_connection tls_files some_args = Inr ([''node1'', ''node2''], TLS_PORT, MTLS_USERNAME)"
  by code_simp

lemma some_built:
  "cluster_of tls_files [''node1'', ''node2''] TLS_PORT MTLS_USERNAME (arg_password some_args) (arg_dc some_args)
     (arg_local_only some_args) (arg_rack some_args) = Inr some_cluster"
  by code_simp

theorem connection_as_asked_witness:
  "plain_text_auth some_cluster = None \<and> cluster_port some_cluster = 9142"
  using connection_as_asked [OF some_resolved some_built] by (simp add: some_args_def)

text \<open>
  C19: The \<open>-s\<close> value: contact points joined by commas give that list and the default port, and a
  single \<open>host:port\<close> gives the host and its port.
\<close>

theorem parse_hosts_correct:
  assumes "hosts \<noteq> []" and "list_all plain (p # hosts)"
  shows "parse_hosts (join '','' hosts) = (hosts, DEFAULT_PORT) \<and>
         parse_hosts (hd hosts @ '':'' @ p) = ([hd hosts], p)"
  using assms parse_hosts_plain [of hosts] parse_hosts_with_port [of "hd hosts" p] by (cases hosts) simp_all

theorem parse_hosts_correct_witness:
  "parse_hosts ''10.0.0.1,node2'' = ([''10.0.0.1'', ''node2''], DEFAULT_PORT) \<and>
   parse_hosts ''10.0.0.1:9042'' = ([''10.0.0.1''], ''9042'')"
  using parse_hosts_correct [of "[''10.0.0.1'', ''node2'']" "''9042''"] by (simp add: plain_def is_space_def)

text \<open>
  C20: Two contact points that both carry a port are not accepted, although the help of \<open>-s\<close> offers
  \<open>host:port\<close>: the port runs into the second host, and building the session ends with a ValueError
  before anything is sent.
\<close>

theorem two_ports_fail:
  assumes "list_all plain [h, p, h', p']"
    and opts: "arg_hosts opts = h @ '':'' @ p @ '','' @ h' @ '':'' @ p'" "\<not> arg_mtls opts" "\<not> arg_tls opts"
  shows "resolve_connection fs opts = Inr ([h, h'], p @ '','' @ h', arg_username opts) \<and>
         build_cluster_and_session E fs [h, h'] (p @ '','' @ h') user password center local near w
           = ([], w, Inl (Exn (PyError ValueError)))"
proof -
  have "strip (p @ '','' @ h') = p @ '','' @ h'"
    using assms(1) by (intro strip_no_space) (auto simp: plain_def is_space_def)
  then have "int_of (p @ '','' @ h') = Inl ValueError"
    using sep_free_py_int [of "p @ '','' @ h'"] by (cases "py_int (p @ '','' @ h')") (auto simp: int_of_def)
  moreover have "tls_setup_of fs (p @ '','' @ h') = Inr None"
  proof -
    have "CHR '','' \<in> set (p @ '','' @ h')" and "CHR '','' \<notin> set TLS_PORT" by (simp_all add: TLS_PORT_def)
    then have "p @ '','' @ h' \<noteq> TLS_PORT" by metis
    then show ?thesis by (simp add: tls_setup_of_def)
  qed
  ultimately have "cluster_of fs [h, h'] (p @ '','' @ h') user password center local near = Inl ValueError"
    by (simp add: cluster_of_def first_of_def)
  with parse_hosts_two_ports [of h p h' p'] assms show ?thesis
    by (simp add: build_cluster_and_session_def resolve_connection_def)
qed

theorem two_ports_fail_witness:
  "snd (snd (build_cluster_and_session (\<lambda>w q. (Ok, w)) tls_files [''a'', ''b''] ''9042,b'' ''u'' ''p'' ''dc1'' False None ()))
     = Inl (Exn (PyError ValueError))"
  using two_ports_fail [of "''a''" "''9042''" "''b''" "''9043''"
      "(add_connection_args (\<lambda>_. None))\<lparr>arg_hosts := ''a:9042,b:9043''\<rparr>" tls_files
      "\<lambda>w q. (Ok, w)" "''u''" "''p''" "''dc1''" False None "()"]
  by (simp add: plain_def is_space_def add_connection_args_def)

end
