(* ===== verification/Ranges.thy ===== *)
theory Ranges
  imports Main
begin

text \<open>
  Splitting an interval of integers into pieces, as the data tools do to share work between worker
  processes, batches and threads. A piece is a pair of its first and last element. The locale states
  what a splitter promises: the pieces, joined in order, are the interval. What clients need (no
  element twice, none outside, none missing, sizes adding up) follows once for every splitter.
\<close>

type_synonym piece = "int \<times> int"

definition ids :: "piece \<Rightarrow> int list" where
  "ids p = [fst p..snd p]"

locale splitter =
  fixes pieces :: "int \<Rightarrow> int \<Rightarrow> piece list" and ok :: "int \<Rightarrow> int \<Rightarrow> bool"
  assumes joined: "ok lo hi \<Longrightarrow> concat (map ids (pieces lo hi)) = [lo..hi]"
begin

lemma covered: "ok lo hi \<Longrightarrow> (\<Union>p \<in> set (pieces lo hi). set (ids p)) = {lo..hi}"
  using arg_cong [OF joined, of lo hi set] by simp

lemma inside: "ok lo hi \<Longrightarrow> p \<in> set (pieces lo hi) \<Longrightarrow> i \<in> set (ids p) \<Longrightarrow> lo \<le> i \<and> i \<le> hi"
  using covered [of lo hi] by auto

lemma found: "ok lo hi \<Longrightarrow> lo \<le> i \<Longrightarrow> i \<le> hi \<Longrightarrow> \<exists>p \<in> set (pieces lo hi). i \<in> set (ids p)"
  using covered [of lo hi] by auto

lemma each_once: "ok lo hi \<Longrightarrow> distinct (concat (map ids (pieces lo hi)))"
  by (simp add: joined)

lemma sizes: "ok lo hi \<Longrightarrow> sum_list (map (\<lambda>p. length (ids p)) (pieces lo hi)) = nat (hi - lo + 1)"
  using arg_cong [OF joined, of lo hi length] by (simp add: length_concat comp_def)

text \<open>No element lies in two different positions of the list of pieces.\<close>

lemma apart:
  assumes "ok lo hi" "m < n" "n < length (pieces lo hi)"
    and "i \<in> set (ids (pieces lo hi ! m))"
  shows "i \<notin> set (ids (pieces lo hi ! n))"
proof -
  let ?ps = "pieces lo hi"
  have "?ps = take n ?ps @ ?ps ! n # drop (Suc n) ?ps"
    using assms(3) by (simp add: id_take_nth_drop)
  then have "distinct (concat (map ids (take n ?ps @ ?ps ! n # drop (Suc n) ?ps)))"
    using each_once [OF assms(1)] by simp
  moreover have "?ps ! m \<in> set (take n ?ps)"
    using assms(2,3) by (auto simp: in_set_conv_nth intro!: exI [of _ m])
  ultimately show ?thesis using assms(4) by auto
qed

end

lemma upto_append: "lo \<le> m + 1 \<Longrightarrow> m \<le> hi \<Longrightarrow> [lo..m] @ [m + 1..hi] = [lo..hi]"
  by (metis add.commute upto_split2 upto_empty append_Nil le_less_linear add_diff_cancel_left'
      order_antisym_conv upto_split1 zle_add1_eq_le)

end
