(* ===== verification/Dates.thy ===== *)
theory Dates
  imports Json Floats
begin

text \<open>
  Calendar dates. Days are numbered from 1970-01-01; \<open>civil\<close> and \<open>day_number\<close> convert between numbers
  and dates of the Gregorian calendar. \<open>strptime\<close> and \<open>strftime\<close> with the format \<open>%Y-%m-%d\<close> are
  \<open>parse_date\<close> and \<open>date_text\<close>. \<open>random_date\<close> is the function of \<open>loader.py\<close>; the time zone of the process is
  its argument.
\<close>

subsection \<open>The calendar\<close>

definition civil :: "int \<Rightarrow> int \<times> int \<times> int" where
  "civil day =
     (let z = day + 719468; era = z div 146097; doe = z mod 146097;
          yoe = (doe - doe div 1460 + doe div 36524 - doe div 146096) div 365;
          doy = doe - (365 * yoe + yoe div 4 - yoe div 100);
          mp = (5 * doy + 2) div 153; d = doy - (153 * mp + 2) div 5 + 1;
          m = (if mp < 10 then mp + 3 else mp - 9)
      in (yoe + era * 400 + (if m \<le> 2 then 1 else 0), m, d))"

definition day_number :: "int \<Rightarrow> int \<Rightarrow> int \<Rightarrow> int" where
  "day_number y m d =
     (let y' = (if m \<le> 2 then y - 1 else y); era = y' div 400; yoe = y' mod 400;
          doy = (153 * ((m + 9) mod 12) + 2) div 5 + d - 1
      in era * 146097 + 365 * yoe + yoe div 4 - yoe div 100 + doy - 719468)"

definition leap :: "int \<Rightarrow> bool" where
  "leap y \<longleftrightarrow> y mod 4 = 0 \<and> (y mod 100 \<noteq> 0 \<or> y mod 400 = 0)"

definition days_in_month :: "int \<Rightarrow> int \<Rightarrow> int" where
  "days_in_month y m =
     (if m = 2 then if leap y then 29 else 28 else if m \<in> {4, 6, 9, 11} then 30 else 31)"

definition calendar_date :: "int \<Rightarrow> int \<Rightarrow> int \<Rightarrow> bool" where
  "calendar_date y m d \<longleftrightarrow> 1 \<le> m \<and> m \<le> 12 \<and> 1 \<le> d \<and> d \<le> days_in_month y m"

text \<open>Years begin in March: the leap day is the last day of such a year.\<close>

definition year_start :: "int \<Rightarrow> int" where
  "year_start yoe = 365 * yoe + yoe div 4 - yoe div 100"

definition year_length :: "int \<Rightarrow> int" where
  "year_length yoe = (if leap (yoe + 1) then 366 else 365)"

definition yearly :: "int \<Rightarrow> int" where
  "yearly doe = doe - doe div 1460 + doe div 36524 - doe div 146096"

lemma years_checked:
  "list_all (\<lambda>y. 0 \<le> year_start y \<and> year_start y + year_length y \<le> 146097 \<and> 365 * y \<le> yearly (year_start y) \<and>
      yearly (year_start y + year_length y - 1) < 365 * (y + 1)) (map int [0..<400])"
  by code_simp

lemma div_next: "0 < k \<Longrightarrow> (n + 1) div k = n div k + (if k dvd n + 1 then 1 else 0)" for n k :: int
proof -
  assume k: "0 < k"
  have n: "n = n div k * k + n mod k" by simp
  have r: "0 \<le> n mod k" "n mod k < k" using k by simp_all
  show ?thesis
  proof (cases "n mod k + 1 = k")
    case True
    then have e: "n + 1 = (n div k + 1) * k" unfolding distrib_right using n by linarith
    then have "k dvd n + 1" by (metis dvd_triv_right)
    with e k show ?thesis by simp
  next
    case False
    have e: "(n + 1) mod k = n mod k + 1" "(n + 1) div k = n div k"
      by (rule int_mod_pos_eq [of _ _ "n div k"] int_div_pos_eq [of _ _ _ "n mod k + 1"]; use n r False in \<open>simp add: mult.commute\<close>)+
    then have "\<not> k dvd n + 1" using r by (auto simp: dvd_eq_mod_eq_0)
    with e show ?thesis by simp
  qed
qed

lemma yearly_step: "yearly n \<le> yearly (n + 1)"
proof -
  have "36524 dvd n + 1" if "146096 dvd n + 1"
    using that by (rule dvd_trans [rotated]) simp
  then show ?thesis by (auto simp: yearly_def div_next)
qed

lemma yearly_mono: "n \<le> k \<Longrightarrow> yearly n \<le> yearly k"
proof (induction k rule: int_ge_induct)
  case (step k)
  then show ?case using yearly_step [of k] by linarith
qed simp

lemma years:
  assumes "0 \<le> y" "y < 400"
  shows "0 \<le> year_start y" "year_start y + year_length y \<le> 146097" "365 * y \<le> yearly (year_start y)"
    "yearly (year_start y + year_length y - 1) < 365 * (y + 1)"
proof -
  from assms have "y \<in> set (map int [0..<400])" by (auto simp: image_iff intro!: bexI [of _ "nat y"])
  then show "0 \<le> year_start y" "year_start y + year_length y \<le> 146097" "365 * y \<le> yearly (year_start y)"
    "yearly (year_start y + year_length y - 1) < 365 * (y + 1)"
    using years_checked by (auto simp only: list_all_iff)
qed

lemma year_of_day:
  assumes "0 \<le> y" "y < 400" "0 \<le> doy" "doy < year_length y"
  shows "yearly (year_start y + doy) div 365 = y"
proof -
  have "yearly (year_start y) \<le> yearly (year_start y + doy)"
    "yearly (year_start y + doy) \<le> yearly (year_start y + year_length y - 1)"
    using assms by (auto intro!: yearly_mono)
  with years [OF assms(1,2)] have "365 * y \<le> yearly (year_start y + doy)" "yearly (year_start y + doy) < 365 * (y + 1)"
    by linarith+
  then have "0 \<le> yearly (year_start y + doy) - 365 * y" "yearly (year_start y + doy) - 365 * y < 365" by simp_all
  then show ?thesis by (intro int_div_pos_eq [of _ _ _ "yearly (year_start y + doy) - 365 * y"]) simp_all
qed

text \<open>The months, counted from March, with the days that precede them.\<close>

lemma months_checked:
  "list_all (\<lambda>m. list_all (\<lambda>d.
      let mp = (m + 9) mod 12; doy = (153 * mp + 2) div 5 + d - 1
      in d \<le> (if m = 2 then 29 else if m \<in> {4, 6, 9, 11} then 30 else 31) \<longrightarrow>
         0 \<le> doy \<and> doy < (if m = 2 \<and> d = 29 then 366 else 365) \<and> (5 * doy + 2) div 153 = mp \<and>
         doy - (153 * mp + 2) div 5 + 1 = d \<and> (if mp < 10 then mp + 3 else mp - 9) = m)
    [1..31]) [1..12]"
  by code_simp

lemma leap_era: "leap (y mod 400 + 1) = leap (y + 1)"
proof -
  have "(y mod 400 + 1) mod c = (y + 1) mod c" if "c dvd 400" for c :: int
    using that by (metis mod_add_left_eq mod_mod_cancel)
  then show ?thesis by (simp add: leap_def)
qed

lemma civil_day_number:
  assumes "calendar_date y m d"
  shows "civil (day_number y m d) = (y, m, d)"
proof -
  define y' where "y' = (if m \<le> 2 then y - 1 else y)"
  define mp where "mp = (m + 9) mod 12"
  define doy where "doy = (153 * mp + 2) div 5 + d - 1"
  have "d \<le> days_in_month y m" "1 \<le> m" "m \<le> 12" "1 \<le> d" using assms by (simp_all add: calendar_date_def)
  then have range: "m \<in> set [1..12]" "d \<in> set [1..31]"
      "d \<le> (if m = 2 then 29 else if m \<in> {4, 6, 9, 11} then 30 else 31)" and leap: "m = 2 \<Longrightarrow> d = 29 \<Longrightarrow> leap y"
    by (auto simp: days_in_month_def split: if_splits)
  then have month: "0 \<le> doy" "doy < (if m = 2 \<and> d = 29 then 366 else 365)" "(5 * doy + 2) div 153 = mp"
      "doy - (153 * mp + 2) div 5 + 1 = d" "(if mp < 10 then mp + 3 else mp - 9) = m"
    using months_checked unfolding list_all_iff Let_def mp_def doy_def by blast+
  have "doy < year_length (y' mod 400)"
    using month(2) leap by (auto simp: year_length_def leap_era y'_def split: if_splits)
  note y = year_of_day [OF _ _ month(1) this] years [of "y' mod 400"]
  define doe where "doe = year_start (y' mod 400) + doy"
  have "0 \<le> doe" "doe < 146097" using y \<open>doy < year_length (y' mod 400)\<close> month(1) unfolding doe_def by simp_all
  then have era: "(y' div 400 * 146097 + doe) div 146097 = y' div 400" "(y' div 400 * 146097 + doe) mod 146097 = doe"
    by simp_all
  have n: "day_number y m d + 719468 = y' div 400 * 146097 + doe"
    by (simp add: day_number_def y'_def doe_def doy_def mp_def year_start_def Let_def)
  have yoe: "yearly doe div 365 = y' mod 400" using y by (simp add: doe_def)
  have doy: "doe - (365 * (y' mod 400) + y' mod 400 div 4 - y' mod 400 div 100) = doy"
    by (simp add: doe_def year_start_def)
  show ?thesis
    unfolding civil_def Let_def n era yoe [unfolded yearly_def] doy month by (simp add: y'_def)
qed

subsection \<open>Dates as text\<close>

definition padded :: "nat \<Rightarrow> int \<Rightarrow> string" where
  "padded width n = replicate (width - length (dec_int n)) CHR ''0'' @ dec_int n"

text \<open>\<open>strftime\<close> and \<open>strptime\<close> with \<open>%Y-%m-%d\<close>: the C library writes a year without padding, and a
  month or day of one digit is read, too.\<close>

definition date_text :: "int \<Rightarrow> string" where
  "date_text day =
     (case civil day of (y, m, d) \<Rightarrow> dec_int y @ ''-'' @ padded 2 m @ ''-'' @ padded 2 d)"

definition plain_number :: "string \<Rightarrow> int option" where
  "plain_number s = (if list_all (\<lambda>c. digit c \<noteq> None) s then map_option int (py_nat s) else None)"

definition number_between :: "nat set \<Rightarrow> string \<Rightarrow> int option" where
  "number_between lengths s = (if length s \<in> lengths then plain_number s else None)"

definition unspaced :: "string \<Rightarrow> string" where
  "unspaced s = (case s of [c, c'] \<Rightarrow> if c = CHR '' '' then [c'] else s | _ \<Rightarrow> s)"

definition parse_date :: "string \<Rightarrow> int py" where
  "parse_date s =
     (case split_on CHR ''-'' s of
        [ys, ms, ds] \<Rightarrow>
          (case (number_between {4} ys, number_between {1, 2} ms,
                 number_between {1, 2} (unspaced ds)) of
             (Some y, Some m, Some d) \<Rightarrow>
               if 1 \<le> y \<and> calendar_date y m d then Inr (day_number y m d) else Inl ValueError
           | _ \<Rightarrow> Inl ValueError)
      | _ \<Rightarrow> Inl ValueError)"

lemma dates_read:
  "parse_date ''2019-2- 3'' = Inr 17930" "parse_date ''2019-02-29'' = Inl ValueError"
  "parse_date ''2020-02-29'' = Inr 18321" "parse_date ''2019-00-01'' = Inl ValueError"
  "parse_date ''2019-03-1 '' = Inl ValueError" "parse_date ''19-03-01'' = Inl ValueError"
  "date_text 17987 = ''2019-04-01''"
  by code_simp+

text \<open>A date of the years 1000 to 9999 is read back.\<close>

lemma length_dec: "n < 10 ^ Suc w \<Longrightarrow> length (dec n) \<le> Suc w"
proof (induction w arbitrary: n)
  case (Suc w)
  then have "length (dec (n div 10)) \<le> Suc w" by simp
  then show ?case by (subst dec.simps) simp
qed (subst dec.simps, simp)

lemma length_dec_least: "10 ^ w \<le> n \<Longrightarrow> w < length (dec n)"
proof (induction w arbitrary: n)
  case (Suc w)
  then have "10 ^ w \<le> n div 10" by (simp add: less_eq_div_iff_mult_less_eq mult.commute)
  with Suc have "w < length (dec (n div 10))" by blast
  moreover have "\<not> n < 10" using Suc.prems le_trans [of 10 "10 ^ Suc w" n] by simp
  ultimately show ?case by (subst dec.simps) simp
qed simp

lemma length_padded: "0 \<le> n \<Longrightarrow> n < 10 ^ Suc w \<Longrightarrow> length (padded (Suc w) n) = Suc w"
  using length_dec [of "nat n" w] by (simp add: padded_def dec_int_def nat_less_iff)

lemma digits_padded: "digits 0 (replicate k CHR ''0'' @ s) = digits 0 s"
  by (induction k) (simp_all add: digit_def)

lemma padded_digits: "0 \<le> n \<Longrightarrow> \<forall>c \<in> set (padded w n). digit c \<noteq> None"
  using dec_digits [of "nat n"] by (auto simp: padded_def dec_int_def digit_def)

lemma plain_number_padded: "0 \<le> n \<Longrightarrow> plain_number (padded w n) = Some n"
proof -
  assume n: "0 \<le> n"
  let ?s = "padded w n"
  note digits = padded_digits [OF n, of w]
  obtain c s where cs: "?s = c # s" using n by (cases ?s) (auto simp: padded_def dec_int_def)
  with digits obtain d where "digit c = Some d" by auto
  then have "py_nat ?s = digits 0 ?s" by (simp add: cs py_nat_def)
  also have "\<dots> = Some (nat n)" using n by (simp add: padded_def digits_padded dec_int_def digits_0_dec)
  finally show ?thesis using n digits by (simp add: plain_number_def list_all_iff)
qed

lemma padded_no: "digit c = None \<Longrightarrow> 0 \<le> n \<Longrightarrow> c \<notin> set (padded w n)"
  using padded_digits [of n w] by auto

lemma parse_date_text:
  assumes "calendar_date y m d" "1000 \<le> y" "y \<le> 9999"
  shows "parse_date (date_text (day_number y m d)) = Inr (day_number y m d)"
proof -
  have "1 \<le> m" "m \<le> 12" "1 \<le> d" "d \<le> 31" using assms(1)
    by (auto simp: calendar_date_def days_in_month_def split: if_splits)
  note md = this
  have two: "number_between {1, 2} (padded 2 n) = Some n" if "1 \<le> n" "n \<le> 31" for n
    using that length_padded [of n 1] by (simp add: number_between_def plain_number_padded numeral_2_eq_2)
  have year: "dec_int y = padded 4 y"
    using assms length_dec_least [of 3 "nat y"] by (simp add: padded_def dec_int_def le_nat_iff)
  have four: "number_between {4} (padded 4 y) = Some y"
    using assms length_padded [of y 3] by (simp add: number_between_def plain_number_padded eval_nat_numeral)
  have "date_text (day_number y m d) = padded 4 y @ CHR ''-'' # padded 2 m @ CHR ''-'' # padded 2 d"
    by (simp add: date_text_def civil_day_number [OF assms(1)] year)
  then have "split_on CHR ''-'' (date_text (day_number y m d)) = [padded 4 y, padded 2 m, padded 2 d]"
    using md assms(2) by (simp add: split_on_append split_on_single padded_no digit_def)
  moreover have "unspaced (padded 2 d) = padded 2 d"
    using padded_no [of "CHR '' ''" d 2] md by (auto simp: unspaced_def digit_def split: list.split)
  ultimately show ?thesis using md assms by (simp add: parse_date_def two [simplified] four)
qed

subsection \<open>\<open>random_date\<close>\<close>

text \<open>
  The time zone of a process: \<open>mktime\<close> of the midnight that begins a day, and the day of
  \<open>localtime\<close> at a time. The difference of two whole numbers of seconds is exact as a double.
\<close>

record time_zone =
  midnight :: "int \<Rightarrow> int"
  day_at :: "int \<Rightarrow> int"

definition str_time_prop :: "time_zone \<Rightarrow> string \<Rightarrow> string \<Rightarrow> rat \<Rightarrow> string py" where
  "str_time_prop zone start stop prop =
     (case parse_date start of
        Inl e \<Rightarrow> Inl e
      | Inr s \<Rightarrow>
          (case parse_date stop of
             Inl e \<Rightarrow> Inl e
           | Inr e \<Rightarrow>
               let stime = midnight zone s; etime = midnight zone e;
                   ptime = to_double (of_int stime + to_double (prop * of_int (etime - stime)))
               in Inr (date_text (day_at zone \<lfloor>ptime\<rfloor>))))"

text \<open>
  What the tools rely on of a time zone: days follow each other in time, midnight belongs to the day it
  begins, and local time is less than a day away from UTC.
\<close>

locale local_time =
  fixes zone :: time_zone
  assumes in_order: "t \<le> u \<Longrightarrow> day_at zone t \<le> day_at zone u"
    and own_day: "day_at zone (midnight zone n) = n"
    and near_utc: "\<bar>midnight zone n - 86400 * n\<bar> < 86400"
begin

lemma midnight_mono: "m \<le> n \<Longrightarrow> midnight zone m \<le> midnight zone n"
  using in_order [of "midnight zone n" "midnight zone m"] by (cases "midnight zone n \<le> midnight zone m") (auto simp: own_day)

lemma drawn_between:
  assumes parsed: "parse_date start = Inr s" "parse_date stop = Inr e" and after: "s \<le> e"
    and bounds: "0 < midnight zone s" "midnight zone e < 2 ^ 52" and part: "0 \<le> prop" "prop \<le> 1"
  shows "\<exists>n. s \<le> n \<and> n \<le> e \<and> str_time_prop zone start stop prop = Inr (date_text n)"
proof -
  define S E where "S = midnight zone s" and "E = midnight zone e"
  have SE: "0 < S" "S \<le> E" "E < 2 ^ 52" using bounds midnight_mono [OF after] by (simp_all add: S_def E_def)
  define x y where "x = prop * of_int (E - S)" and "y = of_int S + to_double x"
  have "0 \<le> x" "x \<le> of_int (E - S)"
    using part SE by (simp_all add: x_def mult_left_le_one_le)
  moreover have "(of_int (E - S) :: rat) \<le> of_int (2 ^ 52)" using SE by (simp only: of_int_le_iff)
  ultimately have "0 \<le> to_double x" "to_double x \<le> of_int (E - S)"
    using to_double_nonneg [of x] to_double_within [of x "E - S"] by simp_all
  then have "of_int S \<le> y" "y \<le> of_int E" by (simp_all add: y_def)
  moreover have "(0 :: rat) < of_int S" "(of_int E :: rat) < of_int (2 ^ 52)" using SE by (simp_all only: of_int_less_iff of_int_0_less_iff)
  ultimately have "of_int S \<le> to_double y" "to_double y \<le> of_int E"
    by (auto intro!: to_double_ge to_double_le)
  then have "S \<le> \<lfloor>to_double y\<rfloor>" "\<lfloor>to_double y\<rfloor> \<le> E" by (simp_all add: le_floor_iff floor_le_iff) 
  then have "s \<le> day_at zone \<lfloor>to_double y\<rfloor>" "day_at zone \<lfloor>to_double y\<rfloor> \<le> e"
    using in_order own_day unfolding S_def E_def by metis+
  then show ?thesis using parsed by (auto simp: str_time_prop_def S_def E_def x_def y_def Let_def)
qed

end

text \<open>UTC, the zone of the application's pod, and one that changes to summer time on 2019-03-31.\<close>

definition utc :: time_zone where
  "utc = \<lparr>midnight = (\<lambda>n. 86400 * n), day_at = (\<lambda>t. t div 86400)\<rparr>"

definition central_europe_2019 :: time_zone where
  "central_europe_2019 =
     \<lparr>midnight = (\<lambda>n. 86400 * n - (if n \<le> 17986 then 3600 else 7200)),
      day_at = (\<lambda>t. (t + (if t < 1553994000 then 3600 else 7200)) div 86400)\<rparr>"

interpretation utc: local_time utc
  by unfold_locales (simp_all add: utc_def zdiv_mono1)

interpretation summer: local_time central_europe_2019
  by unfold_locales (auto simp: central_europe_2019_def zdiv_mono1)

lemma dates_drawn:
  "str_time_prop utc ''2019-01-01'' ''2019-04-01'' (1 / 2) = Inr ''2019-02-15''"
  "str_time_prop central_europe_2019 ''2019-01-01'' ''2019-04-01'' (1 / 2) = Inr ''2019-02-14''"
  "str_time_prop utc ''2019-01-01'' ''2019-04-01'' (35184372088831 / 35184372088832) = Inr ''2019-03-31''"
  "str_time_prop utc ''2019-01-01'' ''2019-04-01'' (70368744177663 / 70368744177664) = Inr ''2019-04-01''"
  by code_simp+

end
