(* ===== verification/Loader.thy ===== *)
theory Loader
  imports Connection Ranges Dates
begin

text \<open>
  \<open>sample_app/loader.py\<close>: the parallel loader. Rows are keyed by \<open>(id % buckets, id)\<close>; the identifiers
  \<open>1..row_count\<close> are split among worker processes, each worker's share into batches. The worker
  processes are run one after the other here (their keys do not overlap, so the order of their writes
  does not matter), and the random draws behind a row are a parameter.
\<close>

subsection \<open>Arguments and schema\<close>

record loader_args =
  connection_of_args :: connection_args
  loader_keyspace :: string
  arg_rf :: int
  loader_table :: string
  arg_drop_first :: bool
  arg_row_count :: int
  arg_batch_size :: int
  loader_cl :: string
  arg_workers :: int
  arg_offset :: int
  arg_buckets :: int
  arg_tablets :: bool

definition loader_defaults :: "(string \<Rightarrow> string option) \<Rightarrow> loader_args" where
  "loader_defaults environ =
     \<lparr>connection_of_args = add_connection_args environ, loader_keyspace = ''myKeyspace'', arg_rf = 3,
      loader_table = ''myTable'', arg_drop_first = False, arg_row_count = 100000, arg_batch_size = 2000,
      loader_cl = ''LOCAL_QUORUM'', arg_workers = 0, arg_offset = 0, arg_buckets = 256, arg_tablets = True\<rparr>"

definition loader_cli :: "loader_args cli" where
  "loader_cli =
     \<lparr>cli_options =
        help_option # part_options connection_of_args_update connection_options @
        [([''-k'', ''--keyspace''], text_value loader_keyspace_update),
         ([''--rf''], int_value arg_rf_update),
         ([''-t'', ''--table''], text_value loader_table_update),
         ([''-d'', ''--drop''], switch arg_drop_first_update),
         ([''-r'', ''--row_count''], int_value arg_row_count_update),
         ([''-b'', ''--batch_size''], int_value arg_batch_size_update),
         ([''--cl''], text_value loader_cl_update),
         ([''-w'', ''--workers''], int_value arg_workers_update),
         ([''-o'', ''--offset''], int_value arg_offset_update),
         ([''--buckets''], int_value arg_buckets_update),
         ([''--tablets''], switch arg_tablets_update),
         ([''--no-tablets''], Flag (arg_tablets_update (\<lambda>_. False)))],
      positional = No_positional, complete = (\<lambda>_. True)\<rparr>"

definition parse_args :: "(string \<Rightarrow> string option) \<Rightarrow> string list \<Rightarrow> exn + loader_args" where
  "parse_args environ argv = parse_command_line loader_cli (loader_defaults environ) argv"

definition COMPRESSION :: "string \<times> string" where
  "COMPRESSION = (''sstable_compression'', ''ZstdWithDictsCompressor'')"

definition loader_columns :: "(string \<times> string) list" where
  "loader_columns =
     [(''bucket'', ''int''), (''id'', ''int''), (''ssn'', ''text''), (''imei'', ''text''),
      (''os'', ''text''), (''phonenum'', ''text''), (''balance'', ''float''), (''pdate'', ''date''),
      (''message'', ''text'')]"

definition create_schema :: "'w server \<Rightarrow> string \<Rightarrow> string \<Rightarrow> string \<Rightarrow> string \<times> string \<Rightarrow> int \<Rightarrow> ('w, unit) script" where
  "create_schema E keyspace table tablets compression rf =
     seq (tell E (Execute (Create_keyspace keyspace
            \<lparr>strategy = ''NetworkTopologyStrategy'', replication_factor = rf,
             tablets_enabled = Some tablets\<rparr>) []))
         (tell E (Execute (Create_table (table_in keyspace table)
            \<lparr>columns = loader_columns, partition_key = [''bucket''], clustering_key = [(''id'', True)],
             with_options = [compression]\<rparr>) []))"

subsection \<open>Rows\<close>

text \<open>
  What the generators yield for one row: the random numbers, the index into the list of operating
  systems, the rounded balance, \<open>random.random()\<close> for the date with the time zone of the process, and
  the sentences \<open>fake.sentence()\<close> gives, in order.
\<close>

record draws =
  ssn_parts :: "int \<times> int \<times> int"
  imei :: int
  os_index :: nat
  phone_parts :: "int \<times> int \<times> int"
  balance :: rat
  zone_of :: time_zone
  date_prop :: rat
  sentences :: "string list"

text \<open>\<open>random_date("2019-01-01", "2019-04-01", random.random())\<close>; both dates can be parsed (\<open>random_pdate\<close>).\<close>

definition random_date :: "time_zone \<Rightarrow> string \<Rightarrow> string \<Rightarrow> rat \<Rightarrow> string py" where
  "random_date zone start stop prop = str_time_prop zone start stop prop"

definition pdate :: "draws \<Rightarrow> string" where
  "pdate d =
     (case random_date (zone_of d) ''2019-01-01'' ''2019-04-01'' (date_prop d) of Inl e \<Rightarrow> [] | Inr s \<Rightarrow> s)"

definition OS_NAMES :: "string list" where
  "OS_NAMES = [''Android'', ''iOS'', ''Windows'', ''Samsung'', ''Nokia'']"

definition bucket_of :: "int \<Rightarrow> int \<Rightarrow> int" where
  "bucket_of row_id num_buckets =
     (let bucket = row_id mod num_buckets in if bucket < 0 then bucket + num_buckets else bucket)"

definition dashed :: "int \<times> int \<times> int \<Rightarrow> string" where
  "dashed p = (case p of (a, b, c) \<Rightarrow> join ''-'' [dec_int a, dec_int b, dec_int c])"

text \<open>
  \<open>while sum(len(s) for s in sentences) < need: sentences.append(fake.sentence())\<close>, for a list of
  sentences to come; \<open>None\<close> when that list was too short for the loop to end.
\<close>

fun gather :: "nat \<Rightarrow> string list \<Rightarrow> string list option" where
  "gather 0 ss = Some []"
| "gather need [] = None"
| "gather need (s # ss) = map_option ((#) s) (gather (need - length s) ss)"

definition base_string :: "draws \<Rightarrow> string" where
  "base_string d =
     ''IMEI:'' @ dec_int (imei d) @ ''|OS:'' @ OS_NAMES ! os_index d @ ''|Phone:'' @ dashed (phone_parts d)"

definition message :: "draws \<Rightarrow> string option" where
  "message d =
     (let base = base_string d
      in if length base < 200
         then map_option (\<lambda>ss. base @ take (200 - length base) (join '' '' ss))
                (gather (200 - length base) (sentences d))
         else Some (take 200 base))"

definition generate_row :: "draws \<Rightarrow> int \<Rightarrow> int \<Rightarrow> cell list option" where
  "generate_row d row_id num_buckets =
     map_option (\<lambda>msg.
         [Number (bucket_of row_id num_buckets), Number row_id, Text (dashed (ssn_parts d)),
          Text (dec_int (imei d)), Text (OS_NAMES ! os_index d), Text (dashed (phone_parts d)),
          Real (balance d), Text (pdate d), Text msg])
       (message d)"

subsection \<open>Batches and workers\<close>

text \<open>\<open>chunked_ids\<close>; \<open>None\<close> when the generator never ends.\<close>

partial_function (option) chunked_ids :: "int \<Rightarrow> int \<Rightarrow> int \<Rightarrow> piece list option" where
  "chunked_ids i end_id batch_size =
     (if i \<le> end_id
      then (let j = min (i + batch_size - 1) end_id
            in Option.bind (chunked_ids (j + 1) end_id batch_size) (\<lambda>ps. Some ((i, j) # ps)))
      else Some [])"

declare chunked_ids.simps [code]

text \<open>
  The machine a tool runs on: its files, its number of processors, and the names that
  \<open>ConsistencyLevel\<close> of the driver has as attributes.
\<close>

record machine =
  files_of :: files
  cpu_count :: int
  has_level :: "string \<Rightarrow> bool"

record target =
  to_hosts :: "string list"
  to_port :: string
  to_user :: string
  to_password :: string
  to_dc :: string
  to_local :: bool
  to_rack :: "string option"

definition open_session :: "'w server \<Rightarrow> machine \<Rightarrow> target \<Rightarrow> ('w, placement option) script" where
  "open_session E m c =
     build_cluster_and_session E (files_of m) (to_hosts c) (to_port c) (to_user c) (to_password c)
       (to_dc c) (to_local c) (to_rack c)"

text \<open>\<open>getattr(ConsistencyLevel, name)\<close>\<close>

definition level :: "machine \<Rightarrow> string \<Rightarrow> string py" where
  "level m name = (if has_level m name then Inr name else Inl AttributeError)"

text \<open>The \<open>finally\<close> block of every session of the loader.\<close>

definition shut_down :: "'w server \<Rightarrow> ('w, unit) script" where
  "shut_down E = seq (quietly (tell E Session_shutdown)) (quietly (tell E Cluster_shutdown))"

definition insert_row :: "string \<Rightarrow> string \<Rightarrow> statement" where
  "insert_row keyspace table = Insert (table_in keyspace table) (map fst loader_columns) []"

definition generate_rows :: "(int \<Rightarrow> draws) \<Rightarrow> int \<Rightarrow> int \<Rightarrow> int list \<Rightarrow> cell list list option" where
  "generate_rows fake offset num_buckets ns =
     those (map (\<lambda>i. generate_row (fake i) (i + offset) num_buckets) ns)"

definition failures :: "bool list \<Rightarrow> int" where
  "failures results = int (length (filter Not results))"

definition insert_batch ::
    "'w server \<Rightarrow> statement \<Rightarrow> (int \<Rightarrow> draws) \<Rightarrow> int \<Rightarrow> int \<Rightarrow> int \<times> int \<Rightarrow> piece \<Rightarrow> ('w, int \<times> int) script" where
  "insert_batch E cql fake offset num_buckets sofar p =
     (case generate_rows fake offset num_buckets [fst p..snd p] of
        None \<Rightarrow> halt Out_of_fuel
      | Some batch \<Rightarrow>
          bind (ask E (Execute_concurrent cql batch)) (\<lambda>a.
          ret (fst sofar + int (length batch),
               snd sofar + failures (outcomes_of a))))"

text \<open>The \<open>try\<close> block of a worker, and the worker.\<close>

definition worker_body ::
    "'w server \<Rightarrow> machine \<Rightarrow> string \<Rightarrow> string \<Rightarrow> string \<Rightarrow> (int \<Rightarrow> draws) \<Rightarrow> int \<Rightarrow> int \<Rightarrow> int
       \<Rightarrow> int \<times> int \<times> int \<Rightarrow> ('w, int \<times> int \<times> int) script" where
  "worker_body E m keyspace table consistency_level fake batch_size off num_buckets job =
     (case job of (worker_index, start_id, end_id) \<Rightarrow>
        seq (tell E (Prepare (insert_row keyspace table)))
       (bind (lift (level m consistency_level)) (\<lambda>cl.
        case chunked_ids start_id end_id batch_size of
          None \<Rightarrow> halt Out_of_fuel
        | Some ps \<Rightarrow>
            bind (fold_m (insert_batch E (insert_row keyspace table) fake off num_buckets) (0, 0) ps)
              (\<lambda>sofar. ret (worker_index, fst sofar, snd sofar)))))"

definition worker_insert_range ::
    "'w server \<Rightarrow> machine \<Rightarrow> target \<Rightarrow> string \<Rightarrow> string \<Rightarrow> string \<Rightarrow> (int \<Rightarrow> draws) \<Rightarrow> int \<Rightarrow> int \<Rightarrow> int
       \<Rightarrow> int \<times> int \<times> int \<Rightarrow> ('w, int \<times> int \<times> int) script" where
  "worker_insert_range E m c keyspace table consistency_level fake batch_size off num_buckets job =
     seq (open_session E m c)
       (finally_do
         (worker_body E m keyspace table consistency_level fake batch_size off num_buckets job)
         (shut_down E))"

subsection \<open>The parent process\<close>

definition process_count :: "machine \<Rightarrow> int \<Rightarrow> int" where
  "process_count m workers = max 1 (if workers > 0 then workers else cpu_count m)"

text \<open>\<open>ceil(row_count / procs)\<close>, a division of doubles.\<close>

definition span :: "int \<Rightarrow> int \<Rightarrow> int" where
  "span row_count procs = \<lceil>true_div row_count procs\<rceil>"

definition worker_range :: "int \<Rightarrow> int \<Rightarrow> int \<Rightarrow> piece" where
  "worker_range row_count sp w = (w * sp + 1, min ((w + 1) * sp) row_count)"

definition jobs :: "int \<Rightarrow> int \<Rightarrow> (int \<times> int \<times> int) list" where
  "jobs row_count procs =
     map (\<lambda>w. (w, worker_range row_count (span row_count procs) w))
       (filter (\<lambda>w. case worker_range row_count (span row_count procs) w of (s, e) \<Rightarrow> \<not> s > e) [0..procs - 1])"

text \<open>
  A worker of the pool: its exception, when it has one, is kept until \<open>get\<close> is called on the job.
\<close>

definition attempt :: "('w, 'a) script \<Rightarrow> ('w, exn + 'a) script" where
  "attempt m = catch (\<lambda>_. True) (bind m (\<lambda>x. ret (Inr x))) (\<lambda>e. ret (Inl e))"

fun totals :: "int \<times> int \<Rightarrow> (exn + int \<times> int \<times> int) list \<Rightarrow> exn + int \<times> int" where
  "totals sofar [] = Inr sofar"
| "totals sofar (Inl e # rs) = Inl e"
| "totals sofar (Inr (w, cnt, failed) # rs) = totals (fst sofar + cnt, snd sofar + failed) rs"

text \<open>
  The pool's processes work on disjoint identifiers; here they run one after the other, which is one of
  their schedules (the others: \<open>concurrent_pool\<close> in \<open>Serial\<close>).
\<close>

definition insert_data_parallel ::
    "'w server \<Rightarrow> machine \<Rightarrow> target \<Rightarrow> loader_args \<Rightarrow> (int \<Rightarrow> draws) \<Rightarrow> ('w, int \<times> int) script" where
  "insert_data_parallel E m c opts fake =
     seq (open_session E m c)
    (seq (finally_do
            (create_schema E (loader_keyspace opts) (loader_table opts)
               (if arg_tablets opts then ''true'' else ''false'') COMPRESSION (arg_rf opts))
            (shut_down E))
    (bind (map_m (\<lambda>job. attempt (worker_insert_range E m c (loader_keyspace opts) (loader_table opts)
                     (loader_cl opts) fake (arg_batch_size opts) (arg_offset opts) (arg_buckets opts) job))
             (jobs (arg_row_count opts) (process_count m (arg_workers opts)))) (\<lambda>results.
     case totals (0, 0) results of Inl e \<Rightarrow> raise e | Inr sofar \<Rightarrow> ret sofar)))"

definition target_of :: "connection_args \<Rightarrow> string list \<times> string \<times> string \<Rightarrow> target" where
  "target_of opts resolved =
     (case resolved of (hosts, port, username) \<Rightarrow>
        \<lparr>to_hosts = hosts, to_port = port, to_user = username, to_password = arg_password opts,
         to_dc = arg_dc opts, to_local = arg_local_only opts, to_rack = arg_rack opts\<rparr>)"

definition drop_table :: "'w server \<Rightarrow> machine \<Rightarrow> target \<Rightarrow> loader_args \<Rightarrow> ('w, unit) script" where
  "drop_table E m c opts =
     seq (open_session E m c)
       (finally_do
          (tell E (Execute (Drop_table (table_in (loader_keyspace opts) (loader_table opts))) []))
          (shut_down E))"

definition loader_main :: "'w server \<Rightarrow> machine \<Rightarrow> loader_args \<Rightarrow> (int \<Rightarrow> draws) \<Rightarrow> ('w, int \<times> int) script" where
  "loader_main E m opts fake =
     (case resolve_connection (files_of m) (connection_of_args opts) of
        Inl e \<Rightarrow> raise e
      | Inr resolved \<Rightarrow>
          (let c = target_of (connection_of_args opts) resolved
           in if arg_buckets opts < 1 then raise (SystemExit 1)
              else if arg_rf opts < 1 then raise (SystemExit 1)
              else catch ordinary
                     (seq (if arg_drop_first opts then drop_table E m c opts else ret ())
                          (insert_data_parallel E m c opts fake))
                     (\<lambda>_. raise (SystemExit 1))))"

text \<open>The process: the command line is parsed first, with the environment for the defaults.\<close>

definition loader_process ::
    "'w server \<Rightarrow> machine \<Rightarrow> (string \<Rightarrow> string option) \<Rightarrow> string list \<Rightarrow> (int \<Rightarrow> draws) \<Rightarrow> ('w, int \<times> int) script" where
  "loader_process E m environ argv fake = with_args (parse_args environ argv) (\<lambda>opts. loader_main E m opts fake)"

subsection \<open>Rows\<close>

lemma bucket_of_mod: "1 \<le> n \<Longrightarrow> bucket_of i n = i mod n \<and> 0 \<le> bucket_of i n \<and> bucket_of i n < n"
  by (simp add: bucket_of_def Let_def not_less)

lemma length_join: "sum_list (map length ws) \<le> length (join sep ws)"
  by (induction ws rule: join.induct [of _ sep]) auto

lemma gather_Some: "gather need ss = Some xs \<Longrightarrow> need \<le> sum_list (map length xs)"
  by (induction need ss arbitrary: xs rule: gather.induct) auto

lemma gather_enough: "list_all (\<lambda>s. s \<noteq> []) ss \<Longrightarrow> need \<le> length ss \<Longrightarrow> \<exists>xs. gather need ss = Some xs"
proof (induction need ss rule: gather.induct)
  case (3 n s ss)
  then have "Suc n - length s \<le> length ss" by (cases s) auto
  with 3 show ?case by auto
qed auto

text \<open>The date of a row.\<close>

lemma dates_parsed:
  "parse_date ''2019-01-01'' = Inr (day_number 2019 1 1)" "parse_date ''2019-04-01'' = Inr (day_number 2019 4 1)"
  by code_simp+

lemma random_pdate: "random_date (zone_of d) ''2019-01-01'' ''2019-04-01'' (date_prop d) = Inr (pdate d)"
  by (simp add: pdate_def random_date_def str_time_prop_def dates_parsed Let_def)

lemma drawn_pdate:
  assumes "local_time (zone_of d)" "0 \<le> date_prop d" "date_prop d < 1"
  shows "\<exists>n. day_number 2019 1 1 \<le> n \<and> n \<le> day_number 2019 4 1 \<and> pdate d = date_text n"
proof -
  have days: "day_number 2019 1 1 = 17897" "day_number 2019 4 1 = 17987" by code_simp+
  then have "0 < midnight (zone_of d) (day_number 2019 1 1)" "midnight (zone_of d) (day_number 2019 4 1) < 2 ^ 52"
    using local_time.near_utc [OF assms(1), of 17897] local_time.near_utc [OF assms(1), of 17987] by auto
  then obtain n where "day_number 2019 1 1 \<le> n" "n \<le> day_number 2019 4 1"
      "random_date (zone_of d) ''2019-01-01'' ''2019-04-01'' (date_prop d) = Inr (date_text n)"
    using local_time.drawn_between [OF assms(1) dates_parsed _ _ _ assms(2)] assms(3)
    by (auto simp: random_date_def days)
  then show ?thesis using random_pdate [of d] by auto
qed

lemma length_message: "message d = Some msg \<Longrightarrow> length msg = 200"
proof (cases "length (base_string d) < 200")
  case True
  assume "message d = Some msg"
  with True obtain ss where "gather (200 - length (base_string d)) (sentences d) = Some ss"
    and msg: "msg = base_string d @ take (200 - length (base_string d)) (join '' '' ss)"
    by (auto simp: message_def Let_def)
  then have "200 - length (base_string d) \<le> length (join '' '' ss)"
    using gather_Some length_join by (meson order_trans)
  with True show ?thesis by (simp add: msg)
next
  case False
  assume "message d = Some msg"
  with False show ?thesis by (auto simp: message_def Let_def)
qed

text \<open>Draws with which the loop of \<open>generate_row\<close> ends: 200 sentences at hand, none of them empty.\<close>

definition talkative :: "draws \<Rightarrow> bool" where
  "talkative d \<longleftrightarrow> 200 \<le> length (sentences d) \<and> list_all (\<lambda>s. s \<noteq> []) (sentences d)"

lemma message_talkative: "talkative d \<Longrightarrow> message d \<noteq> None"
  using gather_enough [of "sentences d" "200 - length (base_string d)"]
  by (auto simp: talkative_def message_def Let_def)

definition key_of :: "cell list \<Rightarrow> int \<times> int" where
  "key_of row = (case row of Number b # Number i # _ \<Rightarrow> (b, i) | _ \<Rightarrow> (0, 0))"

definition row_key :: "int \<Rightarrow> int \<Rightarrow> int \<Rightarrow> int \<times> int" where
  "row_key off num_buckets i = (bucket_of (i + off) num_buckets, i + off)"

lemma generate_rows_keys:
  "generate_rows fake off n is' = Some rows \<Longrightarrow>
     map key_of rows = map (row_key off n) is' \<and> length rows = length is'"
proof (induction is' arbitrary: rows)
  case Nil
  then show ?case by (simp add: generate_rows_def)
next
  case (Cons i is')
  then show ?case
    by (auto simp: generate_rows_def generate_row_def key_of_def row_key_def split: option.splits)
qed

lemma generate_rows_talkative:
  "(\<And>i. i \<in> set ns \<Longrightarrow> talkative (fake i)) \<Longrightarrow> generate_rows fake off n ns \<noteq> None"
proof (induction ns)
  case (Cons i ns)
  with message_talkative [of "fake i"] show ?case
    by (auto simp: generate_rows_def generate_row_def split: option.splits)
qed (simp add: generate_rows_def)

subsection \<open>Batches\<close>

lemma chunked_ids_total:
  assumes "1 \<le> b"
  shows "\<exists>ps. chunked_ids i e b = Some ps"
proof (induction "nat (e - i + 1)" arbitrary: i rule: less_induct)
  case less
  show ?case
  proof (cases "i \<le> e")
    case True
    with assms have "nat (e - (min (i + b - 1) e + 1) + 1) < nat (e - i + 1)" by linarith
    from less [OF this] True show ?thesis by (subst chunked_ids.simps) (auto simp: Let_def)
  next
    case False
    then show ?thesis by (subst chunked_ids.simps) simp
  qed
qed

lemma chunked_ids_Some:
  assumes "chunked_ids i e b = Some ps"
  shows "(i \<le> e \<longrightarrow> 1 \<le> b) \<and> concat (map ids ps) = [i..e] \<and> (\<forall>p \<in> set ps. ids p \<noteq> [] \<and> int (length (ids p)) \<le> b)"
proof (rule chunked_ids.raw_induct [OF _ assms])
  fix rec :: "int \<Rightarrow> int \<Rightarrow> int \<Rightarrow> piece list option" and i e b ps
  assume hyp: "\<And>i e b ps. rec i e b = Some ps \<Longrightarrow> (i \<le> e \<longrightarrow> 1 \<le> b) \<and> concat (map ids ps) = [i..e] \<and>
      (\<forall>p \<in> set ps. ids p \<noteq> [] \<and> int (length (ids p)) \<le> b)"
    and run: "(if i \<le> e
      then let j = min (i + b - 1) e in Option.bind (rec (j + 1) e b) (\<lambda>ps. Some ((i, j) # ps))
      else Some []) = Some ps"
  show "(i \<le> e \<longrightarrow> 1 \<le> b) \<and> concat (map ids ps) = [i..e] \<and>
      (\<forall>p \<in> set ps. ids p \<noteq> [] \<and> int (length (ids p)) \<le> b)"
  proof (cases "i \<le> e")
    case False
    with run show ?thesis by simp
  next
    case True
    let ?j = "min (i + b - 1) e"
    from run True obtain qs where qs: "rec (?j + 1) e b = Some qs" "ps = (i, ?j) # qs"
      by (auto simp: Let_def bind_eq_Some_conv)
    note IH = hyp [OF qs(1)]
    have "1 \<le> b"
    proof (rule ccontr)
      assume b: "\<not> 1 \<le> b"
      with True have "?j + 1 \<le> e" by linarith
      with IH b show False by blast
    qed
    moreover from this True have "[i..?j] @ [?j + 1..e] = [i..e]"
      by (intro upto_append) auto
    ultimately show ?thesis using IH qs(2) True by (auto simp: ids_def)
  qed
qed

lemma chunked_ids_None: "chunked_ids i e b = None \<longleftrightarrow> i \<le> e \<and> b \<le> 0"
proof
  assume none: "chunked_ids i e b = None"
  then have "\<not> 1 \<le> b" using chunked_ids_total [of b i e] by auto
  moreover from none have "i \<le> e" by (subst (asm) chunked_ids.simps) (auto split: if_splits)
  ultimately show "i \<le> e \<and> b \<le> 0" by simp
next
  assume "i \<le> e \<and> b \<le> 0"
  then show "chunked_ids i e b = None" using chunked_ids_Some [of i e b] by (cases "chunked_ids i e b") auto
qed

definition chunks :: "int \<Rightarrow> int \<Rightarrow> int \<Rightarrow> piece list" where
  "chunks b lo hi = (case chunked_ids lo hi b of Some ps \<Rightarrow> ps | None \<Rightarrow> [])"

interpretation batches: splitter "chunks b" "\<lambda>_ _. 1 \<le> b" for b
proof
  fix lo hi :: int
  assume "1 \<le> b"
  then obtain ps where "chunked_ids lo hi b = Some ps" using chunked_ids_total by blast
  then show "concat (map ids (chunks b lo hi)) = [lo..hi]"
    using chunked_ids_Some by (simp add: chunks_def)
qed

subsection \<open>Shares\<close>

lemma filter_pieces: "concat (map ids (filter (\<lambda>p. \<not> fst p > snd p) ps)) = concat (map ids ps)"
  by (induction ps) (auto simp: ids_def)

lemma worker_ranges_upto:
  assumes "0 \<le> sp" "0 \<le> rows" "0 \<le> n"
  shows "concat (map ids (map (worker_range rows sp) [0..n - 1])) = [1..min (n * sp) rows]"
  using assms(3)
proof (induction n rule: int_ge_induct)
  case base
  then show ?case using assms by simp
next
  case (step n)
  then have "[0..n + 1 - 1] = [0..n - 1] @ [n]" by (simp add: upto_rec2)
  then have "concat (map ids (map (worker_range rows sp) [0..n + 1 - 1])) =
      [1..min (n * sp) rows] @ [n * sp + 1..min ((n + 1) * sp) rows]"
    by (simp add: step.IH [simplified] ids_def [of "worker_range rows sp n"]) (simp add: worker_range_def)
  also have "\<dots> = [1..min ((n + 1) * sp) rows]"
  proof (cases "n * sp \<le> rows")
    case True
    moreover have "0 \<le> n * sp" and "n * sp \<le> (n + 1) * sp" using step.hyps assms(1) by (simp_all add: distrib_right)
    ultimately show ?thesis by (auto simp: min_def intro: upto_append)
  next
    case False
    moreover have "n * sp \<le> (n + 1) * sp" using assms(1) by (simp add: distrib_right)
    ultimately show ?thesis by (simp add: min_def)
  qed
  finally show ?case .
qed

lemma span_exact: "1 \<le> procs \<Longrightarrow> 0 \<le> rows \<Longrightarrow> rows < 2 ^ 53 \<Longrightarrow> 0 \<le> span rows procs \<and> rows \<le> procs * span rows procs"
proof -
  assume a: "1 \<le> procs" "0 \<le> rows" "rows < 2 ^ 53"
  then have s: "span rows procs = - (- rows div procs)" by (simp add: span_def ceiling_true_div)
  have "- rows div procs \<le> 0" using a by (simp add: div_nonpos_pos_le0)
  moreover have "procs * (- rows div procs) \<le> - rows"
    using a mult_div_mod_eq [of procs "- rows"] pos_mod_sign [of procs "- rows"] by linarith
  ultimately show ?thesis by (simp add: s)
qed

definition shares :: "int \<Rightarrow> int \<Rightarrow> piece list" where
  "shares rows procs = map snd (jobs rows procs)"

lemma shares_joined:
  assumes "1 \<le> procs" "0 \<le> rows" "rows < 2 ^ 53"
  shows "concat (map ids (shares rows procs)) = [1..rows]"
proof -
  let ?sp = "span rows procs"
  have "shares rows procs =
      filter (\<lambda>p. \<not> fst p > snd p) (map (worker_range rows ?sp) [0..procs - 1])"
    by (simp add: shares_def jobs_def filter_map comp_def split_def)
  then have "concat (map ids (shares rows procs)) =
      concat (map ids (map (worker_range rows ?sp) [0..procs - 1]))"
    by (simp only: filter_pieces)
  also have "\<dots> = [1..min (procs * ?sp) rows]"
    using span_exact [OF assms] assms by (intro worker_ranges_upto) auto
  finally show ?thesis using span_exact [OF assms] by simp
qed

interpretation shares: splitter "\<lambda>_ rows. shares rows procs"
    "\<lambda>lo rows. lo = 1 \<and> 0 \<le> rows \<and> rows < 2 ^ 53 \<and> 1 \<le> procs" for procs
  by unfold_locales (auto simp: shares_joined)

subsection \<open>What a run submits\<close>

text \<open>The keys of the rows a run hands to the driver, in order, and how many of them it reports as failed.\<close>

fun batch_keys :: "event \<Rightarrow> (int \<times> int) list" where
  "batch_keys (Execute_concurrent cql rows, a) = map key_of rows"
| "batch_keys (q, a) = []"

fun batch_failures :: "event \<Rightarrow> int" where
  "batch_failures (Execute_concurrent cql rows, a) = failures (outcomes_of a)"
| "batch_failures (q, a) = 0"

definition submitted :: "event list \<Rightarrow> (int \<times> int) list" where
  "submitted t = concat (map batch_keys t)"

definition failed_in :: "event list \<Rightarrow> int" where
  "failed_in t = sum_list (map batch_failures t)"

lemma submitted_append [simp]:
  "submitted (t @ t') = submitted t @ submitted t'"
  "failed_in (t @ t') = failed_in t + failed_in t'"
  by (simp_all add: submitted_def failed_in_def)

fun bookkeeping :: "request \<Rightarrow> bool" where
  "bookkeeping (Execute_concurrent cql rows) = False"
| "bookkeeping q = True"

lemma batch_bookkeeping: "bookkeeping q \<Longrightarrow> batch_keys (q, a) = [] \<and> batch_failures (q, a) = 0"
  by (cases q) auto

lemma bookkeeping_run:
  assumes "obeys (asks bookkeeping) m" and "m w = (t, w', r)"
  shows "submitted t = [] \<and> failed_in t = 0"
proof -
  have "\<forall>(q, a) \<in> set t. bookkeeping q" using asksD [OF assms] by blast
  then show ?thesis
    by (induction t) (auto simp: submitted_def failed_in_def batch_bookkeeping)
qed

lemma bookkeeping_shut_down [intro!]: "obeys (asks bookkeeping) (shut_down E)"
  unfolding shut_down_def by (intro asks.obeys_seq asks_quietly asks_tell) simp_all

lemma bookkeeping_open_session [intro!]: "obeys (asks bookkeeping) (open_session E m c)"
  unfolding open_session_def by (intro asks_build) simp_all

lemma bookkeeping_create_schema [intro!]: "obeys (asks bookkeeping) (create_schema E k t ts z f)"
  unfolding create_schema_def by (intro asks.obeys_seq asks_tell) simp_all

lemma bookkeeping_drop_table [intro!]: "obeys (asks bookkeeping) (drop_table E m c opts)"
  unfolding drop_table_def by (intro asks.obeys_seq asks_finally asks_tell) auto

lemma insert_batch_Inr:
  assumes "insert_batch E cql fake off n sofar p w = (t, w', Inr sofar')"
  shows "submitted t = map (row_key off n) (ids p)"
    and "sofar' = (fst sofar + int (length (ids p)), snd sofar + failed_in t)"
proof -
  from assms obtain batch where "generate_rows fake off n (ids p) = Some batch"
    and run: "bind (ask E (Execute_concurrent cql batch)) (\<lambda>a.
          ret (fst sofar + int (length batch), snd sofar + failures (outcomes_of a))) w
        = (t, w', Inr sofar')"
    by (auto simp: insert_batch_def ids_def split: option.splits)
  with generate_rows_keys have batch: "map key_of batch = map (row_key off n) (ids p)" "length batch = length (ids p)"
    by blast+
  from run batch show "submitted t = map (row_key off n) (ids p)"
    by (auto simp: script_runs submitted_def)
  have "failures [] = 0" by (simp add: failures_def)
  with run batch show "sofar' = (fst sofar + int (length (ids p)), snd sofar + failed_in t)"
    by (auto simp: script_runs failed_in_def split: reply.splits)
qed

lemma batches_Inr:
  assumes "fold_m (insert_batch E cql fake off n) sofar ps w = (t, w', Inr sofar')"
  shows "submitted t = map (row_key off n) (concat (map ids ps)) \<and>
    sofar' = (fst sofar + int (length (concat (map ids ps))), snd sofar + failed_in t)"
  using assms
proof (induction ps arbitrary: sofar w t)
  case Nil
  then show ?case by (cases sofar) (simp add: submitted_def failed_in_def)
next
  case (Cons p ps)
  then obtain t1 w1 mid t2 where run: "insert_batch E cql fake off n sofar p w = (t1, w1, Inr mid)"
    "fold_m (insert_batch E cql fake off n) mid ps w1 = (t2, w', Inr sofar')" and t: "t = t1 @ t2"
    by (auto elim: bind_InrE)
  from insert_batch_Inr [OF run(1)] Cons.IH [OF run(2)] show ?case by (simp add: t)
qed

lemma worker_body_Inr:
  assumes "worker_body E m k tb cl fake b off n (i, s, e) w = (t, w', Inr (i', cnt, failed))"
  shows "submitted t = map (row_key off n) [s..e] \<and> cnt = int (length [s..e]) \<and> failed = failed_in t"
proof -
  from assms obtain t1 w1 t2 ps sofar where prep: "tell E (Prepare (insert_row k tb)) w = (t1, w1, Inr ())"
    and ps: "chunked_ids s e b = Some ps"
    and loop: "fold_m (insert_batch E (insert_row k tb) fake off n) (0, 0) ps w1 = (t2, w', Inr sofar)"
    and sofar: "cnt = fst sofar" "failed = snd sofar" and t: "t = t1 @ t2"
    unfolding worker_body_def by (auto elim!: seq_InrE bind_InrE simp: lift_Inr_iff split: option.splits)
  have "submitted t1 = [] \<and> failed_in t1 = 0"
    by (rule bookkeeping_run [where m = "tell E (Prepare (insert_row k tb))", OF _ prep]) (auto intro!: asks_tell)
  moreover from chunked_ids_Some [OF ps] have "concat (map ids ps) = [s..e]" by simp
  ultimately show ?thesis using batches_Inr [OF loop] by (simp add: t sofar)
qed

text \<open>A session around a body: opening and closing submit nothing.\<close>

lemma session_InrE:
  assumes "seq (open_session E m c) (finally_do body (shut_down E)) w = (t, w', Inr x)"
  obtains t1 w1 w2 where "body w1 = (t1, w2, Inr x)" "submitted t = submitted t1" "failed_in t = failed_in t1"
proof -
  from assms obtain t1 w1 u t2 where opened: "open_session E m c w = (t1, w1, Inr u)"
    and run: "finally_do body (shut_down E) w1 = (t2, w', Inr x)" and t: "t = t1 @ t2"
    by (rule seq_InrE)
  from run obtain t3 w2 t4 v where body: "body w1 = (t3, w2, Inr x)"
    and closed: "shut_down E w2 = (t4, w', Inr v)" and t2: "t2 = t3 @ t4"
    by (rule finally_do_InrE)
  from bookkeeping_run [OF bookkeeping_open_session opened] bookkeeping_run [OF bookkeeping_shut_down closed]
  show thesis using body by (intro that) (simp_all add: t t2)
qed

lemma worker_Inr:
  assumes "worker_insert_range E m c k tb cl fake b off n (i, s, e) w = (t, w', Inr (i', cnt, failed))"
  shows "submitted t = map (row_key off n) [s..e] \<and> cnt = int (length [s..e]) \<and> failed = failed_in t"
  using session_InrE [OF assms [unfolded worker_insert_range_def]] worker_body_Inr by metis

lemma attempt_Inr: "attempt m w = (t, w', Inr (Inr x)) \<Longrightarrow> m w = (t, w', Inr x)"
  unfolding attempt_def by (erule catchE) (auto simp: bind_Inr_iff)

lemma attempt_run: "m w = (t, w', Inr x) \<Longrightarrow> attempt m w = (t, w', Inr (Inr x))"
  by (simp add: attempt_def catch_def bind_def)

lemma pool_Inr:
  assumes "map_m (\<lambda>job. attempt (worker_insert_range E m c k tb cl fake b off n job)) js w = (t, w', Inr results)"
    and "totals sofar results = Inr sofar'"
  shows "submitted t = map (row_key off n) (concat (map (ids \<circ> snd) js)) \<and>
    sofar' = (fst sofar + int (length (concat (map (ids \<circ> snd) js))), snd sofar + failed_in t)"
  using assms
proof (induction js arbitrary: sofar w t results)
  case Nil
  then show ?case by (cases sofar) (auto simp: submitted_def failed_in_def)
next
  case (Cons job js)
  obtain i s e where job: "job = (i, s, e)" by (cases job)
  from Cons.prems(1) obtain t1 w1 r t2 rs where first: "attempt (worker_insert_range E m c k tb cl fake b off n job) w = (t1, w1, Inr r)"
    and rest: "map_m (\<lambda>job. attempt (worker_insert_range E m c k tb cl fake b off n job)) js w1 = (t2, w', Inr rs)"
    and t: "t = t1 @ t2" and results: "results = r # rs"
    by (auto simp: bind_Inr_iff)
  from Cons.prems(2) results obtain i' cnt failed where r: "r = Inr (i', cnt, failed)"
    by (cases r) auto
  with first job have "worker_insert_range E m c k tb cl fake b off n (i, s, e) w = (t1, w1, Inr (i', cnt, failed))"
    by (auto dest: attempt_Inr)
  note first_part = worker_Inr [OF this]
  from Cons.prems(2) results r have "totals (fst sofar + cnt, snd sofar + failed) rs = Inr sofar'" by simp
  from Cons.IH [OF rest this] first_part show ?case by (simp add: job t ids_def)
qed

lemma insert_data_parallel_Inr:
  assumes "insert_data_parallel E m c opts fake w = (t, w', Inr sofar)"
    and rows: "0 \<le> arg_row_count opts" "arg_row_count opts < 2 ^ 53"
  shows "submitted t = map (row_key (arg_offset opts) (arg_buckets opts)) [1..arg_row_count opts] \<and>
    sofar = (arg_row_count opts, failed_in t)"
proof -
  let ?n = "process_count m (arg_workers opts)"
  let ?schema = "create_schema E (loader_keyspace opts) (loader_table opts)
               (if arg_tablets opts then ''true'' else ''false'') COMPRESSION (arg_rf opts)"
  let ?pool = "map_m (\<lambda>job. attempt (worker_insert_range E m c (loader_keyspace opts) (loader_table opts)
      (loader_cl opts) fake (arg_batch_size opts) (arg_offset opts) (arg_buckets opts) job)) (jobs (arg_row_count opts) ?n)"
  from assms(1) obtain t1 w1 u t2 w2 v t3 results where opened: "open_session E m c w = (t1, w1, Inr u)"
    and schema: "finally_do ?schema (shut_down E) w1 = (t2, w2, Inr v)"
    and pool: "?pool w2 = (t3, w', Inr results)"
    and sums: "totals (0, 0) results = Inr sofar" and t: "t = t1 @ t2 @ t3"
    unfolding insert_data_parallel_def by (auto elim!: seq_InrE bind_InrE split: sum.splits)
  have "obeys (asks bookkeeping) (finally_do ?schema (shut_down E))"
    by (intro asks_finally bookkeeping_create_schema bookkeeping_shut_down)
  from bookkeeping_run [OF this schema] bookkeeping_run [OF bookkeeping_open_session opened]
  have quiet: "submitted t1 = [] \<and> failed_in t1 = 0" "submitted t2 = [] \<and> failed_in t2 = 0" by simp_all
  have "1 \<le> ?n" by (simp add: process_count_def)
  with rows have "concat (map (ids \<circ> snd) (jobs (arg_row_count opts) ?n)) = [1..arg_row_count opts]"
    using shares_joined [of ?n "arg_row_count opts"] by (simp add: shares_def)
  with pool_Inr [OF pool sums] quiet rows show ?thesis by (simp add: t)
qed

lemma loader_main_Inr:
  assumes "loader_main E m opts fake w = (t, w', Inr sofar)"
  obtains c t1 w1 t2 where "insert_data_parallel E m c opts fake w1 = (t2, w', Inr sofar)"
    "submitted t = submitted t2" "failed_in t = failed_in t2" "1 \<le> arg_buckets opts" "1 \<le> arg_rf opts"
proof -
  from assms obtain resolved where "resolve_connection (files_of m) (connection_of_args opts) = Inr resolved"
    and ok: "1 \<le> arg_buckets opts" "1 \<le> arg_rf opts"
    and run: "catch ordinary
        (seq (if arg_drop_first opts then drop_table E m (target_of (connection_of_args opts) resolved) opts else ret ())
          (insert_data_parallel E m (target_of (connection_of_args opts) resolved) opts fake))
        (\<lambda>_. raise (SystemExit 1)) w = (t, w', Inr sofar)"
    unfolding loader_main_def by (auto simp: Let_def split: sum.splits if_splits)
  let ?c = "target_of (connection_of_args opts) resolved"
  let ?drop = "if arg_drop_first opts then drop_table E m ?c opts else ret ()"
  from run obtain t1 w1 u t2 where drop: "?drop w = (t1, w1, Inr u)"
    and ins: "insert_data_parallel E m ?c opts fake w1 = (t2, w', Inr sofar)" and t: "t = t1 @ t2"
    by (auto elim!: catchE seq_InrE)
  have "obeys (asks bookkeeping) ?drop" by (auto intro: asks.obeys_ret)
  from bookkeeping_run [OF this drop] show thesis using ins ok by (intro that) (simp_all add: t)
qed

subsection \<open>The loader ends\<close>

lemma ending_sessions: "obeys ending (open_session E m c)" "obeys ending (shut_down E)"
  unfolding open_session_def shut_down_def
  by (rule ending_build) (intro ending.obeys_seq ending_quietly ending_requests)

lemma ending_insert_batch:
  assumes "\<And>i. talkative (fake i)"
  shows "obeys ending (insert_batch E cql fake off n sofar p)"
proof -
  obtain rows where "generate_rows fake off n [fst p..snd p] = Some rows"
    using generate_rows_talkative [of "[fst p..snd p]" fake off n] assms by auto
  then show ?thesis
    by (simp add: insert_batch_def) (intro ending.obeys_bind ending_requests ending.obeys_ret)
qed

lemma ending_worker:
  assumes fake: "\<And>i. talkative (fake i)" and b: "1 \<le> b"
  shows "obeys ending (worker_insert_range E m c k tb cl fake b off n job)"
proof -
  obtain i s e where job: "job = (i, s, e)" by (cases job)
  from chunked_ids_total [OF b] obtain ps where "chunked_ids s e b = Some ps" by blast
  then have "obeys ending (worker_body E m k tb cl fake b off n job)"
    unfolding worker_body_def job
    by (auto intro!: ending.obeys_seq ending.obeys_bind ending.obeys_lift ending.obeys_fold_m
        ending_insert_batch [OF fake])
  then show ?thesis
    unfolding worker_insert_range_def
    by (intro ending.obeys_seq ending_finally ending_sessions)
qed

lemma ending_loader:
  assumes fake: "\<And>i. talkative (fake i)" and b: "1 \<le> arg_batch_size opts"
  shows "obeys ending (loader_main E m opts fake)"
proof -
  have schema: "obeys ending (create_schema E k tb ts z f)" for k tb ts z f
    unfolding create_schema_def by (intro ending.obeys_seq ending_requests)
  have "obeys ending (insert_data_parallel E m c opts fake)" for c
    unfolding insert_data_parallel_def attempt_def
    by (auto intro!: schema ending.obeys_seq ending.obeys_bind ending_finally ending_sessions ending.obeys_map_m
        ending.obeys_catch ending_worker [OF fake b] split: sum.split)
  moreover have "obeys ending (drop_table E m c opts)" for c
    unfolding drop_table_def by (intro ending.obeys_seq ending_finally ending_sessions ending_requests)
  ultimately show ?thesis
    unfolding loader_main_def
    by (auto simp: Let_def intro!: ending.obeys_catch ending.obeys_seq split: sum.split)
qed

subsection \<open>Properties\<close>

text \<open>
  C21: A run of the loader that succeeds has handed every identifier from \<open>offset + 1\<close> to
  \<open>offset + row_count\<close> to the driver exactly once, in the partition \<open>id % buckets\<close>, whatever the
  number of workers and the batch size; it reports \<open>row_count\<close> rows and the failures the driver reported.
\<close>

theorem loader_inserts_every_row:
  assumes "loader_main E m opts fake w = (t, w', Inr (cnt, failed))"
    and "0 \<le> arg_row_count opts" "arg_row_count opts < 2 ^ 53"
  shows "submitted t = map (\<lambda>i. ((i + arg_offset opts) mod arg_buckets opts, i + arg_offset opts)) [1..arg_row_count opts] \<and>
    distinct (submitted t) \<and> cnt = arg_row_count opts \<and> failed = failed_in t"
proof -
  from assms(1) obtain c w1 t2 where run: "insert_data_parallel E m c opts fake w1 = (t2, w', Inr (cnt, failed))"
    and t: "submitted t = submitted t2" "failed_in t = failed_in t2" and n: "1 \<le> arg_buckets opts"
    by (rule loader_main_Inr)
  from insert_data_parallel_Inr [OF run assms(2,3)] t bucket_of_mod [OF n] show ?thesis
    by (auto simp: row_key_def distinct_map inj_on_def)
qed

definition quiet_server :: "unit server" where
  "quiet_server w q = (case q of Execute_concurrent cql rows \<Rightarrow> Outcomes (map (\<lambda>_. True) rows) | _ \<Rightarrow> Ok, w)"

definition some_machine :: machine where
  "some_machine = \<lparr>files_of = tls_files, cpu_count = 4, has_level = (\<lambda>_. True)\<rparr>"

definition some_draws :: draws where
  "some_draws = \<lparr>ssn_parts = (1, 1, 1), imei = 1, os_index = 1, phone_parts = (1, 1, 1),
     balance = 21 / 2, zone_of = utc, date_prop = 3 / 8, sentences = [replicate 200 CHR ''a'']\<rparr>"

definition talkative_draws :: draws where
  "talkative_draws = some_draws\<lparr>sentences := replicate 200 ''A sentence.''\<rparr>"

definition some_loader_args :: loader_args where
  "some_loader_args = (loader_defaults (\<lambda>_. None))\<lparr>arg_row_count := 2, arg_workers := 1, arg_batch_size := 1\<rparr>"

lemma some_load:
  "result (loader_main quiet_server some_machine some_loader_args (\<lambda>_. some_draws)) () = Inr (2, 0)"
  by code_simp

theorem loader_inserts_every_row_witness:
  "submitted (trace_of (loader_main quiet_server some_machine some_loader_args (\<lambda>_. some_draws)) ()) =
     [(1, 1), (2, 2)]"
  using loader_inserts_every_row [OF run_Inr [OF some_load]]
  by (simp add: some_loader_args_def loader_defaults_def upto.simps)

text \<open>
  C22: \<open>chunked_ids\<close> cuts an interval into consecutive batches that are not empty and not longer than
  the batch size, and loses nothing; it fails to end exactly when there are identifiers and the batch size is
  not positive (which the loader does not check).
\<close>

theorem chunked_ids_correct:
  "case chunked_ids i e b of
     Some ps \<Rightarrow> concat (map ids ps) = [i..e] \<and> list_all (\<lambda>p. ids p \<noteq> [] \<and> int (length (ids p)) \<le> b) ps
   | None \<Rightarrow> i \<le> e \<and> b \<le> 0"
  using chunked_ids_Some [of i e b] chunked_ids_None [of i e b]
  by (cases "chunked_ids i e b") (auto simp: list_all_iff)

text \<open>
  C23: With a positive batch size, the loader always ends: it returns, or exits (every ordinary exception
  of the driver included), or is interrupted.
\<close>

theorem loader_ends:
  assumes "\<And>i. talkative (fake i)" and "1 \<le> arg_batch_size opts"
  shows "case result (loader_main E m opts fake) w of
     Inr x \<Rightarrow> True | Inl Out_of_fuel \<Rightarrow> False | Inl (Exn e) \<Rightarrow> e = KeyboardInterrupt \<or> (\<exists>n. e = SystemExit n)"
proof -
  obtain t w' r where run: "loader_main E m opts fake w = (t, w', r)" by (rule prod_cases3)
  moreover have "loader_main E m opts fake w \<noteq> (t, w', Inl Out_of_fuel)"
    by (rule endingD [OF ending_loader [OF assms]])
  ultimately have "r \<noteq> Inl Out_of_fuel" by auto
  moreover have "e = KeyboardInterrupt \<or> (\<exists>n. e = SystemExit n)" if "r = Inl (Exn e)" for e
    using run that
    by (auto simp: loader_main_def resolve_connection_def Let_def ordinary_iff
        split: sum.splits if_splits prod.splits elim!: catchE)
  ultimately show ?thesis using run by (auto simp: result_def split: sum.split stop.split)
qed

theorem loader_ends_witness:
  "case result (loader_main quiet_server some_machine some_loader_args (\<lambda>_. talkative_draws)) () of
     Inr x \<Rightarrow> True | Inl Out_of_fuel \<Rightarrow> False | Inl (Exn e) \<Rightarrow> e = KeyboardInterrupt \<or> (\<exists>n. e = SystemExit n)"
  by (rule loader_ends) (simp_all add: talkative_def talkative_draws_def some_loader_args_def loader_defaults_def list_all_iff)

text \<open>
  The shares of the workers do not overlap and together are \<open>1..row_count\<close>, also when there are more
  workers than rows; the division of doubles that fixes their size is exact in that range.
\<close>

theorem worker_shares_disjoint:
  assumes "0 \<le> rows" "rows < 2 ^ 53" "1 \<le> procs"
  shows "(\<Union>p \<in> set (shares rows procs). set (ids p)) = {1..rows} \<and>
    (\<forall>j k. j < k \<longrightarrow> k < length (shares rows procs) \<longrightarrow>
       set (ids (shares rows procs ! j)) \<inter> set (ids (shares rows procs ! k)) = {})"
  using assms shares.covered [of 1 rows procs] shares.apart [of 1 rows procs] by auto

theorem worker_shares_disjoint_witness:
  "(\<Union>p \<in> set (shares 10 4). set (ids p)) = {1..10}"
  using worker_shares_disjoint [of 10 4] by simp

text \<open>
  C25: A generated row carries its identifier, a bucket between 0 and \<open>buckets - 1\<close> that depends on the
  identifier alone, a date from 2019-01-01 to 2019-04-01, in any time zone, and a message of exactly
  200 characters. The last day can be drawn although \<open>random.random()\<close> is below 1 (\<open>dates_drawn\<close>).
\<close>

theorem generated_row:
  assumes "1 \<le> num_buckets" and "local_time (zone_of d)" and "0 \<le> date_prop d" "date_prop d < 1"
    and "generate_row d i num_buckets = Some row"
  shows "length row = length loader_columns \<and> row ! 0 = Number (i mod num_buckets) \<and> row ! 1 = Number i \<and>
    0 \<le> i mod num_buckets \<and> i mod num_buckets < num_buckets \<and>
    (\<exists>n. day_number 2019 1 1 \<le> n \<and> n \<le> day_number 2019 4 1 \<and> row ! 7 = Text (date_text n)) \<and>
    (\<exists>msg. row ! 8 = Text msg \<and> length msg = 200)"
  using assms bucket_of_mod [of num_buckets i] length_message [of d] drawn_pdate [of d]
  by (auto simp: generate_row_def loader_columns_def)

theorem generated_row_witness:
  "\<exists>row n. generate_row talkative_draws (- 1) 256 = Some row \<and> row ! 0 = Number 255 \<and>
     row ! 7 = Text (date_text n) \<and> n \<le> day_number 2019 4 1"
proof -
  obtain msg where "message talkative_draws = Some msg"
    using message_talkative [of talkative_draws] by (auto simp: talkative_def talkative_draws_def list_all_iff)
  then obtain row where "generate_row talkative_draws (- 1) 256 = Some row" by (simp add: generate_row_def)
  moreover have "local_time (zone_of talkative_draws)" "0 \<le> date_prop talkative_draws" "date_prop talkative_draws < 1"
    by (simp_all add: talkative_draws_def some_draws_def utc.local_time_axioms)
  ultimately show ?thesis using generated_row [of 256 talkative_draws "- 1" row] by auto
qed

end
