(* ===== verification/Query.thy ===== *)
theory Query
  imports Loader
begin

text \<open>
  \<open>sample_app/query.py\<close>: the query runner, which reads random rows of the loader's table for a given
  time and reports statistics. Its loop is bounded by the clock only, so it takes fuel. \<open>Time_now\<close>
  answers in microseconds.
\<close>

subsection \<open>The runner\<close>

record query_args =
  query_connection :: connection_args
  query_keyspace :: string
  query_table :: string
  query_rows :: int
  id_offset :: int
  query_level :: string
  minutes :: int
  interval :: rat
  query_buckets :: int

definition query_defaults :: "(string \<Rightarrow> string option) \<Rightarrow> query_args" where
  "query_defaults environ =
     \<lparr>query_connection = add_connection_args environ, query_keyspace = ''mykeyspace'',
      query_table = ''myTable'', query_rows = 100000, id_offset = 0, query_level = ''LOCAL_QUORUM'',
      minutes = 60, interval = 1, query_buckets = 256\<rparr>"

text \<open>
  \<open>float(text)\<close> of a decimal literal: a whole and a fractional part, of which one may be empty, and an
  exponent. The literals \<open>inf\<close> and \<open>nan\<close>, with which \<open>time.sleep\<close> fails, are left out.
\<close>

fun literal_part :: "string \<Rightarrow> (nat \<times> nat) option" where
  "literal_part [] = Some (0, 0)"
| "literal_part s = map_option (\<lambda>n. (n, length (filter (\<lambda>c. c \<noteq> CHR ''_'') s))) (py_nat s)"

definition mantissa :: "string \<Rightarrow> rat option" where
  "mantissa s =
     (case split_on CHR ''.'' s of
        [w] \<Rightarrow> map_option of_nat (py_nat w)
      | [w, f] \<Rightarrow>
          (if w = [] \<and> f = [] then None
           else case (literal_part w, literal_part f) of
             (Some (n, _), Some (d, k)) \<Rightarrow> Some (of_nat n + of_nat d / 10 ^ k)
           | _ \<Rightarrow> None)
      | _ \<Rightarrow> None)"

definition unsigned_float :: "string \<Rightarrow> rat option" where
  "unsigned_float s =
     (case split_on CHR ''e'' (lower s) of
        [m] \<Rightarrow> mantissa m
      | [m, x] \<Rightarrow>
          (case (mantissa m, py_int x) of
             (Some r, Some e) \<Rightarrow> Some (if 0 \<le> e then r * 10 ^ nat e else r / 10 ^ nat (- e))
           | _ \<Rightarrow> None)
      | _ \<Rightarrow> None)"

definition py_float :: "string \<Rightarrow> rat option" where
  "py_float text =
     (let s = strip text
      in if list_ex is_space s then None
         else map_option to_double
           (case s of
              [] \<Rightarrow> None
            | c # u \<Rightarrow> (if c = CHR ''-'' then map_option uminus (unsigned_float u)
                       else if c = CHR ''+'' then unsigned_float u else unsigned_float s)))"

definition query_cli :: "query_args cli" where
  "query_cli =
     \<lparr>cli_options =
        help_option # part_options query_connection_update connection_options @
        [([''-k'', ''--keyspace''], text_value query_keyspace_update),
         ([''-t'', ''--table''], text_value query_table_update),
         ([''-r'', ''--row_count''], int_value query_rows_update),
         ([''-o'', ''--offset''], int_value id_offset_update),
         ([''--cl''], text_value query_level_update),
         ([''--minutes''], int_value minutes_update),
         ([''--interval''], Store (\<lambda>v. map_option (\<lambda>x. interval_update (\<lambda>_. x)) (py_float v))),
         ([''--buckets''], int_value query_buckets_update)],
      positional = No_positional, complete = (\<lambda>_. True)\<rparr>"

definition parse_query_args :: "(string \<Rightarrow> string option) \<Rightarrow> string list \<Rightarrow> exn + query_args" where
  "parse_query_args environ argv = parse_command_line query_cli (query_defaults environ) argv"

record runner =
  query_count :: int
  error_count :: int
  main_query :: "statement option"

definition select_row :: "string \<Rightarrow> string \<Rightarrow> statement" where
  "select_row keyspace table = Select [''*''] (table_in keyspace table) [(''bucket'', ''=''), (''id'', ''='')]"

text \<open>\<open>TableQueryRunner.__init__\<close>\<close>

definition new_runner :: "'w server \<Rightarrow> machine \<Rightarrow> target \<Rightarrow> string \<Rightarrow> ('w, runner) script" where
  "new_runner E m c keyspace =
     catch ordinary
       (seq (open_session E m c)
       (seq (tell E (Use_keyspace keyspace))
            (ret \<lparr>query_count = 0, error_count = 0, main_query = None\<rparr>)))
       (\<lambda>_. raise (SystemExit 1))"

definition prepare_queries :: "'w server \<Rightarrow> machine \<Rightarrow> query_args \<Rightarrow> runner \<Rightarrow> ('w, runner) script" where
  "prepare_queries E m opts st =
     (let q = select_row (query_keyspace opts) (query_table opts)
      in catch ordinary
           (seq (tell E (Prepare q))
           (bind (lift (level m (query_level opts))) (\<lambda>cl. ret (st\<lparr>main_query := Some q\<rparr>))))
           (\<lambda>_. ret (st\<lparr>main_query := None\<rparr>)))"

text \<open>Reading the columns of the first row for the log; a row without one of them has no such attribute.\<close>

definition sample :: "row list \<Rightarrow> unit py" where
  "sample rows =
     (case rows of
        [] \<Rightarrow> Inr ()
      | r # _ \<Rightarrow> (if list_all (\<lambda>c. map_of r c \<noteq> None) [''id'', ''ssn'', ''balance'']
                   then Inr () else Inl AttributeError))"

text \<open>
  The \<open>try\<close> block of \<open>execute_query\<close> counts the query before it looks at the rows; the handler counts
  an error for whatever was raised, so the block yields its outcome and the counters at that point.
\<close>

definition query_once :: "'w server \<Rightarrow> query_args \<Rightarrow> statement \<Rightarrow> ('w, row list) script" where
  "query_once E opts q =
     bind (randint E 1 (query_rows opts)) (\<lambda>n.
       let rid = id_offset opts + n; b = rid mod query_buckets opts
       in fetch E q [Number b, Number rid])"

definition execute_query :: "'w server \<Rightarrow> query_args \<Rightarrow> runner \<Rightarrow> ('w, bool \<times> runner) script" where
  "execute_query E opts st =
     (case main_query st of
        None \<Rightarrow> ret (False, st)
      | Some q \<Rightarrow>
          bind (catch ordinary (bind (query_once E opts q) (\<lambda>rows. ret (Some rows))) (\<lambda>_. ret None)) (\<lambda>got.
          case got of
            None \<Rightarrow> ret (False, st\<lparr>error_count := error_count st + 1\<rparr>)
          | Some rows \<Rightarrow>
              (let st' = st\<lparr>query_count := query_count st + 1\<rparr>
               in case sample rows of
                    Inr _ \<Rightarrow> ret (True, st')
                  | Inl _ \<Rightarrow> ret (False, st'\<lparr>error_count := error_count st' + 1\<rparr>))))"

text \<open>The rest of an iteration: the progress line every 50 queries, then the wait.\<close>

definition after_query :: "'w server \<Rightarrow> query_args \<Rightarrow> runner \<Rightarrow> ('w, unit) script" where
  "after_query E opts st =
     seq (if query_count st mod 50 = 0 \<and> query_count st \<noteq> 0 then tell E Time_now else ret ())
         (pause E (interval opts))"

fun query_loop :: "nat \<Rightarrow> 'w server \<Rightarrow> query_args \<Rightarrow> int \<Rightarrow> runner \<Rightarrow> ('w, runner) script" where
  "query_loop 0 E opts end_time st = halt Out_of_fuel"
| "query_loop (Suc fuel) E opts end_time st =
     bind (number E Time_now) (\<lambda>now.
       if now < end_time then
         bind (execute_query E opts st) (\<lambda>res.
         seq (after_query E opts (snd res)) (query_loop fuel E opts end_time (snd res)))
       else ret st)"

text \<open>The lines of the final report.\<close>

record statistics =
  total_queries :: int
  successful_queries :: int
  failed_queries :: int
  success_rate :: rat
  per_second :: rat

definition statistics_of :: "runner \<Rightarrow> int \<Rightarrow> statistics py" where
  "statistics_of st micros =
     (if micros = 0 then Inl ZeroDivisionError
      else Inr \<lparr>total_queries = query_count st,
                successful_queries = query_count st - error_count st,
                failed_queries = error_count st,
                success_rate =
                  (if query_count st = 0 then 0
                   else to_double (true_div (query_count st - error_count st) (query_count st) * 100)),
                per_second = to_double (of_int (query_count st) / true_div micros 1000000)\<rparr>)"

definition run_for_duration :: "nat \<Rightarrow> 'w server \<Rightarrow> machine \<Rightarrow> query_args \<Rightarrow> runner \<Rightarrow> ('w, statistics) script" where
  "run_for_duration fuel E m opts st =
     bind (number E Time_now) (\<lambda>start_time.
     bind (prepare_queries E m opts st) (\<lambda>st.
     bind (query_loop fuel E opts (start_time + minutes opts * 60 * 1000000) st) (\<lambda>st.
     bind (number E Time_now) (\<lambda>now.
     lift (statistics_of st (now - start_time))))))"

text \<open>\<open>main\<close>; \<open>None\<close> is a run that was interrupted or failed after connecting, which is only logged.\<close>

definition query_main :: "nat \<Rightarrow> 'w server \<Rightarrow> machine \<Rightarrow> query_args \<Rightarrow> ('w, statistics option) script" where
  "query_main fuel E m opts =
     (case resolve_connection (files_of m) (query_connection opts) of
        Inl e \<Rightarrow> raise e
      | Inr resolved \<Rightarrow>
          (if query_buckets opts < 1 then raise (SystemExit 1)
           else bind (new_runner E m (target_of (query_connection opts) resolved) (query_keyspace opts)) (\<lambda>st.
                finally_do
                  (catch ordinary
                    (catch (\<lambda>e. e = KeyboardInterrupt)
                       (bind (run_for_duration fuel E m opts st) (\<lambda>s. ret (Some s)))
                       (\<lambda>_. ret None))
                    (\<lambda>_. ret None))
                  (tell E Cluster_shutdown))))"

definition query_process ::
    "nat \<Rightarrow> 'w server \<Rightarrow> machine \<Rightarrow> (string \<Rightarrow> string option) \<Rightarrow> string list \<Rightarrow> ('w, statistics option) script" where
  "query_process fuel E m environ argv = with_args (parse_query_args environ argv) (query_main fuel E m)"

subsection \<open>Counting\<close>

text \<open>The queries of a run: how many were answered, how many failed.\<close>

fun rows_answered :: "event \<Rightarrow> int" where
  "rows_answered (Execute q cs, Raised e) = 0"
| "rows_answered (Execute q cs, a) = 1"
| "rows_answered (q, a) = 0"

fun refused :: "event \<Rightarrow> int" where
  "refused (Execute q cs, Raised e) = 1"
| "refused (q, a) = 0"

definition count_of :: "(event \<Rightarrow> int) \<Rightarrow> event list \<Rightarrow> int" where
  "count_of f t = sum_list (map f t)"

lemma count_of_simps [simp]:
  "count_of f [] = 0"
  "count_of f (e # t) = f e + count_of f t"
  "count_of f (t @ t') = count_of f t + count_of f t'"
  by (simp_all add: count_of_def)

text \<open>Select statements answer with the columns the report reads, the random generator keeps its range.\<close>

definition loaded :: "'w server \<Rightarrow> bool" where
  "loaded E \<longleftrightarrow> fair E \<and>
     (\<forall>w q cs. case fst (E w (Execute q cs)) of Rows rs \<Rightarrow> sample rs = Inr () | _ \<Rightarrow> True)"

lemma sample_rows_of: "loaded E \<Longrightarrow> E w (Execute q cs) = (a, w') \<Longrightarrow> sample (rows_of a) = Inr ()"
proof -
  assume "loaded E" and run: "E w (Execute q cs) = (a, w')"
  then have "case fst (E w (Execute q cs)) of Rows rs \<Rightarrow> sample rs = Inr () | _ \<Rightarrow> True"
    unfolding loaded_def by blast
  with run show ?thesis by (cases a) (simp_all add: rows_of_def sample_def)
qed

lemma query_once_run:
  assumes "fair E" "1 \<le> query_rows opts" "query_once E opts q w = (t, w', r)"
  obtains n a w1 where "1 \<le> n" "n \<le> query_rows opts"
    "t = [(Random_int 1 (query_rows opts), Value n),
          (Execute q [Number ((id_offset opts + n) mod query_buckets opts), Number (id_offset opts + n)], a)]"
    "E w1 (Execute q [Number ((id_offset opts + n) mod query_buckets opts), Number (id_offset opts + n)]) = (a, w')"
    "r = Inr (rows_of a) \<and> (\<forall>e. a \<noteq> Raised e) \<or> (\<exists>e. a = Raised e \<and> r = Inl (Exn e))"
  using assms(3) unfolding query_once_def
proof (cases rule: bindE)
  case (stopped e)
  with randint_run [OF assms(1,2)] show ?thesis by fastforce
next
  case (went_on t1 w1 n t2)
  from randint_run [OF assms(1,2) went_on(1)]
  have n: "t1 = [(Random_int 1 (query_rows opts), Value n)]" "1 \<le> n" "n \<le> query_rows opts" by auto
  from went_on(2) [unfolded Let_def] show ?thesis
    by (rule fetch_run) (rule that [OF n(2,3)], simp_all add: went_on(3) n(1))
qed

lemma query_attempt_counts:
  assumes E: "loaded E" "1 \<le> query_rows opts"
    and run: "catch ordinary (bind (query_once E opts q) (\<lambda>rows. ret (Some rows))) (\<lambda>_. ret None) w = (t, w', Inr got)"
  shows "case got of
      None \<Rightarrow> count_of rows_answered t = 0 \<and> count_of refused t = 1
    | Some rows \<Rightarrow> count_of rows_answered t = 1 \<and> count_of refused t = 0 \<and> sample rows = Inr ()"
proof -
  have fair: "fair E" using E(1) by (simp add: loaded_def)
  from run show ?thesis
  proof (cases rule: catchE)
    case passed
    then obtain rows where once: "query_once E opts q w = (t, w', Inr rows)" and got: "got = Some rows"
      by (auto simp: bind_Inr_iff)
    from query_once_run [OF fair E(2) once] obtain n cs a w1 where
      t: "t = [(Random_int 1 (query_rows opts), Value n), (Execute q cs, a)]"
      and answer: "E w1 (Execute q cs) = (a, w')" "rows = rows_of a" "\<forall>e. a \<noteq> Raised e"
      by (metis Inl_Inr_False Inr_inject)
    from sample_rows_of [OF E(1) answer(1)] answer(2,3) t got show ?thesis by (cases a) auto
  next
    case (caught t1 w1 e t2)
    then obtain e' where once: "query_once E opts q w = (t1, w1, Inl (Exn e'))"
      by (auto simp: bind_Inl_iff)
    from query_once_run [OF fair E(2) once] obtain n cs where
      "t1 = [(Random_int 1 (query_rows opts), Value n), (Execute q cs, Raised e')]"
      by (metis Inl_Inr_False Inl_inject stop.inject)
    with caught show ?thesis by auto
  qed
qed

lemma execute_query_counts:
  assumes "loaded E" "1 \<le> query_rows opts" "execute_query E opts st w = (t, w', Inr res)"
  shows "query_count (snd res) = query_count st + count_of rows_answered t"
    and "error_count (snd res) = error_count st + count_of refused t"
proof -
  from assms(3) have "query_count (snd res) = query_count st + count_of rows_answered t \<and>
      error_count (snd res) = error_count st + count_of refused t"
    by (auto simp: execute_query_def Let_def bind_Inr_iff split: option.splits
        dest!: query_attempt_counts [OF assms(1,2)])
  then show "query_count (snd res) = query_count st + count_of rows_answered t"
    and "error_count (snd res) = error_count st + count_of refused t" by simp_all
qed

lemma query_loop_counts:
  assumes "loaded E" "1 \<le> query_rows opts" "query_loop fuel E opts end_time st w = (t, w', Inr st')"
  shows "query_count st' = query_count st + count_of rows_answered t \<and>
    error_count st' = error_count st + count_of refused t"
  using assms(3)
proof (induction fuel arbitrary: st w t)
  case 0
  then show ?case by simp
next
  case (Suc fuel)
  from Suc.prems [unfolded query_loop.simps] obtain t1 w1 now t2 where clock: "number E Time_now w = (t1, w1, Inr now)"
    and run: "(if now < end_time then bind (execute_query E opts st) (\<lambda>res.
         seq (after_query E opts (snd res)) (query_loop fuel E opts end_time (snd res))) else ret st) w1 = (t2, w', Inr st')"
    and t: "t = t1 @ t2"
    by (rule bind_InrE)
  from clock have t1: "count_of rows_answered t1 = 0" "count_of refused t1 = 0" by (auto simp: number_Inr)
  show ?case
  proof (cases "now < end_time")
    case False
    with run t t1 show ?thesis by simp
  next
    case True
    with run obtain t3 w3 res t4 where query: "execute_query E opts st w1 = (t3, w3, Inr res)"
      and rest: "seq (after_query E opts (snd res)) (query_loop fuel E opts end_time (snd res)) w3 = (t4, w', Inr st')"
      and t2: "t2 = t3 @ t4"
      by (auto elim: bind_InrE)
    from rest obtain t5 w5 t6 u where wait: "after_query E opts (snd res) w3 = (t5, w5, Inr u)"
      and again: "query_loop fuel E opts end_time (snd res) w5 = (t6, w', Inr st')" and t4: "t4 = t5 @ t6"
      by (rule seq_InrE)
    have "count_of rows_answered t5 = 0 \<and> count_of refused t5 = 0"
      using wait by (auto simp: after_query_def pause_def seq_Inr_iff tell_Inr split: if_splits)
    then show ?thesis
      using execute_query_counts [OF assms(1,2) query] Suc.IH [OF again] t1 by (simp add: t t2 t4)
  qed
qed

subsection \<open>Hitting the loader's rows\<close>

text \<open>A query whose key is one the loader computes for some identifier in range.\<close>

fun aimed :: "query_args \<Rightarrow> event \<Rightarrow> bool" where
  "aimed opts (Execute q cs, a) =
     list_ex (\<lambda>i. cs = [Number (fst (row_key (id_offset opts) (query_buckets opts) i)),
                        Number (snd (row_key (id_offset opts) (query_buckets opts) i))]) [1..query_rows opts]"
| "aimed opts (q, a) = True"

lemma aimed_query_once:
  assumes "fair E" "1 \<le> query_rows opts" "1 \<le> query_buckets opts"
  shows "obeys (calls_in (aimed opts)) (query_once E opts q)"
proof (rule calls_inI)
  fix w t w' r c
  assume run: "query_once E opts q w = (t, w', r)" and c: "c \<in> set t"
  from run obtain n a where n: "1 \<le> n" "n \<le> query_rows opts"
    and t: "t = [(Random_int 1 (query_rows opts), Value n),
          (Execute q [Number ((id_offset opts + n) mod query_buckets opts), Number (id_offset opts + n)], a)]"
    by (rule query_once_run [OF assms(1,2)])
  with c bucket_of_mod [OF assms(3), of "n + id_offset opts"] show "aimed opts c"
    by (auto simp: row_key_def list_ex_iff add.commute)
qed

fun unrelated :: "request \<Rightarrow> bool" where
  "unrelated (Execute q cs) = False"
| "unrelated q = True"

lemma aimed_asks: "obeys (asks unrelated) m \<Longrightarrow> obeys (calls_in (aimed opts)) m"
proof (rule calls_inI)
  fix w t w' r c
  assume "obeys (asks unrelated) m" "m w = (t, w', r)" "c \<in> set t"
  then have "unrelated (fst c)" by (metis asksD prod.collapse)
  then show "aimed opts c" by (cases c, cases "fst c") auto
qed

lemma aimed_query_main:
  assumes "fair E" "1 \<le> query_rows opts"
  shows "obeys (calls_in (aimed opts)) (query_main fuel E m opts)"
proof (cases "1 \<le> query_buckets opts")
  case False
  then show ?thesis unfolding query_main_def by (auto split: sum.split)
next
  case True
  note once = aimed_query_once [OF assms True]
  have exec: "obeys (calls_in (aimed opts)) (execute_query E opts st)" for st
    unfolding execute_query_def
    by (auto intro!: calls.obeys_bind calls.obeys_catch once simp: Let_def split: option.split sum.split)
  have now: "obeys (calls_in (aimed opts)) (number E Time_now)"
    by (intro aimed_asks asks_number) simp
  have wait: "obeys (calls_in (aimed opts)) (after_query E opts st)" for st
    unfolding after_query_def
    by (intro aimed_asks asks.obeys_seq asks.obeys_if asks_tell asks.obeys_ret asks_pause) simp_all
  have loop: "obeys (calls_in (aimed opts)) (query_loop fuel E opts end_time st)" for end_time st
  proof (induction fuel arbitrary: st)
    case 0
    then show ?case by (rule calls_inI) simp
  next
    case (Suc fuel)
    show ?case
      unfolding query_loop.simps
      by (intro calls.obeys_bind now calls.obeys_if calls.obeys_seq exec wait Suc.IH calls.obeys_ret)
  qed
  have start: "obeys (calls_in (aimed opts)) (new_runner E m c k)" for c k
    unfolding new_runner_def open_session_def
    by (intro aimed_asks asks.obeys_catch asks.obeys_seq asks_build asks_tell asks.obeys_ret asks.obeys_raise) simp_all
  have prep: "obeys (calls_in (aimed opts)) (prepare_queries E m opts st)" for st
    unfolding prepare_queries_def Let_def
    by (intro aimed_asks asks.obeys_catch asks.obeys_seq asks.obeys_bind asks_tell asks.obeys_lift asks.obeys_ret) simp
  have run: "obeys (calls_in (aimed opts)) (run_for_duration fuel E m opts st)" for st
    unfolding run_for_duration_def
    by (intro calls.obeys_bind now prep loop calls.obeys_lift)
  have stop: "obeys (calls_in (aimed opts)) (tell E Cluster_shutdown)"
    by (intro aimed_asks asks_tell) simp
  show ?thesis
    unfolding query_main_def
    by (auto intro!: calls_in_finally calls.obeys_catch calls.obeys_bind run start stop split: sum.split)
qed

subsection \<open>Properties\<close>

text \<open>
  C26: What the final report counts. \<open>Total queries\<close> is the number of queries that were answered and
  \<open>Failed queries\<close> the number of those that raised, so \<open>Successful queries\<close>, their difference, is too
  low by the number of failures whenever a query failed.
\<close>

theorem query_statistics:
  assumes "loaded E" "1 \<le> query_rows opts"
    and "run_for_duration fuel E m opts \<lparr>query_count = 0, error_count = 0, main_query = None\<rparr> w = (t, w', Inr s)"
  shows "total_queries s = count_of rows_answered t \<and> failed_queries s = count_of refused t \<and>
    successful_queries s = count_of rows_answered t - count_of refused t"
proof -
  let ?st = "\<lparr>query_count = 0, error_count = 0, main_query = None\<rparr>"
  from assms(3) obtain t1 w1 start t2 w2 st t3 w3 st' t4 now where
    first: "number E Time_now w = (t1, w1, Inr start)"
    and prep: "prepare_queries E m opts ?st w1 = (t2, w2, Inr st)"
    and loop: "query_loop fuel E opts (start + minutes opts * 60 * 1000000) st w2 = (t3, w3, Inr st')"
    and last: "number E Time_now w3 = (t4, w', Inr now)"
    and s: "statistics_of st' (now - start) = Inr s" and t: "t = t1 @ t2 @ t3 @ t4"
    unfolding run_for_duration_def by (auto elim!: bind_InrE simp: lift_Inr_iff)
  have "query_count st = 0 \<and> error_count st = 0 \<and> count_of rows_answered t2 = 0 \<and> count_of refused t2 = 0"
    using prep unfolding prepare_queries_def Let_def
    by (auto elim!: catchE bindE simp: seq_def tell_def lift_Inl_iff lift_Inr_iff dest!: request_run)
  moreover have "count_of rows_answered t1 = 0 \<and> count_of refused t1 = 0 \<and> count_of rows_answered t4 = 0 \<and> count_of refused t4 = 0"
    using first last by (auto simp: number_Inr)
  ultimately show ?thesis
    using query_loop_counts [OF assms(1,2) loop] s by (auto simp: t statistics_of_def split: if_splits)
qed

text \<open>A server whose clock advances 40 seconds per reading, and which refuses the second query.\<close>

definition ticking :: "(int \<times> nat) server" where
  "ticking w q =
     (case q of
        Time_now \<Rightarrow> (Value (fst w), (fst w + 40000000, snd w))
      | Random_int a b \<Rightarrow> (Value a, w)
      | Execute s cs \<Rightarrow> (if snd w = 1 then Raised DriverError else Rows [], (fst w, snd w + 1))
      | _ \<Rightarrow> (Ok, w))"

definition some_query_args :: query_args where
  "some_query_args = (query_defaults (\<lambda>_. None))\<lparr>query_rows := 2, minutes := 2\<rparr>"

lemma ticking_loaded: "loaded ticking"
  by (auto simp: loaded_def fair_def ticking_def sample_def)

lemma some_report:
  "map_sum id successful_queries (result (run_for_duration 4 ticking some_machine some_query_args
      \<lparr>query_count = 0, error_count = 0, main_query = None\<rparr>) (0, 0)) = Inr 0"
  by code_simp

theorem query_statistics_witness:
  "\<exists>t. count_of rows_answered t = count_of refused t \<and>
     t = trace_of (run_for_duration 4 ticking some_machine some_query_args
           \<lparr>query_count = 0, error_count = 0, main_query = None\<rparr>) (0, 0)"
proof -
  let ?run = "run_for_duration 4 ticking some_machine some_query_args \<lparr>query_count = 0, error_count = 0, main_query = None\<rparr>"
  from some_report obtain s where s: "result ?run (0, 0) = Inr s" "successful_queries s = 0"
    by (cases "result ?run (0, 0)") auto
  have "1 \<le> query_rows some_query_args" by (simp add: some_query_args_def)
  from query_statistics [OF ticking_loaded this run_Inr [OF s(1)]] s(2) show ?thesis by auto
qed

text \<open>
  C27: Started with the loader's row count, offset and number of buckets, the query runner only asks for
  keys the loader has inserted: both compute the partition of an identifier the same way.
\<close>

theorem queries_hit_loaded_rows:
  assumes "loader_main E\<^sub>1 m\<^sub>1 load fake w\<^sub>1 = (t\<^sub>1, w\<^sub>1', Inr (cnt, failed))"
    and "1 \<le> arg_row_count load" "arg_row_count load < 2 ^ 53"
    and same: "query_rows opts = arg_row_count load" "id_offset opts = arg_offset load"
      "query_buckets opts = arg_buckets load"
    and "fair E" and "query_main fuel E m opts w = (t, w', r)" and "(Execute q cs, a) \<in> set t"
  shows "\<exists>k \<in> set (submitted t\<^sub>1). cs = [Number (fst k), Number (snd k)]"
proof -
  from assms(1) obtain c w\<^sub>2 t\<^sub>2 where run: "insert_data_parallel E\<^sub>1 m\<^sub>1 c load fake w\<^sub>2 = (t\<^sub>2, w\<^sub>1', Inr (cnt, failed))"
    and t: "submitted t\<^sub>1 = submitted t\<^sub>2"
    by (rule loader_main_Inr)
  have "aimed opts (Execute q cs, a)"
    using assms(2) same(1) by (intro calls_inD [OF aimed_query_main [OF \<open>fair E\<close>] assms(8,9)]) simp
  with insert_data_parallel_Inr [OF run] assms(2,3) show ?thesis
    by (auto simp: t same list_ex_iff)
qed

lemma some_target:
  "resolve_connection (files_of some_machine) (query_connection some_query_args)
     = Inr ([''127.0.0.1''], ''9042'', ''cassandra'')"
  by code_simp

abbreviation some_place :: target where
  "some_place \<equiv> target_of (query_connection some_query_args) ([''127.0.0.1''], ''9042'', ''cassandra'')"

lemma some_runner:
  "case new_runner ticking some_machine some_place ''mykeyspace'' (0, 0) of
     (t, w, r) \<Rightarrow> w = (0, 0) \<and> r = Inr \<lparr>query_count = 0, error_count = 0, main_query = None\<rparr>"
  by code_simp

lemma some_queries:
  "list_ex (\<lambda>c. case fst c of Execute s cs \<Rightarrow> cs = [Number 1, Number 1] | _ \<Rightarrow> False)
     (trace_of (run_for_duration 4 ticking some_machine some_query_args
        \<lparr>query_count = 0, error_count = 0, main_query = None\<rparr>) (0, 0))"
  by code_simp

lemma some_query:
  "list_ex (\<lambda>c. case fst c of Execute s cs \<Rightarrow> cs = [Number 1, Number 1] | _ \<Rightarrow> False)
     (trace_of (query_main 4 ticking some_machine some_query_args) (0, 0))"
proof -
  obtain t where start: "new_runner ticking some_machine some_place (query_keyspace some_query_args) (0, 0) =
      (t, (0, 0), Inr \<lparr>query_count = 0, error_count = 0, main_query = None\<rparr>)"
    using some_runner by (auto simp: some_query_args_def query_defaults_def split: prod.splits)
  obtain t' w r where run: "run_for_duration 4 ticking some_machine some_query_args
      \<lparr>query_count = 0, error_count = 0, main_query = None\<rparr> (0, 0) = (t', w, r)" by (rule prod_cases3)
  have "\<not> query_buckets some_query_args < 1" by (simp add: some_query_args_def query_defaults_def)
  then show ?thesis
    using some_queries some_target start run
    by (auto simp: query_main_def trace_of_def bind_def finally_do_def catch_def list_ex_iff
        split: prod.split sum.split stop.split)
qed

theorem queries_hit_loaded_rows_witness:
  "(1, 1) \<in> set (submitted (trace_of (loader_main quiet_server some_machine some_loader_args (\<lambda>_. some_draws)) ()))"
proof -
  let ?q = "query_main 4 ticking some_machine some_query_args"
  from some_query obtain c where c: "c \<in> set (trace_of ?q (0, 0))"
    "case fst c of Execute s cs \<Rightarrow> cs = [Number 1, Number 1] | _ \<Rightarrow> False"
    by (auto simp: list_ex_iff)
  from c(2) obtain s where "fst c = Execute s [Number 1, Number 1]" by (cases "fst c") auto
  with c(1) have asked: "(Execute s [Number 1, Number 1], snd c) \<in> set (trace_of ?q (0, 0))"
    by (metis prod.collapse)
  have fair: "fair ticking" using ticking_loaded by (simp add: loaded_def)
  from queries_hit_loaded_rows [OF run_Inr [OF some_load] _ _ _ _ _ fair run_parts asked]
  show ?thesis
    by (auto simp: some_loader_args_def loader_defaults_def some_query_args_def query_defaults_def)
qed

end
