(* ===== verification/Cql.thy ===== *)
theory Cql
  imports Driver
begin

text \<open>
  What the documentation of CQL says of the statements the claims about tables rest on: when a row
  satisfies the comparisons of a \<open>WHERE\<close> with its bound values, and what creating and dropping tables and
  inserting rows leave in the tables. An insertion replaces the row with the same primary key, which is the
  one the table was created with.
\<close>

subsection \<open>WHERE\<close>

text \<open>A comparison of a column with a bound value; only numbers are ordered here.\<close>

definition compares :: "string \<Rightarrow> cell \<Rightarrow> cell \<Rightarrow> bool" where
  "compares rel x y \<longleftrightarrow>
     (case (x, y) of
        (Number a, Number b) \<Rightarrow>
          (if rel = ''='' then a = b else if rel = ''<'' then a < b else if rel = ''<='' then a \<le> b
           else if rel = ''>'' then b < a else rel = ''>='' \<and> b \<le> a)
      | _ \<Rightarrow> rel = ''='' \<and> x = y)"

text \<open>\<open>val\<close> is the row: its columns, and expressions over them such as \<open>TOKEN(UserID)\<close>.\<close>

fun selects :: "(string \<times> string) list \<Rightarrow> cell list \<Rightarrow> (string \<Rightarrow> cell) \<Rightarrow> bool" where
  "selects [] [] val = True"
| "selects ((column, rel) # conds) (bound # bounds) val =
     (compares rel (val column) bound \<and> selects conds bounds val)"
| "selects conds bounds val = False"

fun conditions :: "statement \<Rightarrow> (string \<times> string) list" where
  "conditions (Select cols table conds) = conds"
| "conditions (Delete_where table conds) = conds"
| "conditions s = []"

subsection \<open>Tables\<close>

text \<open>The tables there are, each with what it was created as and its rows.\<close>

type_synonym tables = "string \<Rightarrow> (table_spec \<times> row list) option"

definition primary_key :: "table_spec \<Rightarrow> string list" where
  "primary_key spec = partition_key spec @ map fst (clustering_key spec)"

definition key_in :: "table_spec \<Rightarrow> row \<Rightarrow> cell option list" where
  "key_in spec r = map (map_of r) (primary_key spec)"

definition overwrite :: "row \<Rightarrow> row \<Rightarrow> row" where
  "overwrite new old = fold (\<lambda>(c, v) r. AList.update c v r) new old"

definition upsert :: "table_spec \<Rightarrow> row \<Rightarrow> row list \<Rightarrow> row list" where
  "upsert spec r rows =
     (if list_all (\<lambda>q. key_in spec q \<noteq> key_in spec r) rows then rows @ [r]
      else map (\<lambda>q. if key_in spec q = key_in spec r then overwrite r q else q) rows)"

text \<open>
  The statements that make, drop and fill tables: \<open>CREATE TABLE IF NOT EXISTS\<close>, \<open>DROP TABLE IF EXISTS\<close>,
  and \<open>INSERT\<close> without \<open>USING\<close>, whose write times grow with the order of the insertions.
\<close>

fun executed :: "statement \<Rightarrow> cell list \<Rightarrow> tables \<Rightarrow> tables" where
  "executed (Create_table name spec) cs T = (if T name = None then T(name \<mapsto> (spec, [])) else T)"
| "executed (Drop_table name) cs T = T(name := None)"
| "executed (Insert name cols []) cs T =
     (case T name of
        None \<Rightarrow> T
      | Some (spec, rows) \<Rightarrow> T(name \<mapsto> (spec, upsert spec (zip cols cs) rows)))"
| "executed s cs T = T"

definition applied :: "event \<Rightarrow> tables \<Rightarrow> tables" where
  "applied e T =
     (case e of
        (q, Raised x) \<Rightarrow> T
      | (Execute s cs, a) \<Rightarrow> executed s cs T
      | _ \<Rightarrow> T)"

definition tables_after :: "event list \<Rightarrow> tables \<Rightarrow> tables" where
  "tables_after t T = fold applied t T"

lemma tables_after_simps [simp]:
  "tables_after [] T = T"
  "tables_after (e # t) T = tables_after t (applied e T)"
  "tables_after (t @ t') T = tables_after t' (tables_after t T)"
  by (simp_all add: tables_after_def)

text \<open>What no statement was executed in leaves the tables alone.\<close>

fun executes :: "request \<Rightarrow> bool" where
  "executes (Execute s cs) = True"
| "executes q = False"

lemma applied_idle: "\<not> executes (fst e) \<Longrightarrow> applied e T = T"
  by (cases e, cases "fst e") (auto simp: applied_def split: reply.split)

lemma tables_after_idle: "\<forall>e \<in> set t. \<not> executes (fst e) \<Longrightarrow> tables_after t T = T"
  by (induction t arbitrary: T) (simp_all add: applied_idle)

lemma applied_execute: "\<forall>e. a \<noteq> Raised e \<Longrightarrow> applied (Execute s cs, a) T = executed s cs T"
  by (cases a) (simp_all add: applied_def)

text \<open>A row for the only key of the table replaces its row, one that names all columns altogether.\<close>

lemma upsert_first: "upsert spec r [] = [r]"
  by (simp add: upsert_def)

lemma upsert_again: "key_in spec q = key_in spec r \<Longrightarrow> upsert spec r [q] = [overwrite r q]"
  by (simp add: upsert_def)

end
