(* ===== verification/Cleanup.thy ===== *)
theory Cleanup
  imports Loader Cql
begin

text \<open>
  \<open>sample_app/alternator-client/cleanup_userid_mt.py\<close>: deletes all but the latest row of every user, in
  token ranges handed to a pool of threads (which refuses to have no thread). The ranges are processed one
  after the other here: each thread reads and deletes the rows of its own users only.
\<close>

subsection \<open>Token ranges\<close>

definition KEYSPACE :: string where
  "KEYSPACE = ''alternator_userid''"

definition TABLE :: string where
  "TABLE = ''userid''"

record cleanup_args =
  cleanup_hosts :: string
  cleanup_auth :: "string \<times> string"
  fetch_size :: int
  token_step :: int
  parallelism :: int

definition cleanup_defaults :: cleanup_args where
  "cleanup_defaults =
     \<lparr>cleanup_hosts = ''scylla-client.scylla-dc1.svc'', cleanup_auth = (''cassandra'', ''cassandra''),
      fetch_size = 1000, token_step = 2 ^ 64 div 64, parallelism = 8\<rparr>"

definition cleanup_cli :: "cleanup_args cli" where
  "cleanup_cli =
     \<lparr>cli_options =
        [help_option,
         ([''-s'', ''--hosts''], text_value cleanup_hosts_update),
         ([''-u'', ''--username''], text_value (\<lambda>f. cleanup_auth_update (apfst f))),
         ([''-p'', ''--password''], text_value (\<lambda>f. cleanup_auth_update (apsnd f))),
         ([''--batch_size''], int_value fetch_size_update),
         ([''--token-step''], int_value token_step_update),
         ([''--parallelism''], int_value parallelism_update)],
      positional = No_positional, complete = (\<lambda>_. True)\<rparr>"

definition parse_cleanup_args :: "string list \<Rightarrow> exn + cleanup_args" where
  "parse_cleanup_args argv = parse_command_line cleanup_cli cleanup_defaults argv"

text \<open>The loop of \<open>get_token_ranges\<close>; \<open>None\<close> when it never ends.\<close>

partial_function (option) token_ranges :: "int \<Rightarrow> int \<Rightarrow> piece list option" where
  "token_ranges start step =
     (if start < 2 ^ 63
      then (let end = min (start + step) (2 ^ 63 - 1)
            in Option.bind (token_ranges (end + 1) step) (\<lambda>ps. Some ((start, end) # ps)))
      else Some [])"

definition get_token_ranges :: "int \<Rightarrow> piece list option" where
  "get_token_ranges step = token_ranges (- (2 ^ 63)) step"

subsection \<open>Cleaning a range\<close>

definition newest :: statement where
  "newest = Select [''MAX(LastUpdated)''] TABLE [(''UserID'', ''='')]"

definition delete_older :: statement where
  "delete_older = Delete_where TABLE [(''UserID'', ''=''), (''LastUpdated'', ''<'')]"

definition users_in_range :: statement where
  "users_in_range = Select [''UserID''] TABLE [(''TOKEN(UserID)'', ''>''), (''TOKEN(UserID)'', ''<='')]"

text \<open>The values the query of a range is executed with.\<close>

definition range_bounds :: "piece \<Rightarrow> cell list" where
  "range_bounds p = [Number (fst p), Number (snd p)]"

definition connect_scylla :: "'w server \<Rightarrow> cleanup_args \<Rightarrow> ('w, unit) script" where
  "connect_scylla E opts = tell E (Connect_plain [cleanup_hosts opts] 9042 (cleanup_auth opts) (Some KEYSPACE))"

text \<open>\<open>session.execute(max_stmt, [user_id]).one()[0]\<close>\<close>

definition max_of :: "row list \<Rightarrow> cell py" where
  "max_of rows = (case rows of [] \<Rightarrow> Inl TypeError | r # _ \<Rightarrow> (case r of [] \<Rightarrow> Inl IndexError | (c, v) # _ \<Rightarrow> Inr v))"

text \<open>The body of the loop over the users of a range; its handler only prints.\<close>

definition clean_user :: "'w server \<Rightarrow> int \<Rightarrow> cell \<Rightarrow> ('w, int) script" where
  "clean_user E total_deleted user_id =
     catch ordinary
       (bind (fetch E newest [user_id]) (\<lambda>rows.
        bind (lift (max_of rows)) (\<lambda>max_ts.
        if max_ts = Null \<or> max_ts = Number 0 then ret total_deleted
        else seq (tell E (Execute delete_older [user_id, max_ts])) (ret (total_deleted + 1)))))
       (\<lambda>_. ret total_deleted)"

definition cleanup_range :: "'w server \<Rightarrow> cleanup_args \<Rightarrow> piece \<Rightarrow> ('w, int) script" where
  "cleanup_range E opts p =
     seq (connect_scylla E opts)
       (finally_do
         (seq (tell E (Prepare newest))
         (seq (tell E (Prepare delete_older))
         (bind (fetch E users_in_range (range_bounds p)) (\<lambda>rows.
          fold_m (\<lambda>n r. clean_user E n (case r of (c, v) # _ \<Rightarrow> v | [] \<Rightarrow> Null)) 0 rows))))
         (seq (tell E Cluster_shutdown) (tell E Session_shutdown)))"

fun add_up :: "int \<Rightarrow> (exn + int) list \<Rightarrow> exn + int" where
  "add_up n [] = Inr n"
| "add_up n (Inl e # rs) = Inl e"
| "add_up n (Inr k # rs) = add_up (n + k) rs"

definition cleanup_main :: "'w server \<Rightarrow> cleanup_args \<Rightarrow> ('w, int) script" where
  "cleanup_main E opts =
     (case get_token_ranges (token_step opts) of
        None \<Rightarrow> halt Out_of_fuel
      | Some ranges \<Rightarrow>
          if parallelism opts \<le> 0 then raise (PyError ValueError)
          else bind (map_m (\<lambda>p. attempt (cleanup_range E opts p)) ranges) (\<lambda>results.
          case add_up 0 results of Inl e \<Rightarrow> raise e | Inr n \<Rightarrow> ret n))"

definition cleanup_process :: "'w server \<Rightarrow> string list \<Rightarrow> ('w, int) script" where
  "cleanup_process E argv = with_args (parse_cleanup_args argv) (cleanup_main E)"

subsection \<open>Which tokens are examined\<close>

text \<open>The ranges are the batches of \<open>step + 1\<close> tokens.\<close>

lemma chunked_ids_Cons:
  "i \<le> e \<Longrightarrow> j = min (i + b - 1) e \<Longrightarrow> chunked_ids (j + 1) e b = Some ps \<Longrightarrow> chunked_ids i e b = Some ((i, j) # ps)"
  by (subst chunked_ids.simps) simp

lemma chunked_ids_Nil: "e < i \<Longrightarrow> chunked_ids i e b = Some []"
  by (subst chunked_ids.simps) simp

lemma token_ranges_Cons:
  "s < 2 ^ 63 \<Longrightarrow> e = min (s + step) (2 ^ 63 - 1) \<Longrightarrow> token_ranges (e + 1) step = Some ps
     \<Longrightarrow> token_ranges s step = Some ((s, e) # ps)"
  by (subst token_ranges.simps) simp

lemma token_ranges_chunked:
  assumes "token_ranges s step = Some ps"
  shows "chunked_ids s (2 ^ 63 - 1) (step + 1) = Some ps"
proof (rule token_ranges.raw_induct [OF _ assms])
  fix rec :: "int \<Rightarrow> int \<Rightarrow> piece list option" and s step ps
  assume hyp: "\<And>s step ps. rec s step = Some ps \<Longrightarrow> chunked_ids s (2 ^ 63 - 1) (step + 1) = Some ps"
    and run: "(if s < 2 ^ 63
      then let end = min (s + step) (2 ^ 63 - 1) in Option.bind (rec (end + 1) step) (\<lambda>ps. Some ((s, end) # ps))
      else Some []) = Some ps"
  show "chunked_ids s (2 ^ 63 - 1) (step + 1) = Some ps"
  proof (cases "s < 2 ^ 63")
    case True
    define e where "e = min (s + step) (2 ^ 63 - 1)"
    from run True obtain qs where "rec (e + 1) step = Some qs" "ps = (s, e) # qs"
      unfolding Let_def e_def [symmetric] by (auto simp: bind_eq_Some_conv)
    with hyp True show ?thesis
      by (simp only:) (rule chunked_ids_Cons, simp_all add: e_def)
  next
    case False
    with run show ?thesis by (simp add: chunked_ids_Nil)
  qed
qed

lemma chunked_token_ranges:
  assumes "chunked_ids s e b = Some ps"
  shows "e = 2 ^ 63 - 1 \<longrightarrow> token_ranges s (b - 1) = Some ps"
proof (rule chunked_ids.raw_induct [OF _ assms])
  fix rec :: "int \<Rightarrow> int \<Rightarrow> int \<Rightarrow> piece list option" and s e b ps
  assume hyp: "\<And>s e b ps. rec s e b = Some ps \<Longrightarrow> e = 2 ^ 63 - 1 \<longrightarrow> token_ranges s (b - 1) = Some ps"
    and run: "(if s \<le> e
      then let j = min (s + b - 1) e in Option.bind (rec (j + 1) e b) (\<lambda>ps. Some ((s, j) # ps))
      else Some []) = Some ps"
  show "e = 2 ^ 63 - 1 \<longrightarrow> token_ranges s (b - 1) = Some ps"
  proof
    assume e: "e = 2 ^ 63 - 1"
    show "token_ranges s (b - 1) = Some ps"
    proof (cases "s \<le> e")
      case True
      define j where "j = min (s + b - 1) e"
      from run True obtain qs where qs: "rec (j + 1) e b = Some qs" "ps = (s, j) # qs"
        unfolding Let_def j_def [symmetric] by (auto simp: bind_eq_Some_conv)
      have "s < 2 ^ 63" using True e by linarith
      moreover have "j = min (s + (b - 1)) (2 ^ 63 - 1)" unfolding j_def e by (simp add: add_diff_eq)
      moreover from hyp qs(1) e have "token_ranges (j + 1) (b - 1) = Some qs" by blast
      ultimately show ?thesis unfolding qs(2) by (rule token_ranges_Cons)
    next
      case False
      with run e show ?thesis by (subst token_ranges.simps) simp
    qed
  qed
qed

lemma get_token_ranges_chunked: "get_token_ranges step = chunked_ids (- (2 ^ 63)) (2 ^ 63 - 1) (step + 1)"
proof (cases "get_token_ranges step")
  case None
  show ?thesis
  proof (cases "chunked_ids (- (2 ^ 63)) (2 ^ 63 - 1) (step + 1)")
    case (Some ps)
    from chunked_token_ranges [OF this] have "get_token_ranges step = Some ps"
      unfolding get_token_ranges_def add_diff_cancel_right' by (rule mp) (rule refl)
    with None show ?thesis by (simp only: option.distinct)
  qed (simp only: None)
next
  case (Some ps)
  with token_ranges_chunked [of "- (2 ^ 63)" step ps] show ?thesis
    by (simp only: get_token_ranges_def)
qed

lemma token_ranges_shape:
  assumes "get_token_ranges step = Some ranges"
  shows "0 \<le> step" and "\<forall>p \<in> set ranges. fst p \<le> snd p \<and> snd p \<le> fst p + step"
    and "concat (map ids ranges) = [- (2 ^ 63)..2 ^ 63 - 1]"
    and "chunks (step + 1) (- (2 ^ 63)) (2 ^ 63 - 1) = ranges"
proof -
  have chunk: "chunked_ids (- (2 ^ 63)) (2 ^ 63 - 1) (step + 1) = Some ranges"
    using assms by (simp only: get_token_ranges_chunked)
  note facts = chunked_ids_Some [OF chunk]
  have "(- (2 ^ 63) :: int) \<le> 2 ^ 63 - 1" by simp
  with conjunct1 [OF facts] show "0 \<le> step" by simp
  show "\<forall>p \<in> set ranges. fst p \<le> snd p \<and> snd p \<le> fst p + step"
    using conjunct2 [OF conjunct2 [OF facts]] by (fastforce simp: ids_def)
  show "concat (map ids ranges) = [- (2 ^ 63)..2 ^ 63 - 1]"
    by (rule conjunct1 [OF conjunct2 [OF facts]])
  show "chunks (step + 1) (- (2 ^ 63)) (2 ^ 63 - 1) = ranges" by (simp only: chunks_def chunk option.case)
qed

text \<open>
  A token is examined when the query of some range, with its values, selects the rows with that token.
\<close>

definition examined :: "piece list \<Rightarrow> int \<Rightarrow> bool" where
  "examined ranges t \<longleftrightarrow>
     (\<exists>p \<in> set ranges. selects (conditions users_in_range) (range_bounds p)
        (\<lambda>c. if c = ''TOKEN(UserID)'' then Number t else Null))"

lemma examined_bounds: "examined ranges t \<longleftrightarrow> (\<exists>p \<in> set ranges. fst p < t \<and> t \<le> snd p)"
  by (simp add: examined_def users_in_range_def range_bounds_def compares_def)

lemma examined_iff:
  assumes "get_token_ranges step = Some ranges" "- (2 ^ 63) \<le> t" "t < 2 ^ 63"
  shows "examined ranges t \<longleftrightarrow> t \<notin> fst ` set ranges"
proof -
  note shape = token_ranges_shape [OF assms(1)]
  from shape(1) have step: "1 \<le> step + 1" by simp
  from assms(3) have "t \<le> 2 ^ 63 - 1" by simp
  from batches.found [OF step assms(2) this] shape(4)
  obtain p where p: "p \<in> set ranges" "fst p \<le> t" "t \<le> snd p" by (auto simp only: ids_def set_upto atLeastAtMost_iff)
  show ?thesis
  proof
    assume "examined ranges t"
    then obtain q where q: "q \<in> set ranges" "fst q < t" "t \<le> snd q" by (auto simp: examined_bounds)
    show "t \<notin> fst ` set ranges"
    proof
      assume "t \<in> fst ` set ranges"
      then obtain r where r: "r \<in> set ranges" "fst r = t" by auto
      from q(1) r(1) obtain j k where jk: "j < length ranges" "ranges ! j = q" "k < length ranges" "ranges ! k = r"
        by (auto simp: in_set_conv_nth)
      have "t \<in> set (ids q)" "t \<in> set (ids r)" using q r shape(2) by (auto simp: ids_def)
      moreover from q(2) r(2) jk have "j < k \<or> k < j" by (metis less_irrefl linorder_neqE_nat)
      ultimately show False
        using batches.apart [OF step, of j k "- (2 ^ 63)" "2 ^ 63 - 1" t, unfolded shape(4)] jk
          batches.apart [OF step, of k j "- (2 ^ 63)" "2 ^ 63 - 1" t, unfolded shape(4)]
        by blast
    qed
  next
    assume "t \<notin> fst ` set ranges"
    with p have "fst p < t" by (metis image_eqI order_le_less)
    with p show "examined ranges t" by (auto simp: examined_bounds)
  qed
qed

subsection \<open>The table\<close>

text \<open>
  What the script relies on of the server: \<open>rows w\<close> are the (user, LastUpdated) pairs of the table,
  \<open>token u\<close> the token of a user. A \<open>SELECT\<close> lists the users of the rows its \<open>WHERE\<close> selects, in some
  order and possibly more than once, \<open>MAX\<close> is the latest of these rows and null when there is none, and
  \<open>DELETE\<close> removes them; whatever the conditions are.
\<close>

type_synonym rows = "(string \<times> int) set"

definition users :: "rows \<Rightarrow> string set" where
  "users R = fst ` R"

definition stamps :: "rows \<Rightarrow> string \<Rightarrow> int set" where
  "stamps R u = {ts. (u, ts) \<in> R}"

definition cells_of :: "(string \<Rightarrow> int) \<Rightarrow> string \<times> int \<Rightarrow> string \<Rightarrow> cell" where
  "cells_of token r c =
     (if c = ''UserID'' then Text (fst r) else if c = ''LastUpdated'' then Number (snd r)
      else if c = ''TOKEN(UserID)'' then Number (token (fst r)) else Null)"

definition latest :: "rows \<Rightarrow> cell" where
  "latest R = (if R = {} then Null else Number (Max (snd ` R)))"

definition serves :: "'w server \<Rightarrow> (string \<Rightarrow> int) \<Rightarrow> ('w \<Rightarrow> rows) \<Rightarrow> bool" where
  "serves E token rows \<longleftrightarrow>
     (\<forall>w conds cs. \<exists>w' us. E w (Execute (Select [''UserID''] TABLE conds) cs) = (Rows (map (\<lambda>u. [(''UserID'', Text u)]) us), w') \<and>
        rows w' = rows w \<and> set us = fst ` {r \<in> rows w. selects conds cs (cells_of token r)}) \<and>
     (\<forall>w conds cs. \<exists>w'. E w (Execute (Select [''MAX(LastUpdated)''] TABLE conds) cs) =
        (Rows [[(''max'', latest {r \<in> rows w. selects conds cs (cells_of token r)})]], w') \<and> rows w' = rows w) \<and>
     (\<forall>w conds cs. \<exists>w'. E w (Execute (Delete_where TABLE conds) cs) = (Ok, w') \<and>
        rows w' = {r \<in> rows w. \<not> selects conds cs (cells_of token r)}) \<and>
     (\<forall>w h p c k. \<exists>w'. E w (Connect_plain h p c k) = (Ok, w') \<and> rows w' = rows w) \<and>
     (\<forall>w q. q = Cluster_shutdown \<or> q = Session_shutdown \<or> q = Prepare newest \<or> q = Prepare delete_older \<longrightarrow>
        (\<exists>w'. E w q = (Ok, w') \<and> rows w' = rows w))"

lemmas selecting = users_in_range_def range_bounds_def newest_def delete_older_def cells_of_def compares_def

lemma serves_range:
  assumes "serves E token rows"
  obtains w' us where "E w (Execute users_in_range (range_bounds p)) = (Rows (map (\<lambda>u. [(''UserID'', Text u)]) us), w')"
    "rows w' = rows w" "set us = {u \<in> users (rows w). fst p < token u \<and> token u \<le> snd p}"
proof -
  from conjunct1 [OF assms [unfolded serves_def]] obtain w' us where
    "E w (Execute users_in_range (range_bounds p)) = (Rows (map (\<lambda>u. [(''UserID'', Text u)]) us), w')"
    "rows w' = rows w"
    "set us = fst ` {r \<in> rows w. selects [(''TOKEN(UserID)'', ''>''), (''TOKEN(UserID)'', ''<='')]
      (range_bounds p) (cells_of token r)}"
    unfolding users_in_range_def by meson
  with that show thesis by (force simp: selecting users_def)
qed

lemma latest_stamps: "latest {r \<in> R. fst r = u} = (if u \<in> users R then Number (Max (stamps R u)) else Null)"
proof -
  have "snd ` {r \<in> R. fst r = u} = stamps R u" by (force simp: stamps_def)
  moreover have "{r \<in> R. fst r = u} = {} \<longleftrightarrow> u \<notin> users R" by (force simp: users_def)
  ultimately show ?thesis by (simp add: latest_def)
qed

lemma serves_newest:
  assumes "serves E token rows"
  obtains w' where "E w (Execute newest [Text u]) =
      (Rows [[(''max'', if u \<in> users (rows w) then Number (Max (stamps (rows w) u)) else Null)]], w')"
    "rows w' = rows w"
proof -
  from conjunct1 [OF conjunct2 [OF assms [unfolded serves_def]]] obtain w' where
    "E w (Execute newest [Text u]) =
      (Rows [[(''max'', latest {r \<in> rows w. selects [(''UserID'', ''='')] [Text u] (cells_of token r)})]], w')"
    "rows w' = rows w"
    unfolding newest_def by meson
  moreover have "{r \<in> rows w. selects [(''UserID'', ''='')] [Text u] (cells_of token r)} = {r \<in> rows w. fst r = u}"
    by (simp add: selecting)
  ultimately show thesis using that by (simp add: latest_stamps)
qed

lemma serves_delete:
  assumes "serves E token rows"
  obtains w' where "E w (Execute delete_older [Text u, Number m]) = (Ok, w')"
    "rows w' = {r \<in> rows w. \<not> (fst r = u \<and> snd r < m)}"
proof -
  from conjunct1 [OF conjunct2 [OF conjunct2 [OF assms [unfolded serves_def]]]] obtain w' where
    "E w (Execute delete_older [Text u, Number m]) = (Ok, w')"
    "rows w' = {r \<in> rows w. \<not> selects [(''UserID'', ''=''), (''LastUpdated'', ''<'')] [Text u, Number m] (cells_of token r)}"
    unfolding delete_older_def by meson
  with that show thesis by (simp add: selecting)
qed

lemma serves_connect:
  assumes "serves E token rows"
  obtains w' where "E w (Connect_plain h p c k) = (Ok, w')" "rows w' = rows w"
  using conjunct1 [OF conjunct2 [OF conjunct2 [OF conjunct2 [OF assms [unfolded serves_def]]]]] by meson

lemma serves_other:
  assumes "serves E token rows"
    and "q = Cluster_shutdown \<or> q = Session_shutdown \<or> q = Prepare newest \<or> q = Prepare delete_older"
  obtains w' where "E w q = (Ok, w')" "rows w' = rows w"
proof -
  have "\<exists>w'. E w q = (Ok, w') \<and> rows w' = rows w"
    using conjunct2 [OF conjunct2 [OF conjunct2 [OF conjunct2 [OF assms(1) [unfolded serves_def]]]]] assms(2) by blast
  with that show thesis by blast
qed

text \<open>The table once the users of \<open>U\<close> are cleaned: of each, only the latest row is left.\<close>

definition cleaned :: "string set \<Rightarrow> rows \<Rightarrow> rows" where
  "cleaned U R = {r \<in> R. fst r \<in> U \<longrightarrow> snd r = Max (stamps R (fst r))}"

lemma finite_stamps: "finite R \<Longrightarrow> finite (stamps R u)"
  by (rule finite_subset [of _ "snd ` R"]) (force simp: stamps_def)+

lemma stamps_nonempty: "stamps R u \<noteq> {} \<longleftrightarrow> u \<in> users R"
  by (force simp: stamps_def users_def)

lemma cleaned_subset: "cleaned U R \<subseteq> R"
  by (auto simp: cleaned_def)

lemma stamps_cleaned: "finite R \<Longrightarrow> Max (stamps (cleaned U R) u) = Max (stamps R u)"
proof (cases "u \<in> users R \<and> u \<in> U")
  case True
  assume "finite R"
  then have "Max (stamps R u) \<in> stamps R u"
    using True by (intro Max_in) (simp_all add: finite_stamps stamps_nonempty)
  then have "stamps (cleaned U R) u = {Max (stamps R u)}"
    using True by (auto simp: stamps_def cleaned_def)
  then show ?thesis by simp
next
  case False
  then have "stamps (cleaned U R) u = stamps R u"
    by (force simp: stamps_def cleaned_def users_def)
  then show ?thesis by simp
qed

lemma users_cleaned: "finite R \<Longrightarrow> users (cleaned U R) = users R"
proof -
  assume R: "finite R"
  have "u \<in> users (cleaned U R)" if "u \<in> users R" for u
  proof -
    from that R have "Max (stamps R u) \<in> stamps R u"
      by (intro Max_in) (simp_all add: finite_stamps stamps_nonempty)
    then have "(u, Max (stamps R u)) \<in> cleaned U R" by (simp add: stamps_def cleaned_def)
    then show ?thesis by (force simp: users_def)
  qed
  then show ?thesis using cleaned_subset [of U R] by (auto simp: users_def)
qed

lemma cleaned_cleaned: "finite R \<Longrightarrow> cleaned V (cleaned U R) = cleaned (U \<union> V) R"
  using stamps_cleaned [of R U] by (auto simp: cleaned_def)

lemma cleaned_none: "cleaned {} R = R"
  by (simp add: cleaned_def)

lemma cleaned_others: "cleaned (U \<inter> users R) R = cleaned U R"
  by (force simp: cleaned_def users_def)

text \<open>Deleting what is older than the maximum cleans one user.\<close>

lemma cleaned_one:
  assumes "finite R" "u \<in> users R"
  shows "{r \<in> R. \<not> (fst r = u \<and> snd r < Max (stamps R u))} = cleaned {u} R"
proof -
  have "ts \<le> Max (stamps R u)" if "(u, ts) \<in> R" for ts
    using that assms(1) by (intro Max_ge) (simp_all add: finite_stamps, simp add: stamps_def)
  then show ?thesis by (fastforce simp: cleaned_def)
qed

lemma clean_user_run:
  assumes E: "serves E token rows" and R: "finite (rows w)" and pos: "\<forall>r \<in> rows w. snd r \<noteq> 0"
  obtains t w' where "clean_user E n (Text u) w = (t, w', Inr (n + (if u \<in> users (rows w) then 1 else 0)))"
    "rows w' = cleaned {u} (rows w)"
proof -
  obtain w1 where w1: "E w (Execute newest [Text u]) =
      (Rows [[(''max'', if u \<in> users (rows w) then Number (Max (stamps (rows w) u)) else Null)]], w1)" "rows w1 = rows w"
    by (rule serves_newest [OF E])
  show thesis
  proof (cases "u \<in> users (rows w)")
    case False
    then have "cleaned {u} (rows w) = rows w" by (force simp: cleaned_def users_def)
    with False w1 show thesis
      by (intro that [of _ w1])
        (simp_all add: clean_user_def catch_def bind_def fetch_def ask_def rows_of_def max_of_def)
  next
    case True
    let ?m = "Max (stamps (rows w) u)"
    have "?m \<in> stamps (rows w) u" using True R by (intro Max_in) (simp_all add: finite_stamps stamps_nonempty)
    with pos have "?m \<noteq> 0" by (auto simp: stamps_def)
    obtain w2 where w2: "E w1 (Execute delete_older [Text u, Number ?m]) = (Ok, w2)"
      "rows w2 = {r \<in> rows w1. \<not> (fst r = u \<and> snd r < ?m)}"
      by (rule serves_delete [OF E])
    from w2(2) w1(2) cleaned_one [OF R True] have "rows w2 = cleaned {u} (rows w)" by simp
    with True w1(1) w2(1) \<open>?m \<noteq> 0\<close> show thesis
      by (intro that)
        (simp_all add: clean_user_def catch_def seq_def bind_def fetch_def tell_def ask_def rows_of_def max_of_def)
  qed
qed

lemma clean_users_run:
  assumes E: "serves E token rows" and "finite (rows w)" and "\<forall>r \<in> rows w. snd r \<noteq> 0"
  shows "\<exists>t w' k. fold_m (\<lambda>n r. clean_user E n (case r of (c, v) # _ \<Rightarrow> v | [] \<Rightarrow> Null)) n
      (map (\<lambda>u. [(''UserID'', Text u)]) us) w = (t, w', Inr k) \<and> rows w' = cleaned (set us) (rows w)"
  using assms(2,3)
proof (induction us arbitrary: n w)
  case Nil
  then show ?case by (simp add: cleaned_none)
next
  case (Cons u us)
  obtain t1 w1 where one: "clean_user E n (Text u) w = (t1, w1, Inr (n + (if u \<in> users (rows w) then 1 else 0)))"
    "rows w1 = cleaned {u} (rows w)"
    by (rule clean_user_run [OF E Cons.prems])
  have "finite (rows w1)" "\<forall>r \<in> rows w1. snd r \<noteq> 0"
    using Cons.prems cleaned_subset [of "{u}" "rows w"] one(2) by (auto intro: finite_subset)
  from Cons.IH [OF this] obtain t2 w2 k where
    "fold_m (\<lambda>n r. clean_user E n (case r of (c, v) # _ \<Rightarrow> v | [] \<Rightarrow> Null)) (n + (if u \<in> users (rows w) then 1 else 0))
      (map (\<lambda>u. [(''UserID'', Text u)]) us) w1 = (t2, w2, Inr k)" "rows w2 = cleaned (set us) (rows w1)"
    by blast
  moreover have "cleaned (set us) (rows w1) = cleaned (set (u # us)) (rows w)"
    using cleaned_cleaned [of "rows w" "set us" "{u}"] Cons.prems(1) one(2) by simp
  ultimately show ?case using one(1) by (simp add: bind_def)
qed

definition in_range :: "(string \<Rightarrow> int) \<Rightarrow> piece \<Rightarrow> string set" where
  "in_range token p = {u. fst p < token u \<and> token u \<le> snd p}"

lemma cleanup_range_run:
  assumes E: "serves E token rows" and R: "finite (rows w)" "\<forall>r \<in> rows w. snd r \<noteq> 0"
  obtains t w' k where "cleanup_range E opts p w = (t, w', Inr k)" "rows w' = cleaned (in_range token p) (rows w)"
proof -
  note other = serves_other [OF E]
  obtain w0 where w0: "E w (Connect_plain [cleanup_hosts opts] 9042 (cleanup_auth opts) (Some KEYSPACE)) = (Ok, w0)"
    "rows w0 = rows w"
    by (rule serves_connect [OF E])
  obtain w1 where w1: "E w0 (Prepare newest) = (Ok, w1)" "rows w1 = rows w0"
    by (rule other [of "Prepare newest"]) simp_all
  obtain w2 where w2: "E w1 (Prepare delete_older) = (Ok, w2)" "rows w2 = rows w1"
    by (rule other [of "Prepare delete_older"]) simp_all
  obtain w3 us where w3: "E w2 (Execute users_in_range (range_bounds p)) =
      (Rows (map (\<lambda>u. [(''UserID'', Text u)]) us), w3)" "rows w3 = rows w2"
    "set us = {u \<in> users (rows w2). fst p < token u \<and> token u \<le> snd p}"
    by (rule serves_range [OF E])
  have same: "rows w3 = rows w" using w0 w1 w2 w3 by simp
  obtain t w4 k where w4: "fold_m (\<lambda>n r. clean_user E n (case r of (c, v) # _ \<Rightarrow> v | [] \<Rightarrow> Null)) 0
      (map (\<lambda>u. [(''UserID'', Text u)]) us) w3 = (t, w4, Inr k)" "rows w4 = cleaned (set us) (rows w3)"
    using clean_users_run [OF E, of w3 0 us] R same by auto
  obtain w5 where w5: "E w4 Cluster_shutdown = (Ok, w5)" "rows w5 = rows w4"
    by (rule other [of Cluster_shutdown]) simp_all
  obtain w6 where w6: "E w5 Session_shutdown = (Ok, w6)" "rows w6 = rows w5"
    by (rule other [of Session_shutdown]) simp_all
  have "set us = in_range token p \<inter> users (rows w)" using w3(3) w0 w1 w2 by (auto simp: in_range_def)
  then have "rows w6 = cleaned (in_range token p) (rows w)"
    using w4 w5 w6 same cleaned_others [of "in_range token p" "rows w"] by simp
  with w0 w1 w2 w3 w4 w5 w6 show thesis
    by (intro that [of _ w6 k])
      (simp_all add: cleanup_range_def connect_scylla_def seq_def bind_def tell_def fetch_def ask_def
        finally_do_def rows_of_def)
qed

lemma cleanup_ranges_run:
  assumes E: "serves E token rows" and "finite (rows w)" "\<forall>r \<in> rows w. snd r \<noteq> 0"
  shows "\<exists>t w' results. map_m (\<lambda>p. attempt (cleanup_range E opts p)) ps w = (t, w', Inr results) \<and>
    (\<exists>k. add_up n results = Inr k) \<and> rows w' = cleaned (\<Union>p \<in> set ps. in_range token p) (rows w)"
  using assms(2,3)
proof (induction ps arbitrary: w n)
  case Nil
  then show ?case by (simp add: cleaned_none)
next
  case (Cons p ps)
  obtain t1 w1 k where one: "cleanup_range E opts p w = (t1, w1, Inr k)" "rows w1 = cleaned (in_range token p) (rows w)"
    by (rule cleanup_range_run [OF E Cons.prems])
  have "finite (rows w1)" "\<forall>r \<in> rows w1. snd r \<noteq> 0"
    using Cons.prems cleaned_subset [of "in_range token p" "rows w"] one(2) by (auto intro: finite_subset)
  from Cons.IH [OF this, of "n + k"] obtain t2 w2 results k' where
    "map_m (\<lambda>p. attempt (cleanup_range E opts p)) ps w1 = (t2, w2, Inr results)" "add_up (n + k) results = Inr k'"
    "rows w2 = cleaned (\<Union>p \<in> set ps. in_range token p) (rows w1)"
    by blast
  with attempt_run [where m = "cleanup_range E opts p", OF one(1)] one(2) Cons.prems
    cleaned_cleaned [of "rows w" "\<Union>p \<in> set ps. in_range token p" "in_range token p"]
  show ?case by (simp add: bind_def)
qed

subsection \<open>Properties\<close>

text \<open>
  C32: For a step that is not negative the ranges of \<open>get_token_ranges\<close> are a partition of the tokens
  into consecutive pieces of at most \<open>step + 1\<close> tokens, none empty; but the lower bound of a range's query is
  exclusive, so that the tokens no query selects are exactly the first ones of the ranges. For a negative
  step the loop never ends.
\<close>

theorem token_ranges_miss_starts:
  "case get_token_ranges step of
     None \<Rightarrow> step < 0
   | Some ranges \<Rightarrow>
       0 \<le> step \<and> concat (map ids ranges) = [- (2 ^ 63)..2 ^ 63 - 1] \<and>
       list_all (\<lambda>p. fst p \<le> snd p \<and> snd p \<le> fst p + step) ranges \<and>
       {t \<in> {- (2 ^ 63)..<2 ^ 63}. \<not> examined ranges t} = fst ` set ranges"
proof (cases "get_token_ranges step")
  case None
  then have "chunked_ids (- (2 ^ 63)) (2 ^ 63 - 1) (step + 1) = None" by (simp only: get_token_ranges_chunked)
  then have "step + 1 \<le> 0" by (simp only: chunked_ids_None)
  with None show ?thesis by simp
next
  case (Some ranges)
  note shape = token_ranges_shape [OF Some]
  have inside: "fst ` set ranges \<subseteq> {- (2 ^ 63)..<2 ^ 63}"
  proof
    fix t assume "t \<in> fst ` set ranges"
    then obtain p where "p \<in> set ranges" "t = fst p" by auto
    with shape(2) have "t \<in> set (concat (map ids ranges))" by (auto simp: ids_def)
    then have "- (2 ^ 63) \<le> t \<and> t \<le> 2 ^ 63 - 1" by (simp only: shape(3) set_upto atLeastAtMost_iff)
    then show "t \<in> {- (2 ^ 63)..<2 ^ 63}" by auto
  qed
  have "{t \<in> {- (2 ^ 63)..<2 ^ 63}. \<not> examined ranges t} = fst ` set ranges \<inter> {- (2 ^ 63)..<2 ^ 63}"
    using examined_iff [OF Some] by (auto simp only: atLeastLessThan_iff)
  with inside have "{t \<in> {- (2 ^ 63)..<2 ^ 63}. \<not> examined ranges t} = fst ` set ranges" by (simp only: Int_absorb2)
  with Some shape(1,3) shape(2) show ?thesis by (simp only: option.case list_all_iff simp_thms)
qed

text \<open>
  C33: A run of the cleanup ends normally and leaves, of every user whose token is not the first of a range,
  exactly the row with the latest \<open>LastUpdated\<close>; all other rows are untouched. No user ever loses the latest row.
\<close>

theorem cleanup_keeps_latest:
  assumes "serves E token rows" and "finite (rows w)" and "\<forall>r \<in> rows w. snd r \<noteq> 0"
    and "get_token_ranges (token_step opts) = Some ranges"
    and "\<forall>u. - (2 ^ 63) \<le> token u \<and> token u < 2 ^ 63" and "1 \<le> parallelism opts"
  shows "(\<exists>k. result (cleanup_main E opts) w = Inr k) \<and>
    rows (final (cleanup_main E opts) w) =
      {r \<in> rows w. token (fst r) \<notin> fst ` set ranges \<longrightarrow> snd r = Max (stamps (rows w) (fst r))}"
proof -
  obtain t w' results k where run: "map_m (\<lambda>p. attempt (cleanup_range E opts p)) ranges w = (t, w', Inr results)"
    "add_up 0 results = Inr k" "rows w' = cleaned (\<Union>p \<in> set ranges. in_range token p) (rows w)"
    using cleanup_ranges_run [OF assms(1-3), of opts ranges 0] by blast
  have "u \<in> (\<Union>p \<in> set ranges. in_range token p) \<longleftrightarrow> token u \<notin> fst ` set ranges" for u
    using examined_iff [OF assms(4), of "token u"] assms(5) by (auto simp: examined_bounds in_range_def)
  then have "rows w' = {r \<in> rows w. token (fst r) \<notin> fst ` set ranges \<longrightarrow> snd r = Max (stamps (rows w) (fst r))}"
    by (simp only: run(3) cleaned_def)
  then show ?thesis
    using run(1,2) assms(6) by (simp add: cleanup_main_def assms(4) result_def final_def bind_def)
qed

text \<open>A table as a list of pairs; every user has the given token.\<close>

definition table_server :: "(string \<Rightarrow> int) \<Rightarrow> (string \<times> int) list server" where
  "table_server token w q =
     (case q of
        Execute s cs \<Rightarrow>
          (let chosen = filter (\<lambda>r. selects (conditions s) cs (cells_of token r)) w in
           case s of
             Select cols table conds \<Rightarrow>
               (if cols = [''UserID''] then (Rows (map (\<lambda>r. [(''UserID'', Text (fst r))]) chosen), w)
                else (Rows [[(''max'', latest (set chosen))]], w))
           | Delete_where table conds \<Rightarrow> (Ok, filter (\<lambda>r. \<not> selects conds cs (cells_of token r)) w)
           | _ \<Rightarrow> (Ok, w))
      | _ \<Rightarrow> (Ok, w))"

lemma table_server_serves: "serves (table_server token) token set"
proof -
  have "\<exists>us. map (\<lambda>r. [(''UserID'', Text (fst r))]) (filter P w) = map (\<lambda>u. [(''UserID'', Text u)]) us \<and>
      set us = fst ` {r \<in> set w. P r}" for P :: "string \<times> int \<Rightarrow> bool" and w
    by (rule exI [of _ "map fst (filter P w)"]) simp
  then show ?thesis
    by (auto simp: serves_def table_server_def)
qed

definition some_cleanup :: cleanup_args where
  "some_cleanup = cleanup_defaults\<lparr>token_step := 2 ^ 63\<rparr>"

lemma some_ranges: "get_token_ranges (2 ^ 63) = Some [(- (2 ^ 63), 0), (1, 2 ^ 63 - 1)]"
  unfolding get_token_ranges_def
  by (subst token_ranges.simps, simp, subst token_ranges.simps, simp, subst token_ranges.simps, simp)

theorem cleanup_keeps_latest_witness:
  "set (final (cleanup_main (table_server (\<lambda>u. int (length u) mod 1000)) some_cleanup)
      [(''ab'', 1), (''ab'', 3), (''c'', 1), (''c'', 2)]) = {(''ab'', 3), (''c'', 1), (''c'', 2)}"
proof -
  let ?w = "[(''ab'', 1), (''ab'', 3), (''c'', 1), (''c'', 2)] :: (string \<times> int) list"
  have "stamps (set ?w) ''ab'' = {1, 3}" by (auto simp: stamps_def)
  then have max: "Max (stamps (set ?w) ''ab'') = 3" by simp
  have bound: "- (2 ^ 63) \<le> int (length u) mod 1000 \<and> int (length u) mod 1000 < 2 ^ 63" for u :: string
  proof -
    have "0 \<le> int (length u) mod 1000" "int (length u) mod 1000 < 1000" "(1000 :: int) < 2 ^ 63" by simp_all
    then show ?thesis by (intro conjI) linarith+
  qed
  have ranges: "get_token_ranges (token_step some_cleanup) = Some [(- (2 ^ 63), 0), (1, 2 ^ 63 - 1)]"
  proof -
    have "token_step some_cleanup = 2 ^ 63" by (simp add: some_cleanup_def)
    then show ?thesis by (simp only: some_ranges)
  qed
  have "set (final (cleanup_main (table_server (\<lambda>u. int (length u) mod 1000)) some_cleanup) ?w) =
      {r \<in> set ?w. int (length (fst r)) mod 1000 \<notin> fst ` set [(- (2 ^ 63), 0), (1, 2 ^ 63 - 1 :: int)] \<longrightarrow>
         snd r = Max (stamps (set ?w) (fst r))}"
    by (rule conjunct2 [OF cleanup_keeps_latest [OF table_server_serves _ _ ranges]])
      (use bound in \<open>auto simp: some_cleanup_def cleanup_defaults_def\<close>)
  also have "\<dots> = {(''ab'', 3), (''c'', 1), (''c'', 2)}"
  proof -
    have "fst ` set [(- (2 ^ 63), 0), (1, 2 ^ 63 - 1 :: int)] = {- 9223372036854775808, 1 :: int}" by simp
    then show ?thesis by (simp only:) (use max in auto)
  qed
  finally show ?thesis .
qed

end
