(* ===== verification/Serial.thy ===== *)
theory Serial
  imports Loader Cql "HOL-Library.Multiset"
begin

text \<open>
  The loaders that insert one row at a time: \<open>sample_app/slow_loader.py\<close>, whose table is keyed like the
  parallel loader's, and \<open>sample_app/tombstone.py\<close>, which writes every row to one key.
\<close>

subsection \<open>slow_loader.py\<close>

record slow_args =
  slow_connection :: connection_args
  slow_keyspace :: string
  slow_table :: string
  slow_rows :: int
  slow_drop :: bool
  slow_level :: string
  slow_buckets :: int

definition slow_defaults :: "(string \<Rightarrow> string option) \<Rightarrow> slow_args" where
  "slow_defaults environ =
     \<lparr>slow_connection = add_connection_args environ, slow_keyspace = ''mykeyspace'',
      slow_table = ''mySlowTable'', slow_rows = 10000, slow_drop = False,
      slow_level = ''LOCAL_QUORUM'', slow_buckets = 256\<rparr>"

definition slow_cli :: "slow_args cli" where
  "slow_cli =
     \<lparr>cli_options =
        help_option # part_options slow_connection_update connection_options @
        [([''-k'', ''--keyspace''], text_value slow_keyspace_update),
         ([''-t'', ''--table''], text_value slow_table_update),
         ([''-r'', ''--row_count''], int_value slow_rows_update),
         ([''-d'', ''--drop''], switch slow_drop_update),
         ([''--cl''], text_value slow_level_update),
         ([''--buckets''], int_value slow_buckets_update)],
      positional = No_positional, complete = (\<lambda>_. True)\<rparr>"

definition parse_slow_args :: "(string \<Rightarrow> string option) \<Rightarrow> string list \<Rightarrow> exn + slow_args" where
  "parse_slow_args environ argv = parse_command_line slow_cli (slow_defaults environ) argv"

definition num_buckets :: "slow_args \<Rightarrow> int" where
  "num_buckets opts = max 1 (slow_buckets opts)"

definition slow_columns :: "(string \<times> string) list" where
  "slow_columns =
     [(''bucket'', ''int''), (''id'', ''int''), (''ssn'', ''text''), (''imei'', ''text''),
      (''os'', ''text''), (''phonenum'', ''text''), (''balance'', ''float''), (''pdate'', ''date''),
      (''v1'', ''text''), (''v2'', ''text''), (''v3'', ''text''), (''v4'', ''text''), (''v5'', ''text'')]"

definition slow_schema :: "'w server \<Rightarrow> slow_args \<Rightarrow> ('w, unit) script" where
  "slow_schema E opts =
     seq (tell E (Execute (Create_keyspace (slow_keyspace opts)
            \<lparr>strategy = ''NetworkTopologyStrategy'', replication_factor = 3, tablets_enabled = Some ''true''\<rparr>) []))
         (tell E (Execute (Create_table (table_in (slow_keyspace opts) (slow_table opts))
            \<lparr>columns = slow_columns, partition_key = [''bucket''], clustering_key = [(''id'', True)],
             with_options = [COMPRESSION]\<rparr>) []))"

definition slow_insert :: "slow_args \<Rightarrow> statement" where
  "slow_insert opts =
     Insert (table_in (slow_keyspace opts) (slow_table opts)) (map fst slow_columns) [(''TIMESTAMP'', ''?'')]"

text \<open>
  The draws for one row, and the sentences of its five messages. The write time is the clock in
  milliseconds.
\<close>

record slow_draws =
  row_draws :: draws
  paragraphs :: "nat \<Rightarrow> string list"

definition slow_messages :: "slow_draws \<Rightarrow> string list option" where
  "slow_messages d = those (map (\<lambda>j. message (row_draws d\<lparr>sentences := paragraphs d j\<rparr>)) [0..<5])"

text \<open>Its copies of the date functions, and the date of a row.\<close>

definition strTimeProp :: "time_zone \<Rightarrow> string \<Rightarrow> string \<Rightarrow> rat \<Rightarrow> string py" where
  "strTimeProp zone start stop prop = str_time_prop zone start stop prop"

definition randomDate :: "time_zone \<Rightarrow> string \<Rightarrow> string \<Rightarrow> rat \<Rightarrow> string py" where
  "randomDate zone start stop prop = strTimeProp zone start stop prop"

definition slow_pdate :: "draws \<Rightarrow> string" where
  "slow_pdate d =
     (case randomDate (zone_of d) ''2019-01-01'' ''2019-04-01'' (date_prop d) of Inl e \<Rightarrow> [] | Inr s \<Rightarrow> s)"

lemma slow_pdate_eq: "slow_pdate d = pdate d"
  by (simp add: slow_pdate_def pdate_def randomDate_def strTimeProp_def random_date_def)

definition slow_row :: "slow_draws \<Rightarrow> int \<Rightarrow> int \<Rightarrow> int \<Rightarrow> cell list option" where
  "slow_row d i buckets timestamp =
     map_option (\<lambda>v.
         [Number (bucket_of i buckets), Number i, Text (dashed (ssn_parts (row_draws d))),
          Text (dec_int (imei (row_draws d))), Text (OS_NAMES ! os_index (row_draws d)),
          Text (dashed (phone_parts (row_draws d))), Real (balance (row_draws d)),
          Text (slow_pdate (row_draws d))] @ map Text v @ [Number timestamp])
       (slow_messages d)"

definition insert_one :: "'w server \<Rightarrow> slow_args \<Rightarrow> (int \<Rightarrow> slow_draws) \<Rightarrow> int \<Rightarrow> ('w, unit) script" where
  "insert_one E opts fake i =
     bind (number E Time_now) (\<lambda>micros.
       case slow_row (fake i) i (num_buckets opts) (micros div 1000) of
         None \<Rightarrow> halt Out_of_fuel
       | Some row \<Rightarrow> tell E (Execute (slow_insert opts) row))"

text \<open>\<open>while i < row_count: ...; i += 1; ...\<close>, where the body uses \<open>i\<close> after the increment.\<close>

function while_rows :: "(int \<Rightarrow> ('w, unit) script) \<Rightarrow> int \<Rightarrow> int \<Rightarrow> ('w, int) script" where
  "while_rows body i rows =
     (if i < rows then seq (body (i + 1)) (while_rows body (i + 1) rows) else ret i)"
  by pat_completeness auto
termination
  by (relation "measure (\<lambda>(body, i, rows). nat (rows - i))") auto

declare while_rows.simps [simp del]

definition slow_insert_data :: "'w server \<Rightarrow> machine \<Rightarrow> slow_args \<Rightarrow> (int \<Rightarrow> slow_draws) \<Rightarrow> ('w, int) script" where
  "slow_insert_data E m opts fake =
     seq (slow_schema E opts)
    (seq (tell E (Prepare (slow_insert opts)))
    (bind (lift (level m (slow_level opts))) (\<lambda>cl.
     while_rows (insert_one E opts fake) 0 (slow_rows opts))))"

definition slow_main :: "'w server \<Rightarrow> machine \<Rightarrow> slow_args \<Rightarrow> (int \<Rightarrow> slow_draws) \<Rightarrow> ('w, int) script" where
  "slow_main E m opts fake =
     (case resolve_connection (files_of m) (slow_connection opts) of
        Inl e \<Rightarrow> raise e
      | Inr resolved \<Rightarrow>
          seq (catch ordinary
                (seq (open_session E m (target_of (slow_connection opts) resolved))
                     (if slow_drop opts
                      then tell E (Execute (Drop_keyspace (slow_keyspace opts)) []) else ret ()))
                (\<lambda>_. raise (SystemExit 1)))
         (bind (slow_insert_data E m opts fake) (\<lambda>i.
          seq (tell E Session_shutdown) (seq (tell E Cluster_shutdown) (ret i)))))"

definition slow_process ::
    "'w server \<Rightarrow> machine \<Rightarrow> (string \<Rightarrow> string option) \<Rightarrow> string list \<Rightarrow> (int \<Rightarrow> slow_draws) \<Rightarrow> ('w, int) script" where
  "slow_process E m environ argv fake = with_args (parse_slow_args environ argv) (\<lambda>opts. slow_main E m opts fake)"

subsection \<open>tombstone.py\<close>

record tombstone_args =
  stone_connection :: connection_args
  stone_keyspace :: string
  stone_rows :: int

definition stone_defaults :: "(string \<Rightarrow> string option) \<Rightarrow> tombstone_args" where
  "stone_defaults environ =
     \<lparr>stone_connection = add_connection_args environ, stone_keyspace = ''mykeyspace'', stone_rows = 10000\<rparr>"

definition stone_cli :: "tombstone_args cli" where
  "stone_cli =
     \<lparr>cli_options =
        help_option # part_options stone_connection_update connection_options @
        [([''-k'', ''--keyspace''], text_value stone_keyspace_update),
         ([''-r'', ''--row_count''], int_value stone_rows_update)],
      positional = No_positional, complete = (\<lambda>_. True)\<rparr>"

definition parse_stone_args :: "(string \<Rightarrow> string option) \<Rightarrow> string list \<Rightarrow> exn + tombstone_args" where
  "parse_stone_args environ argv = parse_command_line stone_cli (stone_defaults environ) argv"

definition stone_schema :: "'w server \<Rightarrow> tombstone_args \<Rightarrow> string \<Rightarrow> string \<times> string \<Rightarrow> ('w, unit) script" where
  "stone_schema E opts table compression =
     seq (tell E (Execute (Create_keyspace (stone_keyspace opts)
            \<lparr>strategy = ''org.apache.cassandra.locator.NetworkTopologyStrategy'', replication_factor = 3,
             tablets_enabled = Some ''true''\<rparr>) []))
    (seq (tell E (Execute (Drop_table (table_in (stone_keyspace opts) table)) []))
         (tell E (Execute (Create_table (table_in (stone_keyspace opts) table)
            \<lparr>columns = [(''a'', ''int''), (''b'', ''int''), (''c'', ''int'')], partition_key = [''a''],
             clustering_key = [], with_options = [compression]\<rparr>) [])))"

definition stone_insert :: "tombstone_args \<Rightarrow> string \<Rightarrow> statement" where
  "stone_insert opts table = Insert (table_in (stone_keyspace opts) table) [''a'', ''b'', ''c''] []"

text \<open>The body of the loop, by the value of \<open>i\<close> after its increment.\<close>

definition stone_row :: "int \<Rightarrow> cell list" where
  "stone_row i = [Number 1, Number (i - 1), Number (i - 1)]"

definition stone_insert_data ::
    "'w server \<Rightarrow> tombstone_args \<Rightarrow> string \<Rightarrow> string \<times> string \<Rightarrow> ('w, int) script" where
  "stone_insert_data E opts table compression =
     seq (stone_schema E opts table compression)
    (seq (tell E (Prepare (stone_insert opts table)))
         (while_rows (\<lambda>i. tell E (Execute (stone_insert opts table) (stone_row i))) 0 (stone_rows opts)))"

definition stone_main :: "'w server \<Rightarrow> machine \<Rightarrow> tombstone_args \<Rightarrow> ('w, unit) script" where
  "stone_main E m opts =
     (case resolve_connection (files_of m) (stone_connection opts) of
        Inl e \<Rightarrow> raise e
      | Inr resolved \<Rightarrow>
          seq (open_session E m (target_of (stone_connection opts) resolved))
         (seq (for_each (\<lambda>(t, c). bind (stone_insert_data E opts t c) (\<lambda>_. ret ()))
                 [(''myTable'', (''sstable_compression'', ''ZstdCompressor''))])
              (tell E Cluster_shutdown)))"

definition stone_process ::
    "'w server \<Rightarrow> machine \<Rightarrow> (string \<Rightarrow> string option) \<Rightarrow> string list \<Rightarrow> ('w, unit) script" where
  "stone_process E m environ argv = with_args (parse_stone_args environ argv) (stone_main E m)"

subsection \<open>What is written\<close>

text \<open>The rows a run executes a statement with, in order.\<close>

fun written_by :: "statement \<Rightarrow> event \<Rightarrow> cell list list" where
  "written_by s (Execute s' cs, a) = (if s = s' then [cs] else [])"
| "written_by s (q, a) = []"

definition written :: "statement \<Rightarrow> event list \<Rightarrow> cell list list" where
  "written s t = concat (map (written_by s) t)"

lemma written_simps [simp]:
  "written s [] = []"
  "written s (e # t) = written_by s e @ written s t"
  "written s (t @ t') = written s t @ written s t'"
  by (simp_all add: written_def)

lemma while_rows_Inr:
  assumes "while_rows body i rows w = (t, w', Inr k)"
    and "\<And>j w t w'. body j w = (t, w', Inr ()) \<Longrightarrow> map f (written s t) = [g j]"
  shows "map f (written s t) = map g [i + 1..rows] \<and> k = max i rows"
  using assms(1)
proof (induction "nat (rows - i)" arbitrary: i w t rule: less_induct)
  case less
  show ?case
  proof (cases "i < rows")
    case False
    with less.prems show ?thesis by (simp add: while_rows.simps)
  next
    case True
    with less.prems obtain t1 w1 t2 where run: "body (i + 1) w = (t1, w1, Inr ())"
      "while_rows body (i + 1) rows w1 = (t2, w', Inr k)" "t = t1 @ t2"
      by (subst (asm) while_rows.simps) (auto elim: seq_InrE)
    from True have "[i + 1..rows] = (i + 1) # [i + 1 + 1..rows]" by (simp add: upto_rec1)
    with less.hyps [OF _ run(2)] True assms(2) [OF run(1)] run(3) show ?thesis by auto
  qed
qed

text \<open>Requests other than the insertions of a statement.\<close>

fun besides :: "statement \<Rightarrow> request \<Rightarrow> bool" where
  "besides s (Execute s' cs) = (s \<noteq> s')"
| "besides s q = True"

interpretation writes: observing "written_by s" "besides s" for s
proof
  show "besides s q \<Longrightarrow> written_by s (q, a) = []" for q a by (cases q) auto
qed

lemmas besides_run = writes.unobserved [folded written_def]
lemmas for_each_writes = writes.for_each_observed [folded written_def]
lemmas for_each_rows = for_each_writes [where f = id, unfolded list.map_id]
lemmas fold_writes = writes.fold_observed [folded written_def]

lemma besides_open_session [intro!]: "obeys (asks (besides s)) (open_session E m c)"
  unfolding open_session_def by (intro asks_build) simp_all

lemma idle_open_session: "obeys (asks (\<lambda>q. \<not> executes q)) (open_session E m c)"
  unfolding open_session_def by (intro asks_build) simp_all

subsection \<open>The pool of the parallel loader\<close>

text \<open>What is submitted does not depend on the order of the requests.\<close>

lemma submitted_mset: "mset u = mset t \<Longrightarrow> mset (submitted u) = mset (submitted t)"
proof -
  have "mset (submitted t) = (\<Sum>e \<in># mset t. mset (batch_keys e))" for t
    by (induction t) (simp_all add: submitted_def)
  then show "mset u = mset t \<Longrightarrow> mset (submitted u) = mset (submitted t)" by simp
qed

text \<open>
  The processes of the pool run at the same time: each makes a run of its own, whose answers may depend on
  all that the others do (so any server may be behind them), and the requests of the runs are sent in any
  order that keeps the order of each. \<open>insert_data_parallel\<close> is the schedule that runs one worker after
  the other; every other schedule submits the same and gives the same totals.
\<close>

fun interleavings :: "'a list list \<Rightarrow> 'a list set" where
  "interleavings [] = {[]}"
| "interleavings (t # ts) = (\<Union>u \<in> interleavings ts. shuffles t u)"

lemma mset_interleavings: "u \<in> interleavings ts \<Longrightarrow> mset u = mset (concat ts)"
  by (induction ts arbitrary: u) (auto simp: mset_shuffles)

lemma concurrent_pool:
  assumes "list_all2 (\<lambda>job (t, r). \<exists>(E :: nat server) w w'.
      attempt (worker_insert_range E m c k tb cl fake b off n job) w = (t, w', Inr r)) js runs"
    and "totals sofar (map snd runs) = Inr sofar'"
    and "u \<in> interleavings (map fst runs)"
  shows "mset (submitted u) = mset (map (row_key off n) (concat (map (ids \<circ> snd) js))) \<and>
    fst sofar' = fst sofar + int (length (concat (map (ids \<circ> snd) js)))"
proof -
  from assms(1,2) have "submitted (concat (map fst runs)) = map (row_key off n) (concat (map (ids \<circ> snd) js)) \<and>
    fst sofar' = fst sofar + int (length (concat (map (ids \<circ> snd) js)))"
  proof (induction arbitrary: sofar rule: list_all2_induct)
    case Nil
    then show ?case by (simp add: submitted_def)
  next
    case (Cons job js run runs)
    obtain i s e where job: "job = (i, s, e)" by (cases job)
    from Cons.prems obtain t i' cnt failed where run: "run = (t, Inr (i', cnt, failed))"
      by (cases run, cases "snd run") auto
    with Cons.hyps(1) obtain E w w' where
      "worker_insert_range (E :: nat server) m c k tb cl fake b off n (i, s, e) w = (t, w', Inr (i', cnt, failed))"
      unfolding job by (auto dest: attempt_Inr)
    note worker = worker_Inr [OF this]
    from Cons.prems run have "totals (fst sofar + cnt, snd sofar + failed) (map snd runs) = Inr sofar'" by simp
    from Cons.IH [OF this] worker show ?case by (simp add: run job ids_def)
  qed
  with submitted_mset [OF mset_interleavings [OF assms(3)]] show ?thesis by simp
qed

lemma slow_messages_shape: "slow_messages d = Some v \<Longrightarrow> length v = 5 \<and> list_all (\<lambda>s. length s = 200) v"
  using length_message
  by (fastforce simp: slow_messages_def upt_rec numeral_eq_Suc split: option.splits)

definition slow_key :: "slow_args \<Rightarrow> int \<Rightarrow> int \<times> int" where
  "slow_key opts i = row_key 0 (num_buckets opts) i"

lemma insert_one_Inr:
  assumes "insert_one E opts fake i w = (t, w', Inr ())"
  shows "map key_of (written (slow_insert opts) t) = [slow_key opts i]"
  using assms
  by (auto simp: insert_one_def script_runs slow_row_def key_of_def slow_key_def row_key_def
      split: option.splits)

lemma slow_insert_data_Inr:
  assumes "slow_insert_data E m opts fake w = (t, w', Inr k)"
  shows "map key_of (written (slow_insert opts) t) = map (slow_key opts) [1..slow_rows opts] \<and>
    k = max 0 (slow_rows opts)"
proof -
  from assms obtain t1 w1 t2 w2 t3 u v where schema: "slow_schema E opts w = (t1, w1, Inr u)"
    and prep: "tell E (Prepare (slow_insert opts)) w1 = (t2, w2, Inr v)"
    and loop: "while_rows (insert_one E opts fake) 0 (slow_rows opts) w2 = (t3, w', Inr k)"
    and t: "t = t1 @ t2 @ t3"
    unfolding slow_insert_data_def by (auto elim!: seq_InrE bind_InrE simp: lift_Inr_iff)
  have "written (slow_insert opts) t1 = []" "written (slow_insert opts) t2 = []"
    using schema prep by (auto simp: slow_schema_def script_runs slow_insert_def)
  with while_rows_Inr [OF loop insert_one_Inr] show ?thesis by (simp add: t)
qed

lemma slow_main_Inr:
  assumes "slow_main E m opts fake w = (t, w', Inr k)"
  obtains t1 w1 w2 where "slow_insert_data E m opts fake w1 = (t1, w2, Inr k)"
    "written (slow_insert opts) t = written (slow_insert opts) t1"
proof -
  from assms obtain resolved where
    run: "seq (catch ordinary
                (seq (open_session E m (target_of (slow_connection opts) resolved))
                     (if slow_drop opts
                      then tell E (Execute (Drop_keyspace (slow_keyspace opts)) []) else ret ()))
                (\<lambda>_. raise (SystemExit 1)))
         (bind (slow_insert_data E m opts fake) (\<lambda>i.
          seq (tell E Session_shutdown) (seq (tell E Cluster_shutdown) (ret i)))) w = (t, w', Inr k)"
    unfolding slow_main_def by (auto split: sum.splits)
  let ?open = "catch ordinary
                (seq (open_session E m (target_of (slow_connection opts) resolved))
                     (if slow_drop opts
                      then tell E (Execute (Drop_keyspace (slow_keyspace opts)) []) else ret ()))
                (\<lambda>_. raise (SystemExit 1))"
  from run obtain t1 w1 u t2 where start: "?open w = (t1, w1, Inr u)"
    and rest: "bind (slow_insert_data E m opts fake) (\<lambda>i.
          seq (tell E Session_shutdown) (seq (tell E Cluster_shutdown) (ret i))) w1 = (t2, w', Inr k)"
    and t: "t = t1 @ t2"
    by (rule seq_InrE)
  from rest obtain t3 w3 t4 where ins: "slow_insert_data E m opts fake w1 = (t3, w3, Inr k)"
    and close: "seq (tell E Session_shutdown) (seq (tell E Cluster_shutdown) (ret k)) w3 = (t4, w', Inr k)"
    and t2: "t2 = t3 @ t4"
    by (auto simp: script_runs)
  from close have closing: "written (slow_insert opts) t4 = []" by (auto simp: script_runs)
  have "obeys (asks (besides (slow_insert opts))) ?open"
    by (intro asks.obeys_catch asks.obeys_seq besides_open_session asks.obeys_if asks_tell
        asks.obeys_ret asks.obeys_raise) (simp add: slow_insert_def)
  from besides_run [OF this start] closing show thesis
    by (intro that [OF ins]) (simp add: t t2)
qed

subsection \<open>Properties\<close>

text \<open>
  C28: The two loaders agree: run to the end with the same number of rows and buckets and no offset, the
  serial loader has executed one insertion for each key the parallel loader submits and for no other, no
  key is submitted twice, and both report the same number of rows. The pool's processes run at the same
  time: the claim is about \<open>u\<close>, the requests of the parallel loader in whatever order they were sent
  (\<open>concurrent_pool\<close> says the same of every interleaving of the runs of its workers).
\<close>

theorem loaders_agree:
  assumes "slow_main E m opts fake w = (t, w', Inr k)"
    and "loader_main E\<^sub>1 m\<^sub>1 load fake\<^sub>1 w\<^sub>1 = (t\<^sub>1, w\<^sub>1', Inr (cnt, failed))"
    and sent: "mset u = mset t\<^sub>1"
    and "0 \<le> slow_rows opts" "slow_rows opts < 2 ^ 53"
    and same: "arg_row_count load = slow_rows opts" "arg_offset load = 0" "arg_buckets load = slow_buckets opts"
  shows "mset (map key_of (written (slow_insert opts) t)) = mset (submitted u) \<and>
    distinct (submitted u) \<and> k = cnt"
proof -
  from assms(1) obtain t2 w1 w2 where slow: "slow_insert_data E m opts fake w1 = (t2, w2, Inr k)"
    "written (slow_insert opts) t = written (slow_insert opts) t2"
    by (rule slow_main_Inr)
  from assms(2) obtain c w3 t3 where fast: "insert_data_parallel E\<^sub>1 m\<^sub>1 c load fake\<^sub>1 w3 = (t3, w\<^sub>1', Inr (cnt, failed))"
    and t3: "submitted t\<^sub>1 = submitted t3" and n: "1 \<le> arg_buckets load"
    by (rule loader_main_Inr)
  have "slow_key opts = row_key 0 (arg_buckets load)"
    using n same by (simp add: fun_eq_iff slow_key_def num_buckets_def)
  with slow_insert_data_Inr [OF slow(1)] insert_data_parallel_Inr [OF fast] assms(4,5) same slow(2) t3
  have "map key_of (written (slow_insert opts) t) = submitted t\<^sub>1 \<and> k = cnt"
    and keys: "submitted t\<^sub>1 = map (row_key 0 (arg_buckets load)) [1..arg_row_count load]"
    by simp_all
  moreover have bag: "mset (submitted u) = mset (submitted t\<^sub>1)" by (rule submitted_mset [OF sent])
  moreover from bag have "distinct (submitted u) \<longleftrightarrow> distinct (submitted t\<^sub>1)"
    by (metis distinct_count_atmost_1 set_mset_mset)
  moreover have "distinct (submitted t\<^sub>1)"
    by (simp add: keys distinct_map inj_on_def row_key_def)
  ultimately show ?thesis by simp
qed

definition some_slow_draws :: slow_draws where
  "some_slow_draws = \<lparr>row_draws = some_draws, paragraphs = (\<lambda>_. sentences some_draws)\<rparr>"

definition some_slow_args :: slow_args where
  "some_slow_args = (slow_defaults (\<lambda>_. None))\<lparr>slow_rows := 2\<rparr>"

lemma some_slow_load: "result (slow_main quiet_server some_machine some_slow_args (\<lambda>_. some_slow_draws)) () = Inr 2"
  by code_simp

theorem loaders_agree_witness:
  "mset (map key_of (written (slow_insert some_slow_args)
      (trace_of (slow_main quiet_server some_machine some_slow_args (\<lambda>_. some_slow_draws)) ()))) =
   mset (submitted (rev (trace_of (loader_main quiet_server some_machine some_loader_args (\<lambda>_. some_draws)) ())))"
  using loaders_agree [OF run_Inr [OF some_slow_load] run_Inr [OF some_load] mset_rev]
  by (simp add: some_slow_args_def slow_defaults_def some_loader_args_def loader_defaults_def)

subsection \<open>The table the tombstones leave\<close>

lemma stone_insert_data_Inr:
  assumes "stone_insert_data E opts table compression w = (t, w', Inr k)"
  shows "written (stone_insert opts table) t = map stone_row [1..stone_rows opts]"
proof -
  from assms obtain t1 w1 t2 w2 t3 u v where schema: "stone_schema E opts table compression w = (t1, w1, Inr u)"
    and prep: "tell E (Prepare (stone_insert opts table)) w1 = (t2, w2, Inr v)"
    and loop: "while_rows (\<lambda>i. tell E (Execute (stone_insert opts table) (stone_row i))) 0 (stone_rows opts) w2
      = (t3, w', Inr k)" and t: "t = t1 @ t2 @ t3"
    unfolding stone_insert_data_def by (auto elim!: seq_InrE)
  have "written (stone_insert opts table) t1 = []" "written (stone_insert opts table) t2 = []"
    using schema prep by (auto simp: stone_schema_def script_runs stone_insert_def)
  moreover have "map id (written (stone_insert opts table) t3) = map stone_row [0 + 1..stone_rows opts]"
    by (rule conjunct1 [OF while_rows_Inr [OF loop]]) (auto simp: tell_Inr)
  ultimately show ?thesis by (simp add: t)
qed

text \<open>What every pass of the loop keeps of the tables holds after it.\<close>

lemma while_rows_tables:
  assumes "while_rows body i rows w = (t, w', Inr k)" and "P i T"
    and "\<And>j w t w' T. P j T \<Longrightarrow> i \<le> j \<Longrightarrow> body (j + 1) w = (t, w', Inr ()) \<Longrightarrow> P (j + 1) (tables_after t T)"
  shows "P (max i rows) (tables_after t T)"
  using assms
proof (induction "nat (rows - i)" arbitrary: i w t T rule: less_induct)
  case less
  show ?case
  proof (cases "i < rows")
    case False
    with less.prems show ?thesis by (simp add: while_rows.simps max_def)
  next
    case True
    with less.prems(1) obtain t1 w1 t2 where run: "body (i + 1) w = (t1, w1, Inr ())"
      "while_rows body (i + 1) rows w1 = (t2, w', Inr k)" "t = t1 @ t2"
      by (subst (asm) while_rows.simps) (auto elim: seq_InrE)
    have "P (i + 1) (tables_after t1 T)" by (rule less.prems(3) [OF less.prems(2) order_refl run(1)])
    from less.hyps [OF _ run(2) this] less.prems(3) True run(3) show ?thesis by simp
  qed
qed

definition stone_stored :: "tombstone_args \<Rightarrow> string \<Rightarrow> int \<Rightarrow> tables \<Rightarrow> bool" where
  "stone_stored opts table i T \<longleftrightarrow>
     (\<exists>spec. primary_key spec = [''a''] \<and>
        T (table_in (stone_keyspace opts) table) =
          Some (spec, if i \<le> 0 then [] else [zip [''a'', ''b'', ''c''] (stone_row i)]))"

lemma stone_row_stored:
  assumes "stone_stored opts table j T" and "0 \<le> j"
    and "tell E (Execute (stone_insert opts table) (stone_row (j + 1))) w = (t, w', Inr ())"
  shows "stone_stored opts table (j + 1) (tables_after t T)"
proof -
  from assms(3) obtain a where "t = [(Execute (stone_insert opts table) (stone_row (j + 1)), a)]" "\<forall>e. a \<noteq> Raised e"
    by (auto simp: tell_Inr)
  with assms(1,2) show ?thesis
    by (auto simp: applied_execute stone_stored_def stone_insert_def stone_row_def upsert_def key_in_def
        overwrite_def)
qed

lemma stone_insert_data_tables:
  assumes "stone_insert_data E opts table compression w = (t, w', Inr k)"
  shows "stone_stored opts table (max 0 (stone_rows opts)) (tables_after t T)"
proof -
  from assms obtain t1 w1 t2 w2 t3 u v where schema: "stone_schema E opts table compression w = (t1, w1, Inr u)"
    and prep: "tell E (Prepare (stone_insert opts table)) w1 = (t2, w2, Inr v)"
    and loop: "while_rows (\<lambda>i. tell E (Execute (stone_insert opts table) (stone_row i))) 0 (stone_rows opts) w2
      = (t3, w', Inr k)" and t: "t = t1 @ t2 @ t3"
    unfolding stone_insert_data_def by (auto elim!: seq_InrE)
  from schema have "stone_stored opts table 0 (tables_after t1 T)"
    by (auto simp: stone_schema_def script_runs applied_execute stone_stored_def primary_key_def)
  moreover from prep have "tables_after t2 T' = T'" for T' by (auto simp: tell_Inr applied_idle)
  ultimately have "stone_stored opts table 0 (tables_after t2 (tables_after t1 T))" by simp
  from while_rows_tables [OF loop, of "stone_stored opts table", OF this stone_row_stored]
  show ?thesis by (simp add: t)
qed

text \<open>
  C29: \<open>tombstone.py\<close> writes all its rows to one primary key of the table it has created: however many
  insertions it executes, and whatever tables there were before, the table it leaves holds the single row
  of the last one, numbered \<open>row_count - 1\<close>.
\<close>

theorem tombstone_leaves_one_row:
  assumes "stone_main E m opts w = (t, w', Inr ())" and "1 \<le> stone_rows opts"
  shows "length (written (stone_insert opts ''myTable'') t) = nat (stone_rows opts) \<and>
    map_option snd (tables_after t T (table_in (stone_keyspace opts) ''myTable'')) =
      Some [[(''a'', Number 1), (''b'', Number (stone_rows opts - 1)), (''c'', Number (stone_rows opts - 1))]]"
proof -
  let ?c = "(''sstable_compression'', ''ZstdCompressor'')" and ?s = "stone_insert opts ''myTable''"
  from assms(1) obtain resolved t1 w1 u t2 w2 k t3 where
    opened: "open_session E m (target_of (stone_connection opts) resolved) w = (t1, w1, Inr u)"
    and ins: "stone_insert_data E opts ''myTable'' ?c w1 = (t2, w2, Inr k)"
    and close: "tell E Cluster_shutdown w2 = (t3, w', Inr ())" and t: "t = t1 @ t2 @ t3"
    unfolding stone_main_def by (auto elim!: seq_InrE bind_InrE split: sum.splits)
  have "written ?s t1 = []" by (rule besides_run [OF besides_open_session opened])
  moreover have "written ?s t3 = []" using close by (auto simp: tell_Inr)
  ultimately have rows: "written ?s t = map stone_row [1..stone_rows opts]"
    using stone_insert_data_Inr [OF ins] by (simp add: t)
  have "\<forall>e \<in> set t1. \<not> executes (fst e)"
    using asksD [OF idle_open_session opened] by auto
  then have "tables_after t T = tables_after t2 T"
    using close by (auto simp: t tables_after_idle tell_Inr applied_idle)
  with stone_insert_data_tables [OF ins, of T] assms(2) rows show ?thesis
    by (auto simp: stone_stored_def stone_row_def)
qed

definition some_stone_args :: tombstone_args where
  "some_stone_args = (stone_defaults (\<lambda>_. None))\<lparr>stone_rows := 2\<rparr>"

lemma some_stones: "result (stone_main quiet_server some_machine some_stone_args) () = Inr ()"
  by code_simp

theorem tombstone_leaves_one_row_witness:
  "map_option snd (tables_after (trace_of (stone_main quiet_server some_machine some_stone_args) ())
      (\<lambda>_. None) (table_in (stone_keyspace some_stone_args) ''myTable'')) =
    Some [[(''a'', Number 1), (''b'', Number 1), (''c'', Number 1)]]"
  using tombstone_leaves_one_row [OF run_Inr [OF some_stones], of "\<lambda>_. None"]
  by (simp add: some_stone_args_def)

end
