(* ===== verification/Alternator_Codec.thy ===== *)
theory Alternator_Codec
  imports Loader
begin

text \<open>
  \<open>sample_app/alternator-client/encode_alternator.py\<close> and \<open>decode_alternator.py\<close>: the attribute values of
  an Alternator table as blobs (a tag byte, then UTF-8 or a big-endian integer of seven bytes), and the
  two scripts that write and read a user with them.
\<close>

subsection \<open>Blobs\<close>

text \<open>A Python value, as far as the codec tells values apart; any other type encodes to \<open>None\<close>.\<close>

datatype pyval = Str string | Integer int | Other

definition encode_alternator_blob :: "pyval \<Rightarrow> byte list option py" where
  "encode_alternator_blob v =
     (case v of
        Str s \<Rightarrow> Inr (Some (0 # utf8_bytes s))
      | Integer i \<Rightarrow> (case to_bytes_le 7 i of
                   None \<Rightarrow> Inl OverflowError
                 | Some num_bytes \<Rightarrow> Inr (Some ([3, 0, 0, 0] @ rev num_bytes)))
      | Other \<Rightarrow> Inr None)"

text \<open>\<open>bs.decode('utf-8')\<close>: ill-formed bytes raise.\<close>

definition decode_strict :: "byte list \<Rightarrow> string py" where
  "decode_strict bs = (if well_formed bs then Inr (string_of_bytes bs) else Inl UnicodeDecodeError)"

definition decode_alternator_blob :: "byte list \<Rightarrow> pyval option py" where
  "decode_alternator_blob blob =
     (if blob = [] \<or> hd blob \<noteq> 3
      then (if blob \<noteq> [] \<and> hd blob = 0
            then ebind (decode_strict (tl blob)) (\<lambda>s. Inr (Some (Str s)))
            else Inr None)
      else Inr (Some (Integer (int (from_le (rev (slice blob 4 11)))))))"

subsection \<open>The scripts\<close>

definition insert_user :: statement where
  "insert_user = Insert ''userid'' [''UserID'', '':attrs''] []"

definition select_user :: statement where
  "select_user = Select [''UserID'', '':attrs''] ''userid'' [(''UserID'', ''='')]"

definition attrs_of :: "row \<Rightarrow> (string \<times> cell) list py" where
  "attrs_of r = (case map_of r '':attrs'' of Some (Dict kvs) \<Rightarrow> Inr kvs | _ \<Rightarrow> Inl AttributeError)"

definition item :: "(string \<times> cell) list \<Rightarrow> string \<Rightarrow> byte list py" where
  "item kvs k = (case map_of kvs k of Some (Blob b) \<Rightarrow> Inr b | Some _ \<Rightarrow> Inl TypeError | None \<Rightarrow> Inl KeyError)"

definition blob_cell :: "pyval \<Rightarrow> cell py" where
  "blob_cell v = ebind (encode_alternator_blob v) (\<lambda>b. Inr (case b of Some bs \<Rightarrow> Blob bs | None \<Rightarrow> Null))"

text \<open>\<open>encode_alternator.py userid\<close>: write a user, read it back; the two values printed are the result.\<close>

definition encode_main :: "'w server \<Rightarrow> string \<Rightarrow> ('w, pyval option \<times> pyval option) script" where
  "encode_main E userid =
     seq (tell E (Connect_plain [''scylla-client''] 9042 (''cassandra'', ''cassandra'') (Some ''alternator_userid'')))
    (bind (lift (blob_cell (Str ''Charlie''))) (\<lambda>name.
     bind (lift (blob_cell (Str ''99''))) (\<lambda>score.
     seq (tell E (Execute insert_user [Text userid, Dict [(''Name'', name), (''Score'', score)]]))
    (bind (fetch E select_user [Text userid]) (\<lambda>rows.
     case rows of
       [] \<Rightarrow> raise (PyError AttributeError)
     | r # _ \<Rightarrow>
         bind (lift (ebind (attrs_of r) (\<lambda>kvs.
            ebind (ebind (item kvs ''Name'') decode_alternator_blob) (\<lambda>n.
            ebind (ebind (item kvs ''Score'') decode_alternator_blob) (\<lambda>s. Inr (n, s)))))) (\<lambda>res.
         seq (tell E Cluster_shutdown) (ret res)))))))"

text \<open>\<open>decode_alternator.py -q userid\<close>: the decoded attributes, in the order of the map.\<close>

definition decode_main ::
    "'w server \<Rightarrow> string \<Rightarrow> string \<times> string \<Rightarrow> string \<Rightarrow> ('w, (string \<times> pyval option) list) script" where
  "decode_main E hosts auth userid =
     seq (tell E (Connect_plain [hosts] 9042 auth (Some ''alternator_userid'')))
    (bind (fetch E select_user [Text userid]) (\<lambda>rows.
     case rows of
       [] \<Rightarrow> seq (tell E Cluster_shutdown) (raise (SystemExit 1))
     | r # _ \<Rightarrow>
         bind (lift (ebind (attrs_of r) (\<lambda>kvs.
            emap (\<lambda>(k, v). ebind (case v of Blob b \<Rightarrow> Inr b | _ \<Rightarrow> Inl AttributeError) (\<lambda>b.
              ebind (decode_alternator_blob b) (\<lambda>x. Inr (k, x)))) kvs))) (\<lambda>res.
         seq (tell E Cluster_shutdown) (ret res))))"

subsection \<open>Their command lines\<close>

definition parse_encode_args :: "string list \<Rightarrow> exn + string" where
  "parse_encode_args argv =
     parse_command_line
       \<lparr>cli_options = [help_option], positional = One_positional (\<lambda>v _. v), complete = (\<lambda>_. True)\<rparr> [] argv"

record decode_args =
  decode_hosts :: string
  decode_username :: string
  decode_password :: string
  decode_query :: "string option"

definition decode_cli :: "decode_args cli" where
  "decode_cli =
     \<lparr>cli_options =
        [help_option,
         ([''-s'', ''--hosts''], text_value decode_hosts_update),
         ([''-u'', ''--username''], text_value decode_username_update),
         ([''-p'', ''--password''], text_value decode_password_update),
         ([''-q'', ''--query''], some_text decode_query_update)],
      positional = No_positional, complete = (\<lambda>opts. decode_query opts \<noteq> None)\<rparr>"

definition parse_decode_args :: "string list \<Rightarrow> exn + decode_args" where
  "parse_decode_args argv =
     parse_command_line decode_cli
       \<lparr>decode_hosts = ''scylla-client.scylla-dc1.svc'', decode_username = ''cassandra'',
        decode_password = ''cassandra'', decode_query = None\<rparr> argv"

text \<open>\<open>encode_alternator.py userid\<close> and \<open>decode_alternator.py -q userid\<close> as processes.\<close>

definition encode_process :: "'w server \<Rightarrow> string list \<Rightarrow> ('w, pyval option \<times> pyval option) script" where
  "encode_process E argv = with_args (parse_encode_args argv) (encode_main E)"

definition decode_process :: "'w server \<Rightarrow> string list \<Rightarrow> ('w, (string \<times> pyval option) list) script" where
  "decode_process E argv =
     with_args (parse_decode_args argv) (\<lambda>opts.
       decode_main E (decode_hosts opts) (decode_username opts, decode_password opts) (case decode_query opts of None \<Rightarrow> [] | Some q \<Rightarrow> q))"

subsection \<open>The codec\<close>

lemma decode_strict_utf8: "well_formed (utf8_bytes s) \<Longrightarrow> decode_strict (utf8_bytes s) = Inr s"
  by (simp add: decode_strict_def)

text \<open>The values a blob can hold.\<close>

definition encodable_value :: "pyval \<Rightarrow> bool" where
  "encodable_value v \<longleftrightarrow>
     (case v of Str s \<Rightarrow> well_formed (utf8_bytes s) | Integer i \<Rightarrow> 0 \<le> i \<and> i < 2 ^ 56 | Other \<Rightarrow> False)"

lemma to_bytes_le_7: "to_bytes_le 7 i = None \<longleftrightarrow> i < 0 \<or> 2 ^ 56 \<le> i"
  by (auto simp: to_bytes_le_def)

lemma decode_encode:
  assumes "encodable_value v"
  obtains b where "encode_alternator_blob v = Inr (Some b)" "decode_alternator_blob b = Inr (Some v)"
proof (cases v)
  case (Str s)
  with assms show ?thesis
    by (intro that [of "0 # utf8_bytes s"])
      (simp_all add: encode_alternator_blob_def decode_alternator_blob_def encodable_value_def decode_strict_utf8)
next
  case (Integer i)
  with assms have i: "0 \<le> i" "i < 2 ^ 56" by (simp_all add: encodable_value_def)
  then obtain bs where bs: "to_bytes_le 7 i = Some bs" using to_bytes_le_7 [of i] by fastforce
  then have "bs = le_bytes 7 (nat i)" by (auto simp: to_bytes_le_def split: if_splits)
  moreover from i have "nat i < 256 ^ 7" by (simp add: nat_less_iff)
  ultimately have "int (from_le bs) = i" "length bs = 7" using from_le_bytes [of "nat i" 7] i by simp_all
  moreover have "slice ([3, 0, 0, 0] @ rev bs) 4 11 = rev bs"
    using \<open>length bs = 7\<close> by (simp add: slice_def)
  ultimately show ?thesis
    using Integer bs by (intro that [of "[3, 0, 0, 0] @ rev bs"])
      (simp_all add: encode_alternator_blob_def decode_alternator_blob_def)
next
  case Other
  with assms show ?thesis by (simp add: encodable_value_def)
qed

lemma encode_fails:
  "(\<exists>b. encode_alternator_blob v = Inr (Some b)) \<or>
     v = Other \<or> (\<exists>i. v = Integer i \<and> (i < 0 \<or> 2 ^ 56 \<le> i) \<and> encode_alternator_blob v = Inl OverflowError)"
  using to_bytes_le_7 by (auto simp: encode_alternator_blob_def split: pyval.split option.split)

subsection \<open>Properties\<close>

text \<open>
  C30: The blob codec loses nothing: a string of well-formed text and an integer below \<open>2 ^ 56\<close> come back
  from their blob, so different values have different blobs; an integer outside that range raises an
  OverflowError instead of being cut.
\<close>

theorem blob_roundtrip:
  assumes "encodable_value v"
  shows "(\<exists>b. encode_alternator_blob v = Inr (Some b) \<and> decode_alternator_blob b = Inr (Some v)) \<and>
    (\<forall>v'. encodable_value v' \<and> encode_alternator_blob v' = encode_alternator_blob v \<longrightarrow> v' = v) \<and>
    (\<forall>i. \<not> encodable_value (Integer i) \<longrightarrow> encode_alternator_blob (Integer i) = Inl OverflowError)"
proof (intro conjI allI impI)
  obtain b where b: "encode_alternator_blob v = Inr (Some b)" "decode_alternator_blob b = Inr (Some v)"
    using decode_encode [OF assms] by blast
  then show "\<exists>b. encode_alternator_blob v = Inr (Some b) \<and> decode_alternator_blob b = Inr (Some v)" by blast
  fix v'
  assume "encodable_value v' \<and> encode_alternator_blob v' = encode_alternator_blob v"
  with b show "v' = v" by (metis decode_encode Inr_inject option.inject)
next
  fix i
  assume "\<not> encodable_value (Integer i)"
  then have "to_bytes_le 7 i = None" by (auto simp: encodable_value_def to_bytes_le_7)
  then show "encode_alternator_blob (Integer i) = Inl OverflowError" by (simp add: encode_alternator_blob_def)
qed

theorem blob_roundtrip_witness:
  "\<exists>b. encode_alternator_blob (Integer 1735689600000) = Inr (Some b) \<and>
       decode_alternator_blob b = Inr (Some (Integer 1735689600000))"
  using blob_roundtrip [of "Integer 1735689600000"] by (simp add: encodable_value_def)

text \<open>
  What the scripts rely on of the server: \<open>holds w\<close> maps a user to its attributes; an insertion sets them, a
  selection by the key returns them, connecting and disconnecting leave them alone.
\<close>

definition keeps_users :: "'w server \<Rightarrow> ('w \<Rightarrow> string \<Rightarrow> (string \<times> cell) list option) \<Rightarrow> bool" where
  "keeps_users E holds \<longleftrightarrow>
     (\<forall>w u a. \<exists>w'. E w (Execute insert_user [Text u, Dict a]) = (Ok, w') \<and> holds w' = (holds w)(u \<mapsto> a)) \<and>
     (\<forall>w u. \<exists>w'. E w (Execute select_user [Text u]) =
         (Rows (case holds w u of None \<Rightarrow> [] | Some a \<Rightarrow> [[(''UserID'', Text u), ('':attrs'', Dict a)]]), w') \<and>
       holds w' = holds w) \<and>
     (\<forall>w h p c k. \<exists>w'. E w (Connect_plain h p c k) = (Ok, w') \<and> holds w' = holds w) \<and>
     (\<forall>w. \<exists>w'. E w Cluster_shutdown = (Ok, w') \<and> holds w' = holds w)"

lemma keeps_usersE:
  assumes "keeps_users E holds"
  obtains w' where "E w (Execute insert_user [Text u, Dict a]) = (Ok, w')" "holds w' = (holds w)(u \<mapsto> a)"
  using assms unfolding keeps_users_def by meson

lemma keeps_users_selectE:
  assumes "keeps_users E holds" "holds w u = Some a"
  obtains w' where "E w (Execute select_user [Text u]) = (Rows [[(''UserID'', Text u), ('':attrs'', Dict a)]], w')"
    "holds w' = holds w"
proof -
  from assms(1) obtain w' where "E w (Execute select_user [Text u]) =
         (Rows (case holds w u of None \<Rightarrow> [] | Some a \<Rightarrow> [[(''UserID'', Text u), ('':attrs'', Dict a)]]), w')"
    "holds w' = holds w"
    unfolding keeps_users_def by meson
  with assms(2) show thesis by (auto intro: that)
qed

lemma keeps_users_connectE:
  assumes "keeps_users E holds"
  obtains w' where "E w (Connect_plain h p c k) = (Ok, w')" "holds w' = holds w"
  using assms unfolding keeps_users_def by meson

lemma keeps_users_closeE:
  assumes "keeps_users E holds"
  obtains w' where "E w Cluster_shutdown = (Ok, w')" "holds w' = holds w"
  using assms unfolding keeps_users_def by meson

abbreviation demo_attrs :: "(string \<times> cell) list" where
  "demo_attrs \<equiv> [(''Name'', Blob (0 # utf8_bytes ''Charlie'')), (''Score'', Blob (0 # utf8_bytes ''99''))]"

lemma decode_demo_attrs:
  "decode_alternator_blob (0 # utf8_bytes ''Charlie'') = Inr (Some (Str ''Charlie''))"
  "decode_alternator_blob (0 # utf8_bytes ''99'') = Inr (Some (Str ''99''))"
proof -
  have plain: "ascii (utf8_bytes ''Charlie'')" "ascii (utf8_bytes ''99'')" by code_simp+
  have "decode_alternator_blob (0 # utf8_bytes s) = Inr (Some (Str s))" if "ascii (utf8_bytes s)" for s
    using that utf8_replace_ascii
    by (simp add: decode_alternator_blob_def decode_strict_def well_formed_def)
  with plain show "decode_alternator_blob (0 # utf8_bytes ''Charlie'') = Inr (Some (Str ''Charlie''))"
    "decode_alternator_blob (0 # utf8_bytes ''99'') = Inr (Some (Str ''99''))" by simp_all
qed

lemma blob_cell_Str: "blob_cell (Str s) = Inr (Blob (0 # utf8_bytes s))"
  by (simp add: blob_cell_def encode_alternator_blob_def)

lemma encode_main_run:
  assumes "keeps_users E holds"
  obtains t w' where "encode_main E userid w = (t, w', Inr (Some (Str ''Charlie''), Some (Str ''99'')))"
    "holds w' userid = Some demo_attrs"
proof -
  obtain w0 where w0: "E w (Connect_plain [''scylla-client''] 9042 (''cassandra'', ''cassandra'')
      (Some ''alternator_userid'')) = (Ok, w0)"
    using keeps_users_connectE [OF assms] by blast
  obtain w1 where w1: "E w0 (Execute insert_user [Text userid, Dict demo_attrs]) = (Ok, w1)"
    "holds w1 = (holds w0)(userid \<mapsto> demo_attrs)"
    using keeps_usersE [OF assms] by blast
  then obtain w2 where w2: "E w1 (Execute select_user [Text userid]) =
      (Rows [[(''UserID'', Text userid), ('':attrs'', Dict demo_attrs)]], w2)" "holds w2 = holds w1"
    using keeps_users_selectE [OF assms, of w1 userid demo_attrs] by auto
  obtain w3 where w3: "E w2 Cluster_shutdown = (Ok, w3)" "holds w3 = holds w2"
    using keeps_users_closeE [OF assms] by blast
  have kept: "holds w3 userid = Some demo_attrs" using w1(2) w2(2) w3(2) by simp
  show thesis
    using w0 w1(1) w2(1) w3(1)
    by (intro that [OF _ kept])
      (simp add: encode_main_def seq_def bind_def tell_def fetch_def ask_def blob_cell_Str rows_of_def
        attrs_of_def item_def decode_demo_attrs)
qed

lemma decode_main_run:
  assumes "keeps_users E holds" "holds w userid = Some demo_attrs"
  shows "result (decode_main E hosts auth userid) w =
    Inr [(''Name'', Some (Str ''Charlie'')), (''Score'', Some (Str ''99''))]"
proof -
  obtain w0 where w0: "E w (Connect_plain [hosts] 9042 auth (Some ''alternator_userid'')) = (Ok, w0)"
    "holds w0 = holds w"
    using keeps_users_connectE [OF assms(1)] by blast
  then obtain w2 where w2: "E w0 (Execute select_user [Text userid]) =
      (Rows [[(''UserID'', Text userid), ('':attrs'', Dict demo_attrs)]], w2)"
    using keeps_users_selectE [OF assms(1), of w0 userid demo_attrs] assms(2) by auto
  obtain w3 where w3: "E w2 Cluster_shutdown = (Ok, w3)"
    using keeps_users_closeE [OF assms(1)] by blast
  show ?thesis
    using w0 w2 w3
    by (simp add: decode_main_def result_def seq_def bind_def tell_def fetch_def ask_def rows_of_def
        attrs_of_def decode_demo_attrs)
qed

text \<open>
  C31: Against such a server \<open>encode_alternator.py\<close> prints the two values it wrote, and
  \<open>decode_alternator.py\<close>, run after it for the same user, shows them again under their names.
\<close>

theorem scripts_agree:
  assumes "keeps_users E holds"
  shows "result (encode_main E userid) w = Inr (Some (Str ''Charlie''), Some (Str ''99'')) \<and>
    result (decode_main E hosts auth userid) (final (encode_main E userid) w) =
      Inr [(''Name'', Some (Str ''Charlie'')), (''Score'', Some (Str ''99''))]"
proof -
  obtain t w' where run: "encode_main E userid w = (t, w', Inr (Some (Str ''Charlie''), Some (Str ''99'')))"
    "holds w' userid = Some demo_attrs"
    by (rule encode_main_run [OF assms])
  from decode_main_run [OF assms run(2)] run(1) show ?thesis by (simp add: result_def final_def)
qed

definition user_server :: "(string \<Rightarrow> (string \<times> cell) list option) server" where
  "user_server w q =
     (case q of
        Execute s [Text u, Dict a] \<Rightarrow> (Ok, w(u \<mapsto> a))
      | Execute s [Text u] \<Rightarrow>
          (Rows (case w u of None \<Rightarrow> [] | Some a \<Rightarrow> [[(''UserID'', Text u), ('':attrs'', Dict a)]]), w)
      | _ \<Rightarrow> (Ok, w))"

theorem scripts_agree_witness:
  "result (decode_main user_server ''scylla-client'' (''cassandra'', ''cassandra'') ''user1'')
     (final (encode_main user_server ''user1'') (\<lambda>_. None)) =
   Inr [(''Name'', Some (Str ''Charlie'')), (''Score'', Some (Str ''99''))]"
  by (rule conjunct2 [OF scripts_agree [where holds = "\<lambda>w. w"]]) (simp add: keeps_users_def user_server_def)

end
