(* ===== verification/Fakers.thy ===== *)
theory Fakers
  imports Serial Alternator_Codec
begin

text \<open>
  The user generators of \<open>sample_app/alternator-client\<close>: \<open>cql-faker.py\<close> and \<open>cql-alternator-faker.py\<close>
  insert users over CQL, \<open>alternator-faker.py\<close> puts them through the Alternator endpoint, all in batches
  of 1000. The Alternator client is reached by \<open>Table_op\<close>,
  \<open>Put_item\<close> and \<open>Scan\<close> requests.
\<close>

subsection \<open>Users\<close>

record user =
  userid :: string
  last_updated :: int
  user_name :: string
  score :: int

definition NAMES :: "string list" where
  "NAMES =
     [''Alice'', ''Bob'', ''Charlie'', ''David'', ''Eva'', ''Frank'', ''Grace'', ''Henry'', ''Ivy'', ''Jack'',
      ''Katie'', ''Leo'', ''Mia'', ''Noah'', ''Olivia'', ''Paul'', ''Quinn'', ''Riley'', ''Sophia'', ''Tom'',
      ''Uma'', ''Victor'', ''Wendy'', ''Xander'', ''Yara'', ''Zoe'', ''Aaron'', ''Bella'', ''Carlos'', ''Dana'']"

definition user_key :: "int \<Rightarrow> string" where
  "user_key i = ''user'' @ dec_int i"

definition generate_user :: "'w server \<Rightarrow> string list \<Rightarrow> int \<Rightarrow> int \<Rightarrow> ('w, user) script" where
  "generate_user E names now_ms i =
     bind (number E (Random_choice (length names))) (\<lambda>k.
     bind (randint E 0 100) (\<lambda>s.
     ret \<lparr>userid = user_key i, last_updated = now_ms, user_name = names ! nat k, score = s\<rparr>))"

definition generate_data :: "'w server \<Rightarrow> int \<Rightarrow> int \<Rightarrow> int \<Rightarrow> ('w, user list) script" where
  "generate_data E start_id num_records skew =
     bind (number E Time_now) (\<lambda>micros.
     map_m (generate_user E NAMES (micros div 1000 + skew)) [start_id..start_id + num_records - 1])"

text \<open>\<open>range(start, stop, step)\<close> for a positive step.\<close>

function range_by :: "int \<Rightarrow> int \<Rightarrow> int \<Rightarrow> int list" where
  "range_by i stop step = (if 0 < step \<and> i < stop then i # range_by (i + step) stop step else [])"
  by pat_completeness auto
termination
  by (relation "measure (\<lambda>(i, stop, step). nat (stop - i))") auto

declare range_by.simps [simp del]

definition BATCH :: int where
  "BATCH = 1000"

text \<open>\<open>opts.timestamp + skew if opts.timestamp else int(time.time() * 1000) + skew\<close>\<close>

definition write_time :: "'w server \<Rightarrow> int option \<Rightarrow> int \<Rightarrow> ('w, int) script" where
  "write_time E fixed skew =
     (case fixed of
        Some t \<Rightarrow> (if t \<noteq> 0 then ret (t + skew)
                   else bind (number E Time_now) (\<lambda>micros. ret (micros div 1000 + skew)))
      | None \<Rightarrow> bind (number E Time_now) (\<lambda>micros. ret (micros div 1000 + skew)))"

text \<open>The progress line every ten batches reads the clock.\<close>

definition progress :: "'w server \<Rightarrow> int \<Rightarrow> ('w, unit) script" where
  "progress E total_inserted = (if total_inserted mod (10 * BATCH) = 0 then tell E Time_now else ret ())"

subsection \<open>cql-faker.py\<close>

record faker_args =
  faker_hosts :: string
  faker_username :: string
  faker_password :: string
  faker_drop :: bool
  faker_keyspace :: string
  user_id_start :: int
  num_inserts :: int
  fixed_timestamp :: "int option"
  skew_ms :: int
  faker_dc :: string

definition faker_defaults :: faker_args where
  "faker_defaults =
     \<lparr>faker_hosts = ''scylla-client.scylla-dc1.svc'', faker_username = ''cassandra'',
      faker_password = ''cassandra'', faker_drop = False, faker_keyspace = ''cql_userid'',
      user_id_start = 1, num_inserts = 1000000, fixed_timestamp = None, skew_ms = 0, faker_dc = ''dc1''\<rparr>"

text \<open>The two CQL generators share their options, but for the name of the one that drops the table.\<close>

definition faker_options :: "string \<Rightarrow> (string list \<times> faker_args action) list" where
  "faker_options dropping =
     [help_option,
      ([''-s'', ''--hosts''], text_value faker_hosts_update),
      ([''-u'', ''--username''], text_value faker_username_update),
      ([''-p'', ''--password''], text_value faker_password_update),
      ([''-d'', dropping], switch faker_drop_update),
      ([''-k'', ''--keyspace''], text_value faker_keyspace_update),
      ([''-i'', ''--user-id-start''], int_value user_id_start_update),
      ([''-n'', ''--num-inserts''], int_value num_inserts_update),
      ([''-t'', ''--timestamp''], some_int fixed_timestamp_update),
      ([''--skew''], int_value skew_ms_update),
      ([''--dc''], text_value faker_dc_update)]"

definition parse_faker_args :: "string list \<Rightarrow> exn + faker_args" where
  "parse_faker_args argv =
     parse_command_line
       \<lparr>cli_options = faker_options ''--drop'', positional = No_positional, complete = (\<lambda>_. True)\<rparr>
       faker_defaults argv"

definition faker_endpoint :: "string \<Rightarrow> (string list \<times> int) py" where
  "faker_endpoint spec =
     (let hosts = map (\<lambda>h. hd (split_on CHR '':'' (strip h)))
                    (filter (\<lambda>h. strip h \<noteq> []) (split_on CHR '','' spec))
      in if CHR '':'' \<in> set spec
         then ebind (int_of (split_on CHR '':'' spec ! 1)) (\<lambda>p. Inr (hosts, p))
         else Inr (hosts, 9042))"

definition faker_cluster ::
    "files \<Rightarrow> string list \<Rightarrow> int \<Rightarrow> string \<Rightarrow> string \<Rightarrow> string \<Rightarrow> cluster py" where
  "faker_cluster fs hosts port username password center =
     ebind (tls_setup_of fs (dec_int port)) (\<lambda>tls.
     ebind (if tls = None then Inr None else ebind (first_of hosts) (\<lambda>h. Inr (Some h))) (\<lambda>sni.
     Inr \<lparr>cluster_hosts = hosts, cluster_port = port, cluster_tls = tls, server_hostname = sni,
          load_balancing = Token_aware_dc center, request_timeout = 30, default_consistency = None,
          shard_aware_disabled = None, protocol_version = 4, connect_timeout = 30,
          control_connection_timeout = 5, metadata_enabled = True, address_translator = None,
          plain_text_auth = (if username \<noteq> MTLS_USERNAME then Some (username, password) else None)\<rparr>))"

definition faker_schema :: "'w server \<Rightarrow> string \<Rightarrow> string \<Rightarrow> bool \<Rightarrow> ('w, unit) script" where
  "faker_schema E keyspace table fresh =
     seq (if fresh then tell E (Execute (Drop_table (table_in keyspace table)) []) else ret ())
    (seq (tell E (Execute (Create_keyspace keyspace
            \<lparr>strategy = ''org.apache.cassandra.locator.NetworkTopologyStrategy'', replication_factor = 3,
             tablets_enabled = Some ''true''\<rparr>) []))
    (seq (tell E (Use_keyspace keyspace))
         (tell E (Execute (Create_table (table_in keyspace table)
            \<lparr>columns = [(''userid'', ''text''), (''attrs'', ''map<text, text>'')], partition_key = [''userid''],
             clustering_key = [], with_options = [COMPRESSION]\<rparr>) []))))"

definition faker_insert :: statement where
  "faker_insert = Insert ''userid'' [''userid'', ''attrs''] [(''TIMESTAMP'', ''?'')]"

definition text_attrs :: "user \<Rightarrow> cell" where
  "text_attrs u =
     Dict [(''Name'', Text (user_name u)), (''Score'', Text (dec_int (score u))),
           (''LastUpdated'', Text (dec_int (last_updated u)))]"

text \<open>One turn of the insertion loop, with the next identifier and the running total.\<close>

definition faker_batch :: "'w server \<Rightarrow> faker_args \<Rightarrow> int \<times> int \<Rightarrow> int \<Rightarrow> ('w, int \<times> int) script" where
  "faker_batch E opts sofar i =
     bind (generate_data E (fst sofar) BATCH (skew_ms opts)) (\<lambda>us.
     bind (write_time E (fixed_timestamp opts) (skew_ms opts)) (\<lambda>ts.
     seq (for_each (\<lambda>u. tell E (Execute faker_insert [Text (userid u), text_attrs u, Number ts])) us)
    (seq (progress E (snd sofar + int (length us)))
         (ret (fst sofar + BATCH, snd sofar + int (length us))))))"

definition faker_verify :: "'w server \<Rightarrow> int \<Rightarrow> ('w, unit) script" where
  "faker_verify E start =
     seq (tell E (Prepare (Select [''*''] ''userid'' [(''userid'', ''='')])))
         (for_each (\<lambda>i. bind (fetch E (Select [''*''] ''userid'' [(''userid'', ''='')]) [Text (user_key i)]) (\<lambda>_. ret ()))
            [start..start + 10 - 1])"

definition faker_main :: "'w server \<Rightarrow> files \<Rightarrow> faker_args \<Rightarrow> ('w, int) script" where
  "faker_main E fs opts =
     bind (lift (faker_endpoint (faker_hosts opts))) (\<lambda>e.
     bind (lift (faker_cluster fs (fst e) (snd e) (faker_username opts) (faker_password opts) (faker_dc opts))) (\<lambda>c.
     seq (tell E (Connect c))
    (seq (faker_schema E (faker_keyspace opts) ''userid'' (faker_drop opts))
    (seq (tell E (Prepare faker_insert))
    (seq (tell E Time_now)
    (bind (fold_m (faker_batch E opts) (user_id_start opts, 0) (range_by 0 (num_inserts opts) BATCH)) (\<lambda>sofar.
     seq (tell E Time_now)
    (seq (faker_verify E (user_id_start opts))
    (seq (tell E Session_shutdown)
    (seq (tell E Cluster_shutdown)
         (ret (snd sofar))))))))))))"

definition faker_process :: "'w server \<Rightarrow> files \<Rightarrow> string list \<Rightarrow> ('w, int) script" where
  "faker_process E fs argv = with_args (parse_faker_args argv) (faker_main E fs)"

subsection \<open>cql-alternator-faker.py\<close>

text \<open>The attributes its parser defines, and reading one of the parsed namespace.\<close>

definition alternator_options :: "string list" where
  "alternator_options =
     [''hosts'', ''username'', ''password'', ''delete'', ''keyspace'', ''user_id_start'', ''num_inserts'',
      ''timestamp'', ''skew'', ''dc'']"

definition parse_alternator_args :: "string list \<Rightarrow> exn + faker_args" where
  "parse_alternator_args argv =
     parse_command_line
       \<lparr>cli_options = faker_options ''--delete'', positional = No_positional, complete = (\<lambda>_. True)\<rparr>
       (faker_defaults\<lparr>faker_keyspace := ''alternator_userid''\<rparr>) argv"

definition attribute :: "string list \<Rightarrow> string \<Rightarrow> unit py" where
  "attribute names x = (if x \<in> set names then Inr () else Inl AttributeError)"

text \<open>\<open>try: m except ClientError as e: raise unless the code is c\<close>\<close>

definition tolerate :: "string \<Rightarrow> ('w, unit) script \<Rightarrow> ('w, unit) script" where
  "tolerate c m = catch (\<lambda>e. e = ClientError c) m (\<lambda>_. ret ())"

definition plain_hosts :: "string \<Rightarrow> string list" where
  "plain_hosts spec = map strip (filter (\<lambda>h. strip h \<noteq> []) (split_on CHR '','' spec))"

definition blob_attrs :: "user \<Rightarrow> cell py" where
  "blob_attrs u =
     ebind (blob_cell (Str (user_name u))) (\<lambda>n.
     ebind (blob_cell (Integer (score u))) (\<lambda>s.
     ebind (blob_cell (Integer (last_updated u))) (\<lambda>l.
     Inr (Dict [(''Name'', n), (''Score'', s), (''LastUpdated'', l)]))))"

definition blob_insert :: statement where
  "blob_insert = Insert ''userid'' [''UserID'', '':attrs''] [(''TIMESTAMP'', ''?'')]"

definition alternator_batch :: "'w server \<Rightarrow> faker_args \<Rightarrow> int \<times> int \<Rightarrow> int \<Rightarrow> ('w, int \<times> int) script" where
  "alternator_batch E opts sofar i =
     (let this_batch_size = min BATCH (num_inserts opts - i)
      in bind (generate_data E (fst sofar) this_batch_size (skew_ms opts)) (\<lambda>us.
         bind (write_time E (fixed_timestamp opts) (skew_ms opts)) (\<lambda>ts.
         seq (for_each (\<lambda>u. bind (lift (blob_attrs u)) (\<lambda>attrs.
                tell E (Execute blob_insert [Text (userid u), attrs, Number ts]))) us)
        (seq (progress E (snd sofar + int (length us)))
             (ret (fst sofar + this_batch_size, snd sofar + int (length us)))))))"

text \<open>
  The cluster of this script: the port is the integer 9042, which is never the string its TLS test asks for.
\<close>

definition alternator_cluster :: "faker_args \<Rightarrow> cluster" where
  "alternator_cluster opts =
     \<lparr>cluster_hosts = plain_hosts (faker_hosts opts), cluster_port = 9042, cluster_tls = None, server_hostname = None,
      load_balancing = Token_aware_dc (faker_dc opts), request_timeout = 30, default_consistency = None,
      shard_aware_disabled = Some False, protocol_version = 4, connect_timeout = 30,
      control_connection_timeout = 1, metadata_enabled = True, address_translator = None,
      plain_text_auth = (if faker_username opts = MTLS_USERNAME then None
                         else Some (faker_username opts, faker_password opts))\<rparr>"

text \<open>
  The insertion: when connecting fails, the \<open>finally\<close> block uses a \<open>session\<close> that was never bound, and
  that NameError replaces the exception.
\<close>

definition alternator_insert :: "'w server \<Rightarrow> faker_args \<Rightarrow> ('w, int) script" where
  "alternator_insert E opts =
     seq (catch (\<lambda>_. True)
            (seq (tell E (Connect (alternator_cluster opts))) (tell E (Use_keyspace (faker_keyspace opts))))
            (\<lambda>_. raise (PyError NameError)))
         (finally_do
           (seq (tell E (Prepare blob_insert))
           (seq (tell E Time_now)
           (bind (fold_m (alternator_batch E opts) (user_id_start opts, 0) (range_by 0 (num_inserts opts) BATCH))
              (\<lambda>sofar. seq (tell E Time_now) (ret (snd sofar))))))
           (seq (tell E Session_shutdown) (tell E Cluster_shutdown)))"

definition cql_alternator_main :: "'w server \<Rightarrow> faker_args \<Rightarrow> ('w, int) script" where
  "cql_alternator_main E opts =
     seq (if faker_drop opts
          then tolerate ''ResourceNotFoundException'' (tell E (Table_op ''delete_table'' ''userid'')) else ret ())
    (seq (tell E (Table_op ''list_tables'' []))
    (bind (lift (attribute alternator_options ''range'')) (\<lambda>_.
     seq (tolerate ''ResourceInUseException'' (tell E (Table_op ''create_table'' ''userid'')))
    (bind (alternator_insert E opts) (\<lambda>n.
     seq (tell E (Scan ''userid'' 10))
         (ret n))))))"

definition alternator_process :: "'w server \<Rightarrow> string list \<Rightarrow> ('w, int) script" where
  "alternator_process E argv = with_args (parse_alternator_args argv) (cql_alternator_main E)"

subsection \<open>alternator-faker.py\<close>

record put_args =
  put_hosts :: string
  put_start :: int
  put_count :: int
  put_delete :: bool
  conditional_check :: bool
  range_key :: bool

definition put_defaults :: put_args where
  "put_defaults =
     \<lparr>put_hosts = ''scylla-client.scylla-dc1.svc'', put_start = 1, put_count = 1000000, put_delete = False, conditional_check = False, range_key = False\<rparr>"

definition put_cli :: "put_args cli" where
  "put_cli =
     \<lparr>cli_options =
        [help_option,
         ([''-s'', ''--hosts''], text_value put_hosts_update),
         ([''-d'', ''--delete''], switch put_delete_update),
         ([''-i'', ''--user-id-start''], int_value put_start_update),
         ([''-n'', ''--num-inserts''], int_value put_count_update),
         ([''-c'', ''--conditional-check-enabled''], switch conditional_check_update),
         ([''-r'', ''--range''], switch range_key_update)],
      positional = No_positional, complete = (\<lambda>_. True)\<rparr>"

definition parse_put_args :: "string list \<Rightarrow> exn + put_args" where
  "parse_put_args argv = parse_command_line put_cli put_defaults argv"

definition MANY_NAMES :: "string list" where
  "MANY_NAMES = concat (replicate 100 NAMES)"

definition generate_users :: "'w server \<Rightarrow> int \<Rightarrow> int \<Rightarrow> ('w, user list) script" where
  "generate_users E start_id num_records =
     bind (number E Time_now) (\<lambda>micros.
     map_m (generate_user E MANY_NAMES (micros div 1000)) [start_id..start_id + num_records - 1])"

definition item_of :: "user \<Rightarrow> row" where
  "item_of u =
     [(''UserID'', Text (userid u)), (''LastUpdated'', Number (last_updated u)),
      (''Name'', Text (user_name u)), (''Score'', Number (score u))]"

definition put_user :: "'w server \<Rightarrow> bool \<Rightarrow> user \<Rightarrow> ('w, unit) script" where
  "put_user E conditional u = tolerate ''ConditionalCheckFailedException'' (tell E (Put_item (item_of u) conditional))"

text \<open>\<open>users[i:i + batch_size]\<close> for \<open>i\<close> in \<open>range(0, len(users), batch_size)\<close>\<close>

definition put_batch :: "'w server \<Rightarrow> bool \<Rightarrow> user list \<Rightarrow> int \<Rightarrow> int \<Rightarrow> ('w, int) script" where
  "put_batch E conditional us total_inserted i =
     (let batch = slice us (nat i) (nat (i + BATCH))
      in seq (tell E Time_now)
        (seq (for_each (put_user E conditional) batch)
        (seq (progress E (total_inserted + int (length batch)))
             (ret (total_inserted + int (length batch))))))"

definition create_table_op :: "bool \<Rightarrow> string" where
  "create_table_op ranged = (if ranged then ''create_table UserID LastUpdated'' else ''create_table UserID'')"

definition put_main :: "'w server \<Rightarrow> put_args \<Rightarrow> ('w, int) script" where
  "put_main E opts =
     seq (if put_delete opts
          then tolerate ''ResourceNotFoundException'' (tell E (Table_op ''delete_table'' ''userid'')) else ret ())
    (seq (tell E (Table_op ''list_tables'' []))
    (seq (tolerate ''ResourceInUseException'' (tell E (Table_op (create_table_op (range_key opts)) ''userid'')))
    (bind (generate_users E (put_start opts) (put_count opts)) (\<lambda>us.
     bind (number E Time_now) (\<lambda>start_time.
     bind (fold_m (put_batch E (conditional_check opts) us) 0 (range_by 0 (int (length us)) BATCH)) (\<lambda>n.
     bind (number E Time_now) (\<lambda>now.
     if now = start_time then raise (PyError ZeroDivisionError)
     else seq (tell E (Scan ''userid'' 10)) (ret n))))))))"

definition put_process :: "'w server \<Rightarrow> string list \<Rightarrow> ('w, int) script" where
  "put_process E argv = with_args (parse_put_args argv) (put_main E)"

subsection \<open>Generated users\<close>

lemma generate_user_Inr: "generate_user E names now_ms i w = (t, w', Inr u) \<Longrightarrow> userid u = user_key i"
  by (auto simp: generate_user_def bind_Inr_iff)

lemma generated_ids:
  "map_m (generate_user E names now_ms) is' w = (t, w', Inr us) \<Longrightarrow> map userid us = map user_key is'"
  by (induction is' arbitrary: w t us) (auto simp: bind_Inr_iff dest: generate_user_Inr)

lemma generate_data_Inr:
  "generate_data E s n skew w = (t, w', Inr us) \<Longrightarrow> map userid us = map user_key [s..s + n - 1]"
  by (auto simp: generate_data_def bind_Inr_iff dest: generated_ids)

lemma generate_users_Inr:
  "generate_users E s n w = (t, w', Inr us) \<Longrightarrow> map userid us = map user_key [s..s + n - 1]"
  by (auto simp: generate_users_def bind_Inr_iff dest: generated_ids)

lemma length_generated: "map userid us = map user_key [s..e] \<Longrightarrow> int (length us) = max 0 (e - s + 1)"
  by (drule arg_cong [of _ _ length]) simp

lemma asks_generate [intro!]:
  assumes "Q Time_now" "\<And>n. Q (Random_choice n)" "\<And>a b. Q (Random_int a b)"
  shows "obeys (asks Q) (generate_user E names now_ms i)" "obeys (asks Q) (generate_data E s n skew)"
    "obeys (asks Q) (generate_users E s n)"
proof -
  show user: "obeys (asks Q) (generate_user E names now_ms i)" for names now_ms i
    unfolding generate_user_def
    by (intro asks.obeys_bind asks_number asks_randint asks.obeys_ret) (simp_all add: assms)
  show "obeys (asks Q) (generate_data E s n skew)" "obeys (asks Q) (generate_users E s n)"
    unfolding generate_data_def generate_users_def
    by (intro asks.obeys_bind asks_number asks.obeys_map_m user, simp add: assms)+
qed

lemma asks_write_time [intro!]: "Q Time_now \<Longrightarrow> obeys (asks Q) (write_time E fixed skew)"
  unfolding write_time_def by (auto intro!: asks.obeys_bind asks_number split: option.split)

lemma asks_progress [intro!]: "Q Time_now \<Longrightarrow> obeys (asks Q) (progress E n)"
  unfolding progress_def by (auto intro: asks_tell)

subsection \<open>Batches\<close>

lemma range_by_length: "0 < step \<Longrightarrow> i \<le> stop \<Longrightarrow> int (length (range_by i stop step)) = (stop - i + step - 1) div step"
proof (induction i stop step rule: range_by.induct)
  case (1 i stop step)
  show ?case
  proof (cases "i < stop")
    case False
    with 1(2,3) show ?thesis by (subst range_by.simps) simp
  next
    case True
    show ?thesis
    proof (cases "i + step \<le> stop")
      case True
      with 1 \<open>i < stop\<close> have "int (length (range_by (i + step) stop step)) = (stop - (i + step) + step - 1) div step"
        by simp
      moreover have "(stop - i + step - 1) div step = (stop - (i + step) + step - 1) div step + 1"
        using 1(2) div_add_self2 [of step "stop - (i + step) + step - 1"] by (simp add: algebra_simps)
      ultimately show ?thesis using 1(2) \<open>i < stop\<close> by (subst range_by.simps) simp
    next
      case False
      then have "range_by (i + step) stop step = []" by (subst range_by.simps) simp
      moreover have "(stop - i + step - 1) div step = 1"
        using False \<open>i < stop\<close> 1(2) by (intro int_div_pos_eq [of _ _ _ "stop - i - 1"]) auto
      ultimately show ?thesis using 1(2) \<open>i < stop\<close> by (subst range_by.simps) simp
    qed
  qed
qed

lemma for_each_written:
  assumes "for_each body us w = (t, w', Inr v)"
    and "\<And>u w t w'. body u w = (t, w', Inr ()) \<Longrightarrow> map hd (written s t) = [g u]"
  shows "map hd (written s t) = map g us"
  using for_each_writes [OF assms(1), where f = hd and g = "\<lambda>u. [g u]", OF assms(2)] by (simp add: concat_map_singleton)

lemma user_keys_text: "map userid us = map user_key ns \<Longrightarrow> map (\<lambda>u. Text (userid u)) us = map (\<lambda>i. Text (user_key i)) ns"
  by (metis (no_types, lifting) list.map_comp comp_def map_eq_conv list.map_cong)

lemma faker_batch_Inr:
  assumes "faker_batch E opts sofar i w = (t, w', Inr sofar')"
  shows "map hd (written faker_insert t) = map (\<lambda>i. Text (user_key i)) [fst sofar..fst sofar + BATCH - 1] \<and>
    sofar' = (fst sofar + BATCH, snd sofar + BATCH)"
proof -
  from assms obtain t1 w1 us t2 w2 ts t3 w3 t4 w4 where
    gen: "generate_data E (fst sofar) BATCH (skew_ms opts) w = (t1, w1, Inr us)"
    and time: "write_time E (fixed_timestamp opts) (skew_ms opts) w1 = (t2, w2, Inr ts)"
    and ins: "for_each (\<lambda>u. tell E (Execute faker_insert [Text (userid u), text_attrs u, Number ts])) us w2 = (t3, w3, Inr ())"
    and prog: "progress E (snd sofar + int (length us)) w3 = (t4, w4, Inr ())"
    and res: "sofar' = (fst sofar + BATCH, snd sofar + int (length us))" and t: "t = t1 @ t2 @ t3 @ t4"
    unfolding faker_batch_def by (auto elim!: bind_InrE seq_InrE)
  have "obeys (asks (besides faker_insert)) (generate_data E (fst sofar) BATCH (skew_ms opts))"
    "obeys (asks (besides faker_insert)) (write_time E (fixed_timestamp opts) (skew_ms opts))"
    "obeys (asks (besides faker_insert)) (progress E (snd sofar + int (length us)))"
    by auto
  then have "written faker_insert t1 = []" "written faker_insert t2 = []" "written faker_insert t4 = []"
    by (metis besides_run gen, metis besides_run time, metis besides_run prog)
  moreover have "map hd (written faker_insert t3) = map (\<lambda>u. Text (userid u)) us"
    by (rule for_each_written [OF ins]) (auto simp: tell_Inr)
  ultimately show ?thesis
    using generate_data_Inr [OF gen] length_generated [of us "fst sofar"] user_keys_text
    by (auto simp: t res BATCH_def)
qed

lemma faker_batches_Inr:
  assumes "fold_m (faker_batch E opts) sofar ns w = (t, w', Inr sofar')"
  shows "map hd (written faker_insert t) =
      map (\<lambda>i. Text (user_key i)) [fst sofar..fst sofar + BATCH * int (length ns) - 1] \<and>
    sofar' = (fst sofar + BATCH * int (length ns), snd sofar + BATCH * int (length ns))"
  using assms
proof (induction ns arbitrary: sofar w t)
  case Nil
  then show ?case by (cases sofar) auto
next
  case (Cons n ns)
  then obtain t1 w1 mid t2 where run: "faker_batch E opts sofar n w = (t1, w1, Inr mid)"
    "fold_m (faker_batch E opts) mid ns w1 = (t2, w', Inr sofar')" and t: "t = t1 @ t2"
    by (auto elim: bind_InrE)
  note one = faker_batch_Inr [OF run(1)] and rest = Cons.IH [OF run(2)]
  have "[fst sofar..fst sofar + BATCH - 1] @ [fst sofar + BATCH..fst sofar + BATCH * int (length (n # ns)) - 1] =
      [fst sofar..fst sofar + BATCH * int (length (n # ns)) - 1]"
    using upto_append [of "fst sofar" "fst sofar + BATCH - 1" "fst sofar + BATCH * int (length (n # ns)) - 1"]
    by (simp add: BATCH_def add.commute)
  then have "map (\<lambda>i. Text (user_key i)) [fst sofar..fst sofar + BATCH * int (length (n # ns)) - 1] =
      map (\<lambda>i. Text (user_key i)) [fst sofar..fst sofar + BATCH - 1] @
      map (\<lambda>i. Text (user_key i)) [fst sofar + BATCH..fst sofar + BATCH * int (length (n # ns)) - 1]"
    by (metis map_append)
  with one rest show ?case by (simp add: t algebra_simps)
qed

lemma faker_main_Inr:
  assumes "faker_main E fs opts w = (t, w', Inr n)" and "0 \<le> num_inserts opts"
  shows "map hd (written faker_insert t) =
      map (\<lambda>i. Text (user_key i)) [user_id_start opts..user_id_start opts + n - 1] \<and>
    n = BATCH * ((num_inserts opts + BATCH - 1) div BATCH)"
proof -
  from assms(1) obtain c t1 w1 t2 w2 t3 w3 t3' w3' t4 w4 sofar t4' w4' t5 w5 t6 w6 t7 where
    conn: "tell E (Connect c) w = (t1, w1, Inr ())"
    and schema: "faker_schema E (faker_keyspace opts) ''userid'' (faker_drop opts) w1 = (t2, w2, Inr ())"
    and prep: "tell E (Prepare faker_insert) w2 = (t3, w3, Inr ())" "tell E Time_now w3 = (t3', w3', Inr ())"
    and loop: "fold_m (faker_batch E opts) (user_id_start opts, 0) (range_by 0 (num_inserts opts) BATCH) w3' = (t4, w4, Inr sofar)"
    and over: "tell E Time_now w4 = (t4', w4', Inr ())"
    and ver: "faker_verify E (user_id_start opts) w4' = (t5, w5, Inr ())"
    and close: "tell E Session_shutdown w5 = (t6, w6, Inr ())" "tell E Cluster_shutdown w6 = (t7, w', Inr ())"
    and n: "n = snd sofar" and t: "t = t1 @ t2 @ t3 @ t3' @ t4 @ t4' @ t5 @ t6 @ t7"
    unfolding faker_main_def by (auto elim!: bind_InrE seq_InrE simp: lift_Inr_iff)
  have "obeys (asks (besides faker_insert)) (faker_schema E (faker_keyspace opts) ''userid'' (faker_drop opts))"
    unfolding faker_schema_def by (auto intro!: asks.obeys_seq asks_tell simp: faker_insert_def)
  from besides_run [OF this schema] have "written faker_insert t2 = []" .
  moreover have "obeys (asks (besides faker_insert)) (faker_verify E (user_id_start opts))"
    unfolding faker_verify_def
    by (auto intro!: asks.obeys_seq asks_tell asks.obeys_for_each asks.obeys_bind asks_fetch simp: faker_insert_def)
  from besides_run [OF this ver] have "written faker_insert t5 = []" .
  moreover have "written faker_insert t1 = []" "written faker_insert t3 = []" "written faker_insert t3' = []"
    "written faker_insert t4' = []" "written faker_insert t6 = []" "written faker_insert t7 = []"
    using conn prep over close by (auto simp: tell_Inr)
  moreover have "int (length (range_by 0 (num_inserts opts) BATCH)) = (num_inserts opts + BATCH - 1) div BATCH"
    using range_by_length [of BATCH 0 "num_inserts opts"] assms(2) by (simp add: BATCH_def)
  ultimately show ?thesis using faker_batches_Inr [OF loop] by (simp add: t n)
qed

text \<open>The batches of the other two generators follow \<open>range\<close>: the last one is as long as what remains.\<close>

lemma alternator_batch_Inr:
  assumes "alternator_batch E opts sofar i w = (t, w', Inr sofar')" and "i < num_inserts opts"
  shows "map hd (written blob_insert t) =
      map (\<lambda>i. Text (user_key i)) [fst sofar..fst sofar + min BATCH (num_inserts opts - i) - 1] \<and>
    sofar' = (fst sofar + min BATCH (num_inserts opts - i), snd sofar + min BATCH (num_inserts opts - i))"
proof -
  let ?size = "min BATCH (num_inserts opts - i)"
  let ?row = "\<lambda>ts u. bind (lift (blob_attrs u)) (\<lambda>attrs. tell E (Execute blob_insert [Text (userid u), attrs, Number ts]))"
  from assms(1) obtain t1 w1 us t2 w2 ts t3 w3 t4 where
    gen: "generate_data E (fst sofar) ?size (skew_ms opts) w = (t1, w1, Inr us)"
    and time: "write_time E (fixed_timestamp opts) (skew_ms opts) w1 = (t2, w2, Inr ts)"
    and ins: "for_each (?row ts) us w2 = (t3, w3, Inr ())"
    and prog: "progress E (snd sofar + int (length us)) w3 = (t4, w', Inr ())"
    and res: "sofar' = (fst sofar + ?size, snd sofar + int (length us))" and t: "t = t1 @ t2 @ t3 @ t4"
    unfolding alternator_batch_def Let_def by (auto elim!: bind_InrE seq_InrE)
  have "obeys (asks (besides blob_insert)) (generate_data E (fst sofar) ?size (skew_ms opts))"
    "obeys (asks (besides blob_insert)) (write_time E (fixed_timestamp opts) (skew_ms opts))"
    "obeys (asks (besides blob_insert)) (progress E (snd sofar + int (length us)))"
    by auto
  then have "written blob_insert t1 = []" "written blob_insert t2 = []" "written blob_insert t4 = []"
    by (metis besides_run gen, metis besides_run time, metis besides_run prog)
  moreover have "map hd (written blob_insert t3) = map (\<lambda>u. Text (userid u)) us"
    by (rule for_each_written [OF ins]) (auto simp: tell_Inr lift_Inr_iff bind_Inr_iff)
  moreover have "0 \<le> ?size" using assms(2) by (simp add: BATCH_def)
  ultimately show ?thesis
    using generate_data_Inr [OF gen] length_generated [OF generate_data_Inr [OF gen]] user_keys_text
    by (auto simp: t res)
qed

lemma alternator_batches_Inr:
  assumes "fold_m (alternator_batch E opts) sofar (range_by i (num_inserts opts) BATCH) w = (t, w', Inr sofar')"
    and "i \<le> num_inserts opts"
  shows "map hd (written blob_insert t) =
      map (\<lambda>i. Text (user_key i)) [fst sofar..fst sofar + (num_inserts opts - i) - 1] \<and>
    snd sofar' = snd sofar + (num_inserts opts - i)"
  using assms
proof (induction i "num_inserts opts" BATCH arbitrary: sofar w t rule: range_by.induct)
  case (1 i)
  show ?case
  proof (cases "i < num_inserts opts")
    case False
    with 1(2,3) show ?thesis by (subst (asm) range_by.simps) auto
  next
    case True
    let ?size = "min BATCH (num_inserts opts - i)"
    have pos: "0 < BATCH" by (simp add: BATCH_def)
    with True 1(2) obtain t1 w1 mid t2 where
      one: "alternator_batch E opts sofar i w = (t1, w1, Inr mid)"
      and rest: "fold_m (alternator_batch E opts) mid (range_by (i + BATCH) (num_inserts opts) BATCH) w1 = (t2, w', Inr sofar')"
      and t: "t = t1 @ t2"
      by (subst (asm) range_by.simps) (auto elim: bind_InrE)
    note first = alternator_batch_Inr [OF one True]
    have split: "[fst sofar..fst sofar + (num_inserts opts - i) - 1] =
        [fst sofar..fst sofar + ?size - 1] @ [fst sofar + ?size..fst sofar + (num_inserts opts - i) - 1]"
      using upto_append [of "fst sofar" "fst sofar + ?size - 1" "fst sofar + (num_inserts opts - i) - 1"] True pos
      by (simp add: add.commute)
    show ?thesis
    proof (cases "i + BATCH \<le> num_inserts opts")
      case True
      have "map hd (written blob_insert t2) =
          map (\<lambda>i. Text (user_key i)) [fst mid..fst mid + (num_inserts opts - (i + BATCH)) - 1] \<and>
        snd sofar' = snd mid + (num_inserts opts - (i + BATCH))"
        by (rule 1(1) [OF _ rest True]) (use pos \<open>i < num_inserts opts\<close> in simp)
      moreover have "?size = BATCH" using True by simp
      ultimately show ?thesis unfolding split using first by (simp add: t)
    next
      case False
      then have "range_by (i + BATCH) (num_inserts opts) BATCH = []" by (subst range_by.simps) simp
      with rest have "t2 = []" "sofar' = mid" by simp_all
      moreover have "?size = num_inserts opts - i" using False by simp
      ultimately show ?thesis using first by (simp add: t)
    qed
  qed
qed

lemma alternator_insert_Inr:
  assumes "alternator_insert E opts w = (t, w', Inr n)" and "0 \<le> num_inserts opts"
  shows "map hd (written blob_insert t) =
      map (\<lambda>i. Text (user_key i)) [user_id_start opts..user_id_start opts + num_inserts opts - 1] \<and>
    n = num_inserts opts"
proof -
  let ?open = "catch (\<lambda>_. True)
            (seq (tell E (Connect (alternator_cluster opts))) (tell E (Use_keyspace (faker_keyspace opts))))
            (\<lambda>_. raise (PyError NameError))"
  let ?loop = "fold_m (alternator_batch E opts) (user_id_start opts, 0) (range_by 0 (num_inserts opts) BATCH)"
  let ?body = "seq (tell E (Prepare blob_insert)) (seq (tell E Time_now)
      (bind ?loop (\<lambda>sofar. seq (tell E Time_now) (ret (snd sofar)))))"
  let ?close = "seq (tell E Session_shutdown) (tell E Cluster_shutdown)"
  from assms(1) obtain t1 w1 t2 where opened: "?open w = (t1, w1, Inr ())"
    and run: "finally_do ?body ?close w1 = (t2, w', Inr n)" and t: "t = t1 @ t2"
    unfolding alternator_insert_def by (auto elim!: seq_InrE)
  from run obtain t3 w2 t4 where body: "?body w1 = (t3, w2, Inr n)" and closed: "?close w2 = (t4, w', Inr ())"
    and t2: "t2 = t3 @ t4"
    by (auto elim: finally_do_InrE)
  from body obtain t5 w5 t6 w6 t7 w7 sofar t8 where
    prep: "tell E (Prepare blob_insert) w1 = (t5, w5, Inr ())" "tell E Time_now w5 = (t6, w6, Inr ())"
    and loop: "?loop w6 = (t7, w7, Inr sofar)" and over: "tell E Time_now w7 = (t8, w2, Inr ())"
    and n: "n = snd sofar" and t3: "t3 = t5 @ t6 @ t7 @ t8"
    by (auto elim!: bind_InrE seq_InrE)
  have "obeys (asks (besides blob_insert)) ?open" "obeys (asks (besides blob_insert)) ?close"
    by (intro asks.obeys_catch asks.obeys_seq asks_tell asks.obeys_raise, simp_all)+
  then have "written blob_insert t1 = []" "written blob_insert t4 = []"
    by (metis besides_run opened, metis besides_run closed)
  moreover have "written blob_insert t5 = []" "written blob_insert t6 = []" "written blob_insert t8 = []"
    using prep over by (auto simp: tell_Inr)
  ultimately show ?thesis
    using alternator_batches_Inr [OF loop] assms(2) by (simp add: t t2 t3 n)
qed

text \<open>The items a run puts, in order.\<close>

fun put_by :: "event \<Rightarrow> row list" where
  "put_by (Put_item r c, a) = [r]"
| "put_by (q, a) = []"

definition puts :: "event list \<Rightarrow> row list" where
  "puts t = concat (map put_by t)"

lemma puts_simps [simp]: "puts [] = []" "puts (e # t) = put_by e @ puts t" "puts (t @ t') = puts t @ puts t'"
  by (simp_all add: puts_def)

fun no_put :: "request \<Rightarrow> bool" where
  "no_put (Put_item r c) = False"
| "no_put q = True"

interpretation putting: observing put_by no_put
proof
  show "no_put q \<Longrightarrow> put_by (q, a) = []" for q a by (cases q) auto
qed

lemmas no_put_run = putting.unobserved [folded puts_def]

lemma put_user_Inr: "put_user E c u w = (t, w', Inr v) \<Longrightarrow> puts t = [item_of u]"
  by (auto simp: put_user_def tolerate_def tell_def bind_def dest!: request_run elim!: catchE split: prod.splits sum.splits)

lemma put_batch_Inr:
  assumes "put_batch E c us n i w = (t, w', Inr n')"
  shows "puts t = map item_of (slice us (nat i) (nat (i + BATCH))) \<and> n' = n + int (length (slice us (nat i) (nat (i + BATCH))))"
proof -
  let ?batch = "slice us (nat i) (nat (i + BATCH))"
  have each: "puts t = map item_of batch" if "for_each (put_user E c) batch w = (t, w', Inr v)" for batch w t w' v
    using that by (induction batch arbitrary: w t) (auto simp: seq_Inr_iff dest: put_user_Inr)
  from assms obtain t1 w1 t2 w2 t3 where clock: "tell E Time_now w = (t1, w1, Inr ())"
    and batch: "for_each (put_user E c) ?batch w1 = (t2, w2, Inr ())"
    and prog: "progress E (n + int (length ?batch)) w2 = (t3, w', Inr ())"
    and res: "n' = n + int (length ?batch)" and t: "t = t1 @ t2 @ t3"
    unfolding put_batch_def Let_def by (auto elim!: seq_InrE)
  have "obeys (asks no_put) (progress E (n + int (length ?batch)))" by auto
  from no_put_run [OF this prog] each [OF batch] clock show ?thesis by (auto simp: t res tell_Inr)
qed

lemma put_batches_Inr:
  assumes "fold_m (put_batch E c us) n (range_by i (int (length us)) BATCH) w = (t, w', Inr n')" and "0 \<le> i"
  shows "puts t = map item_of (drop (nat i) us) \<and> n' = n + int (length (drop (nat i) us))"
  using assms
proof (induction i "int (length us)" BATCH arbitrary: n w t rule: range_by.induct)
  case (1 i)
  show ?case
  proof (cases "i < int (length us)")
    case False
    with 1(2,3) show ?thesis by (subst (asm) range_by.simps) (auto simp: nat_le_iff le_nat_iff)
  next
    case True
    have pos: "0 < BATCH" by (simp add: BATCH_def)
    with True 1(2) obtain t1 w1 mid t2 where
      one: "put_batch E c us n i w = (t1, w1, Inr mid)"
      and rest: "fold_m (put_batch E c us) mid (range_by (i + BATCH) (int (length us)) BATCH) w1 = (t2, w', Inr n')"
      and t: "t = t1 @ t2"
      by (subst (asm) range_by.simps) (auto elim: bind_InrE)
    have "drop (nat i) us = slice us (nat i) (nat (i + BATCH)) @ drop (nat (i + BATCH)) us"
      using 1(3) pos append_take_drop_id [of "nat (i + BATCH) - nat i" "drop (nat i) us"]
      by (simp add: slice_def nat_add_distrib add.commute)
    moreover have "puts t2 = map item_of (drop (nat (i + BATCH)) us) \<and> n' = mid + int (length (drop (nat (i + BATCH)) us))"
      by (rule 1(1) [OF _ rest]) (use pos True 1(3) in simp_all)
    ultimately show ?thesis using put_batch_Inr [OF one] by (simp add: t)
  qed
qed

text \<open>\<open>--num-inserts\<close> rounded up to whole batches.\<close>

definition rounded :: "int \<Rightarrow> int" where
  "rounded k = BATCH * ((k + BATCH - 1) div BATCH)"

lemma rounded_bounds: "rounded k mod 1000 = 0" "k \<le> rounded k" "rounded k < k + 1000"
  using minus_mod_eq_mult_div [of "k + 999" 1000] pos_mod_bound [of 1000 "k + 999"] pos_mod_sign [of 1000 "k + 999"]
  by (simp_all add: rounded_def BATCH_def)

subsection \<open>Runs that succeed\<close>

lemma succeeds_generate [success]:
  assumes "willing E"
  shows "succeeds (generate_data E s n skew)" "succeeds (generate_users E s n)"
    "succeeds (write_time E fixed skew)" "succeeds (progress E total_inserted)"
  unfolding generate_data_def generate_users_def generate_user_def write_time_def progress_def
  using assms by (auto intro!: success split: option.split)

lemma succeeds_faker:
  assumes "willing E" "faker_endpoint (faker_hosts opts) = Inr e"
    "faker_cluster fs (fst e) (snd e) (faker_username opts) (faker_password opts) (faker_dc opts) = Inr c"
  shows "succeeds (faker_main E fs opts)"
  unfolding faker_main_def faker_schema_def faker_verify_def faker_batch_def assms(2)
  using assms by (auto intro!: success)

subsection \<open>Properties\<close>

text \<open>
  C34: A run of \<open>cql-faker.py\<close> that returns has inserted users with consecutive identifiers from
  \<open>--user-id-start\<close> on, each once and in order. Their number, which it reports, is \<open>--num-inserts\<close> rounded up to
  whole batches of 1000: the last batch is not cut. It does return when the options name a cluster and
  every request is answered.
\<close>

theorem faker_inserts_whole_batches:
  assumes "0 \<le> num_inserts opts"
  shows "(\<forall>t w' n. faker_main E fs opts w = (t, w', Inr n) \<longrightarrow>
      n mod 1000 = 0 \<and> num_inserts opts \<le> n \<and> n < num_inserts opts + 1000 \<and>
      map hd (written faker_insert t) =
        map (\<lambda>i. Text (''user'' @ dec_int i)) [user_id_start opts..user_id_start opts + n - 1]) \<and>
    (willing E \<and> (\<exists>e c. faker_endpoint (faker_hosts opts) = Inr e \<and>
        faker_cluster fs (fst e) (snd e) (faker_username opts) (faker_password opts) (faker_dc opts) = Inr c) \<longrightarrow>
      result (faker_main E fs opts) w = Inr (rounded (num_inserts opts)))"
proof (intro conjI allI impI)
  have n: "n = rounded (num_inserts opts)" and
    keys: "map hd (written faker_insert t) =
      map (\<lambda>i. Text (user_key i)) [user_id_start opts..user_id_start opts + n - 1]"
    if "faker_main E fs opts w = (t, w', Inr n)" for t w' n
    using faker_main_Inr [OF that assms] by (simp_all add: rounded_def)
  fix t w' n
  assume run: "faker_main E fs opts w = (t, w', Inr n)"
  show "n mod 1000 = 0" "num_inserts opts \<le> n" "n < num_inserts opts + 1000"
    using rounded_bounds by (simp_all add: n [OF run])
  show "map hd (written faker_insert t) =
      map (\<lambda>i. Text (''user'' @ dec_int i)) [user_id_start opts..user_id_start opts + n - 1]"
    using keys [OF run] by (simp only: user_key_def)
next
  assume "willing E \<and> (\<exists>e c. faker_endpoint (faker_hosts opts) = Inr e \<and>
        faker_cluster fs (fst e) (snd e) (faker_username opts) (faker_password opts) (faker_dc opts) = Inr c)"
  then have "succeeds (faker_main E fs opts)" by (blast intro: succeeds_faker)
  then obtain t w' n where "faker_main E fs opts w = (t, w', Inr n)" by (rule succeedsE)
  with faker_main_Inr [OF this assms] show "result (faker_main E fs opts) w = Inr (rounded (num_inserts opts))"
    by (simp add: result_def rounded_def)
qed

definition some_faker_args :: faker_args where
  "some_faker_args = faker_defaults\<lparr>num_inserts := 1\<rparr>"

lemma willing_quiet: "willing quiet_server"
  by (simp add: willing_def quiet_server_def split: request.split)

theorem faker_inserts_whole_batches_witness:
  "result (faker_main quiet_server tls_files some_faker_args) () = Inr 1000"
proof -
  have e: "faker_endpoint (faker_hosts some_faker_args) = Inr ([''scylla-client.scylla-dc1.svc''], 9042)"
    by code_simp
  moreover have "dec_int 9042 = ''9042''" by (simp add: dec_int_def dec.simps) code_simp
  then have "\<exists>c. faker_cluster tls_files [''scylla-client.scylla-dc1.svc''] 9042
      (faker_username some_faker_args) (faker_password some_faker_args) (faker_dc some_faker_args) = Inr c"
    by (simp add: faker_cluster_def tls_setup_of_def TLS_PORT_def)
  moreover have "num_inserts some_faker_args = 1" by (simp add: some_faker_args_def)
  ultimately show ?thesis
    using faker_inserts_whole_batches [of some_faker_args quiet_server tls_files "()"] willing_quiet
    by (simp add: rounded_def BATCH_def)
qed

text \<open>Every run of \<open>main\<close> of \<open>cql-alternator-faker.py\<close> stops at the missing option.\<close>

fun table_request :: "request \<Rightarrow> bool" where
  "table_request (Table_op op table) = (op = ''delete_table'' \<or> op = ''list_tables'')"
| "table_request q = False"

lemma cql_alternator_stops:
  "(\<exists>e. result (cql_alternator_main E opts) w = Inl (Exn e)) \<and>
   list_all (\<lambda>c. table_request (fst c)) (trace_of (cql_alternator_main E opts) w)"
proof -
  let ?drop = "if faker_drop opts
    then tolerate ''ResourceNotFoundException'' (tell E (Table_op ''delete_table'' ''userid'')) else ret ()"
  let ?upto = "seq ?drop (seq (tell E (Table_op ''list_tables'' [])) (raise (PyError AttributeError) :: ('a, int) script))"
  have "\<not> (''range'' \<in> set alternator_options)" by (simp add: alternator_options_def)
  then have main: "cql_alternator_main E opts = ?upto"
    unfolding cql_alternator_main_def by (simp add: attribute_def lift_def)
  have "obeys (asks table_request) ?drop" "obeys ending ?drop"
    unfolding tolerate_def
    by (auto intro!: asks.obeys_catch asks.obeys_ret asks_tell ending.obeys_catch ending_requests)
  then have asked: "obeys (asks table_request) ?upto" and ends: "obeys ending ?upto"
    by (auto intro!: asks.obeys_seq asks_tell ending.obeys_seq ending_requests)
  obtain t w' r where run: "?upto w = (t, w', r)" by (rule prod_cases3)
  then have "r \<noteq> Inr x" for x using run by (auto simp: seq_Inr_iff raise_def halt_def)
  moreover have "r \<noteq> Inl Out_of_fuel" using run endingD [OF ends] by blast
  ultimately have "\<exists>e. r = Inl (Exn e)" by (cases r) (auto, metis stop.exhaust)
  moreover have "list_all (\<lambda>c. table_request (fst c)) t"
    using asksD [OF asked run] by (auto simp: list_all_iff)
  moreover have "cql_alternator_main E opts w = (t, w', r)" unfolding main by (rule run)
  ultimately show ?thesis by (simp add: result_def trace_of_def)
qed

text \<open>
  C35: \<open>cql-alternator-faker.py\<close> inserts nothing: it reads \<open>args.range\<close>, an option its parser does not
  define, so whatever the command line, the process ends with an exception or an exit, and before it
  only the table operations of the Alternator client have been requested; no cluster is connected to and
  no statement executed.
\<close>

theorem cql_alternator_never_inserts:
  "(\<exists>e. result (alternator_process E argv) w = Inl (Exn e)) \<and>
   list_all (\<lambda>c. table_request (fst c)) (trace_of (alternator_process E argv) w)"
proof (cases "parse_alternator_args argv")
  case (Inl e)
  then show ?thesis by (simp add: alternator_process_def with_args_def raise_def halt_def result_def trace_of_def)
next
  case (Inr opts)
  then show ?thesis using cql_alternator_stops [of E opts w] by (simp add: alternator_process_def with_args_def)
qed

text \<open>
  The insertion loop of \<open>cql-alternator-faker.py\<close> itself is exact, unlike that of \<open>cql-faker.py\<close>: a run of
  it that returns has inserted \<open>--num-inserts\<close> users, the last batch cut to what remains, with consecutive
  identifiers, each once and in order.
\<close>

theorem alternator_insert_exact:
  assumes "alternator_insert E opts w = (t, w', Inr n)" and "0 \<le> num_inserts opts"
  shows "map hd (written blob_insert t) =
      map (\<lambda>i. Text (''user'' @ dec_int i)) [user_id_start opts..user_id_start opts + num_inserts opts - 1] \<and>
    n = num_inserts opts"
  using alternator_insert_Inr [OF assms] by (simp only: user_key_def)

theorem alternator_insert_exact_witness:
  "length (written blob_insert (trace_of (alternator_insert quiet_server some_faker_args) ())) = 1"
proof -
  have "result (alternator_insert quiet_server some_faker_args) () = Inr 1"
    by code_simp
  from alternator_insert_exact [OF run_Inr [OF this]] show ?thesis
    by (simp add: some_faker_args_def faker_defaults_def flip: length_map [of hd])
qed

text \<open>
  A run of \<open>alternator-faker.py\<close> that returns has put \<open>--num-inserts\<close> items with consecutive user
  identifiers, each once and in order, and reports that number: batching by slices neither drops nor
  repeats a user, and a failed conditional check does not stop the run.
\<close>

theorem put_every_user_once:
  assumes "put_main E opts w = (t, w', Inr n)" and "0 \<le> put_count opts"
  shows "map hd (puts t) =
      map (\<lambda>i. (''UserID'', Text (''user'' @ dec_int i))) [put_start opts..put_start opts + put_count opts - 1] \<and>
    n = put_count opts"
proof -
  let ?drop = "if put_delete opts
    then tolerate ''ResourceNotFoundException'' (tell E (Table_op ''delete_table'' ''userid'')) else ret ()"
  let ?create = "tolerate ''ResourceInUseException'' (tell E (Table_op (create_table_op (range_key opts)) ''userid''))"
  from assms(1) obtain t1 w1 t2 w2 t3 w3 t4 w4 us t5 w5 start t6 w6 t7 w7 now t8 where
    tables: "?drop w = (t1, w1, Inr ())" "tell E (Table_op ''list_tables'' []) w1 = (t2, w2, Inr ())"
      "?create w2 = (t3, w3, Inr ())"
    and gen: "generate_users E (put_start opts) (put_count opts) w3 = (t4, w4, Inr us)"
    and clock: "number E Time_now w4 = (t5, w5, Inr start)"
    and loop: "fold_m (put_batch E (conditional_check opts) us) 0 (range_by 0 (int (length us)) BATCH) w5 = (t6, w6, Inr n)"
    and over: "number E Time_now w6 = (t7, w7, Inr now)" "tell E (Scan ''userid'' 10) w7 = (t8, w', Inr ())"
    and t: "t = t1 @ t2 @ t3 @ t4 @ t5 @ t6 @ t7 @ t8"
    unfolding put_main_def
    by (auto elim!: bind_InrE seq_InrE simp: raise_def halt_def split: if_splits)
  have "obeys (asks no_put) ?drop" "obeys (asks no_put) ?create"
    unfolding tolerate_def by (auto intro!: asks.obeys_catch asks.obeys_ret asks_tell)
  then have "puts t1 = []" "puts t3 = []" by (metis no_put_run tables(1), metis no_put_run tables(3))
  moreover have "obeys (asks no_put) (generate_users E (put_start opts) (put_count opts))" by auto
  then have "puts t4 = []" by (metis no_put_run gen)
  moreover have "puts t2 = []" "puts t5 = []" "puts t7 = []" "puts t8 = []"
    using tables(2) clock over by (auto simp: script_runs)
  ultimately have puts: "puts t = map item_of us" and n: "n = int (length us)"
    using put_batches_Inr [OF loop] by (simp_all add: t)
  have "map hd (puts t) = map (\<lambda>k. (''UserID'', Text k)) (map userid us)"
    by (simp add: puts item_of_def)
  with generate_users_Inr [OF gen] length_generated [OF generate_users_Inr [OF gen]] n assms(2)
  show ?thesis by (simp add: user_key_def)
qed

definition ticking_clock :: "int server" where
  "ticking_clock w q = (case q of Time_now \<Rightarrow> (Value w, w + 1000) | _ \<Rightarrow> (Ok, w))"

theorem put_every_user_once_witness:
  "length (puts (trace_of (put_main ticking_clock (put_defaults\<lparr>put_count := 2\<rparr>)) 0)) = 2"
proof -
  have "result (put_main ticking_clock (put_defaults\<lparr>put_count := 2\<rparr>)) 0 = Inr 2"
    by (simp add: put_main_def put_defaults_def tolerate_def seq_def bind_def catch_def tell_def ask_def number_def
        ticking_clock_def ret_def create_table_op_def generate_users_def generate_user_def randint_def value_of_def
        put_batch_def slice_def put_user_def progress_def BATCH_def range_by.simps upto.simps result_def)
  from put_every_user_once [OF run_Inr [OF this]] show ?thesis
    by (simp add: put_defaults_def flip: length_map [of hd])
qed

end
