(* ===== verification/Counters.thy ===== *)
theory Counters
  imports Driver
begin

text \<open>
  \<open>sample_app/copy_counter_table_vnodes_to_tablets.py\<close>, which copies a counter table by incrementing the
  counters of an empty one: its statements, what they rely on of a server that counts, and the copy.
\<close>

subsection \<open>Copying a counter table\<close>

definition CONTACT_POINTS :: "string list" where
  "CONTACT_POINTS = [''scylla-client'']"

definition CREDENTIALS :: "string \<times> string" where
  "CREDENTIALS = (''cassandra'', ''cassandra'')"

definition SOURCE_KS :: string where
  "SOURCE_KS = ''vnodes_ks''"

definition DEST_KS :: string where
  "DEST_KS = ''tablets_ks''"

definition PAGE_TABLE :: string where
  "PAGE_TABLE = ''page_views''"

definition SAMPLE_VIEWS :: "(string \<times> int) list" where
  "SAMPLE_VIEWS = [(''home'', 42), (''pricing'', 17), (''docs'', 8), (''blog'', 5), (''signup'', 23)]"

definition page_table_spec :: table_spec where
  "page_table_spec =
     \<lparr>columns = [(''page_id'', ''text''), (''views'', ''counter'')], partition_key = [''page_id''],
      clustering_key = [], with_options = []\<rparr>"

definition replicated :: "string \<Rightarrow> keyspace_spec" where
  "replicated enabled =
     \<lparr>strategy = ''NetworkTopologyStrategy'', replication_factor = 3, tablets_enabled = Some enabled\<rparr>"

definition bump_views :: "string \<Rightarrow> statement" where
  "bump_views keyspace = Increment (table_in keyspace PAGE_TABLE) ''views'' None ''page_id''"

definition select_views :: "string \<Rightarrow> statement" where
  "select_views keyspace = Select [''page_id'', ''views''] (table_in keyspace PAGE_TABLE) []"

text \<open>A column of a row; rows name their columns.\<close>

definition col :: "row \<Rightarrow> string \<Rightarrow> cell py" where
  "col r c = (case map_of r c of Some v \<Rightarrow> Inr v | None \<Rightarrow> Inl AttributeError)"

text \<open>Formatting with a width, as in \<open>{row.page_id:10s}\<close>, refuses \<open>None\<close>.\<close>

definition formatted :: "row \<Rightarrow> string \<Rightarrow> unit py" where
  "formatted r c = ebind (col r c) (\<lambda>v. if v = Null then Inl TypeError else Inr ())"

definition print_table :: "'w server \<Rightarrow> string \<Rightarrow> ('w, unit) script" where
  "print_table E keyspace =
     bind (fetch E (select_views keyspace) []) (\<lambda>rows.
     for_each (\<lambda>r. lift (ebind (formatted r ''page_id'') (\<lambda>_. ebind (col r ''views'') (\<lambda>_. Inr ())))) rows)"

definition copy_row :: "'w server \<Rightarrow> row \<Rightarrow> ('w, unit) script" where
  "copy_row E r =
     bind (lift (ebind (col r ''views'') (\<lambda>v. ebind (col r ''page_id'') (\<lambda>k. Inr (v, k))))) (\<lambda>(v, k).
     tell E (Execute (bump_views DEST_KS) [v, k]))"

definition copy_main :: "'w server \<Rightarrow> ('w, unit) script" where
  "copy_main E =
     seq (tell E (Connect_plain CONTACT_POINTS 9042 CREDENTIALS None))
    (seq (tell E (Execute (Create_keyspace SOURCE_KS (replicated ''false'')) []))
    (seq (tell E (Execute (Create_table (table_in SOURCE_KS PAGE_TABLE) page_table_spec) []))
    (seq (for_each (\<lambda>(page, n). tell E (Execute (bump_views SOURCE_KS) [Number n, Text page])) SAMPLE_VIEWS)
    (seq (print_table E SOURCE_KS)
    (seq (tell E (Execute (Create_keyspace DEST_KS (replicated ''true'')) []))
    (seq (tell E (Execute (Create_table (table_in DEST_KS PAGE_TABLE) page_table_spec) []))
    (bind (fetch E (select_views SOURCE_KS) []) (\<lambda>rows.
     seq (for_each (copy_row E) rows)
    (seq (print_table E DEST_KS)
         (tell E Cluster_shutdown))))))))))"

subsection \<open>What a counter table promises\<close>

text \<open>
  \<open>views w ks\<close> is the page table of a keyspace. An increment adds to a counter, which starts at 0; a
  selection of the table lists it; statements that create if nothing exists change no counter.
\<close>

definition bumped :: "(string \<Rightarrow> int option) \<Rightarrow> string \<Rightarrow> int \<Rightarrow> string \<Rightarrow> int option" where
  "bumped m k n = m(k \<mapsto> (case m k of None \<Rightarrow> n | Some x \<Rightarrow> x + n))"

definition view_rows :: "(string \<times> int) list \<Rightarrow> row list" where
  "view_rows kvs = map (\<lambda>(k, n). [(''page_id'', Text k), (''views'', Number n)]) kvs"

fun creating :: "request \<Rightarrow> bool" where
  "creating (Execute (Create_keyspace ks spec) cs) = True"
| "creating (Execute (Create_table tb spec) cs) = True"
| "creating (Connect_plain h p c k) = True"
| "creating Cluster_shutdown = True"
| "creating q = False"

definition counts_views :: "'w server \<Rightarrow> ('w \<Rightarrow> string \<Rightarrow> string \<Rightarrow> int option) \<Rightarrow> bool" where
  "counts_views E views \<longleftrightarrow>
     (\<forall>w ks k n. \<exists>w'. E w (Execute (bump_views ks) [Number n, Text k]) = (Ok, w') \<and>
        views w' = (views w)(ks := bumped (views w ks) k n)) \<and>
     (\<forall>w ks. \<exists>w' kvs. E w (Execute (select_views ks) []) = (Rows (view_rows kvs), w') \<and> views w' = views w \<and>
        distinct (map fst kvs) \<and> map_of kvs = views w ks) \<and>
     (\<forall>w q. creating q \<longrightarrow> (\<exists>w'. E w q = (Ok, w') \<and> views w' = views w))"

lemma counts_bump:
  assumes "counts_views E views" and "\<And>w'. views w' = (views w)(ks := bumped (views w ks) k n) \<Longrightarrow> P w' ()"
  shows "yields (tell E (Execute (bump_views ks) [Number n, Text k])) w P"
proof -
  from assms(1) obtain w' where "E w (Execute (bump_views ks) [Number n, Text k]) = (Ok, w')"
    "views w' = (views w)(ks := bumped (views w ks) k n)"
    unfolding counts_views_def by meson
  with assms(2) show ?thesis by (intro yields_tell) auto
qed

lemma counts_select:
  assumes "counts_views E views"
    and "\<And>w' kvs. views w' = views w \<Longrightarrow> distinct (map fst kvs) \<Longrightarrow> map_of kvs = views w ks \<Longrightarrow> P w' (view_rows kvs)"
  shows "yields (fetch E (select_views ks) []) w P"
proof -
  from assms(1) obtain w' kvs where "E w (Execute (select_views ks) []) = (Rows (view_rows kvs), w')"
    "views w' = views w" "distinct (map fst kvs)" "map_of kvs = views w ks"
    unfolding counts_views_def by meson
  with assms(2) show ?thesis by (intro yields_fetch) auto
qed

lemma counts_create:
  assumes "counts_views E views" "creating q" and "\<And>w'. views w' = views w \<Longrightarrow> P w' ()"
  shows "yields (tell E q) w P"
proof -
  from assms(1,2) obtain w' where "E w q = (Ok, w')" "views w' = views w"
    unfolding counts_views_def by meson
  with assms(3) show ?thesis by (intro yields_tell) auto
qed

subsection \<open>Adding up\<close>

text \<open>A table after increments; with distinct keys every counter grows by its own increment.\<close>

definition added :: "(string \<times> int) list \<Rightarrow> (string \<Rightarrow> int option) \<Rightarrow> string \<Rightarrow> int option" where
  "added kvs m k = (case map_of kvs k of None \<Rightarrow> m k | Some n \<Rightarrow> Some (case m k of None \<Rightarrow> n | Some x \<Rightarrow> x + n))"

lemma added_fun:
  "added kvs m = (\<lambda>k. case map_of kvs k of None \<Rightarrow> m k | Some n \<Rightarrow> Some (case m k of None \<Rightarrow> n | Some x \<Rightarrow> x + n))"
  by (simp add: added_def fun_eq_iff)

lemma added_Nil [simp]: "added [] m = m"
  by (simp add: added_def fun_eq_iff)

lemma added_Cons: "k \<notin> fst ` set kvs \<Longrightarrow> added ((k, n) # kvs) m = added kvs (bumped m k n)"
  by (auto simp: added_def bumped_def fun_eq_iff map_of_eq_None_iff [symmetric] split: option.split)

lemma added_empty: "added kvs (\<lambda>_. None) = map_of kvs"
  by (simp add: added_def fun_eq_iff split: option.split)

lemma bump_all:
  assumes C: "counts_views E views" and "distinct (map fst kvs)"
    and body: "\<And>k n. (k, n) \<in> set kvs \<Longrightarrow> body (f (k, n)) = tell E (Execute (bump_views ks) [Number n, Text k])"
    and "\<And>w'. views w' = (views w)(ks := added kvs (views w ks)) \<Longrightarrow> P w' ()"
  shows "yields (for_each body (map f kvs)) w P"
  using assms(2-4)
proof (induction kvs arbitrary: w)
  case Nil
  have "P w ()" by (rule Nil.prems(3)) simp
  then show ?case unfolding list.map for_each.simps by (rule yields_ret)
next
  case (Cons kn kvs)
  obtain k n where kn: "kn = (k, n)" by (cases kn)
  from Cons.prems(1) have new: "k \<notin> fst ` set kvs" by (simp add: kn)
  have "yields (for_each body (map f kvs)) w' P" if w': "views w' = (views w)(ks := bumped (views w ks) k n)" for w'
  proof (rule Cons.IH)
    fix v
    assume "views v = (views w')(ks := added kvs (views w' ks))"
    then have "views v = (views w)(ks := added (kn # kvs) (views w ks))"
      by (simp only: w' kn added_Cons [OF new] fun_upd_upd fun_upd_same)
    then show "P v ()" by (rule Cons.prems(3))
  qed (use Cons.prems(1,2) in auto)
  with Cons.prems(2) [of k n] show ?case
    by (auto simp: kn intro!: yields_seq counts_bump [OF C])
qed

lemma print_table_keeps:
  assumes "counts_views E views" and "\<And>w'. views w' = views w \<Longrightarrow> P w' ()"
  shows "yields (print_table E ks) w P"
proof -
  have "for_each (\<lambda>r. lift (ebind (formatted r ''page_id'') (\<lambda>_. ebind (col r ''views'') (\<lambda>_. Inr ())))) (view_rows kvs) =
      (ret () :: ('a, unit) script)" for kvs
    by (induction kvs) (auto simp: view_rows_def formatted_def col_def fun_eq_iff seq_def bind_def)
  with assms(2) show ?thesis
    unfolding print_table_def by (auto intro!: yields_bind counts_select [OF assms(1)] yields_ret)
qed

lemma copy_rows_run:
  assumes C: "counts_views E views" and "distinct (map fst kvs)"
    and "\<And>w'. views w' = (views w)(DEST_KS := added kvs (views w DEST_KS)) \<Longrightarrow> P w' ()"
  shows "yields (for_each (copy_row E) (view_rows kvs)) w P"
  unfolding view_rows_def
  by (rule bump_all [where ks = DEST_KS, OF C assms(2)])
    (auto simp: copy_row_def col_def fun_eq_iff bind_def intro: assms(3))

lemma distinct_samples: "distinct (map fst SAMPLE_VIEWS)"
  by (simp add: SAMPLE_VIEWS_def)

text \<open>The whole script: first the samples are added to the source, then the source to the destination.\<close>

lemma copy_main_run:
  assumes C: "counts_views E views"
  shows "yields (copy_main E) w (\<lambda>w' _.
    views w' = (views w)(SOURCE_KS := added SAMPLE_VIEWS (views w SOURCE_KS),
      DEST_KS := (\<lambda>k. case added SAMPLE_VIEWS (views w SOURCE_KS) k of
          None \<Rightarrow> views w DEST_KS k
        | Some n \<Rightarrow> Some (case views w DEST_KS k of None \<Rightarrow> n | Some x \<Rightarrow> x + n))))"
proof -
  have apart: "DEST_KS \<noteq> SOURCE_KS" by (simp add: DEST_KS_def SOURCE_KS_def)
  have seed: "yields (for_each (\<lambda>(page, n). tell E (Execute (bump_views SOURCE_KS) [Number n, Text page])) SAMPLE_VIEWS) v P"
    if "\<And>v'. views v' = (views v)(SOURCE_KS := added SAMPLE_VIEWS (views v SOURCE_KS)) \<Longrightarrow> P v' ()" for v P
    using bump_all [OF C distinct_samples, where f = "\<lambda>x. x" and ks = SOURCE_KS and w = v and P = P] that
    by (simp add: split_def)
  show ?thesis
    unfolding copy_main_def
    by (intro yields_seq yields_bind counts_create [OF C] seed print_table_keeps [OF C] counts_select [OF C]
        copy_rows_run [OF C])
      (simp_all only: creating.simps apart fun_upd_same fun_upd_other added_fun not_False_eq_True)
qed

subsection \<open>Properties\<close>

text \<open>
  C24: Copying counters. Against a server that counts, the script returns and leaves every other table
  alone. The source has grown by the samples, and every counter of the source has been added to the one
  of the destination: an empty destination ends up as an exact copy, any other one does not, which is why
  the script must not be run twice.
\<close>

theorem counters_copied:
  assumes "counts_views E views"
  shows "result (copy_main E) w = Inr () \<and>
    (let after = views (final (copy_main E) w) in
      after SOURCE_KS = added SAMPLE_VIEWS (views w SOURCE_KS) \<and>
      after DEST_KS = (\<lambda>k. case after SOURCE_KS k of
          None \<Rightarrow> views w DEST_KS k
        | Some n \<Rightarrow> Some (case views w DEST_KS k of None \<Rightarrow> n | Some x \<Rightarrow> x + n)) \<and>
      (views w DEST_KS = (\<lambda>_. None) \<longrightarrow> after DEST_KS = after SOURCE_KS) \<and>
      (\<forall>ks. ks \<noteq> SOURCE_KS \<and> ks \<noteq> DEST_KS \<longrightarrow> after ks = views w ks))"
proof -
  have "DEST_KS \<noteq> SOURCE_KS" by (simp add: DEST_KS_def SOURCE_KS_def)
  with yieldsD [OF copy_main_run [OF assms, of w]] show ?thesis
    by (auto simp: Let_def fun_eq_iff split: option.split)
qed

text \<open>A server that counts: every table is an association list.\<close>

definition counter_server :: "(string \<Rightarrow> (string \<times> int) list) server" where
  "counter_server w q =
     (case q of
        Execute (Increment tb c b k) [Number n, Text key] \<Rightarrow>
          (Ok, w(tb := (key, case map_of (w tb) key of None \<Rightarrow> n | Some x \<Rightarrow> x + n) # w tb))
      | Execute (Select cs tb p) [] \<Rightarrow> (Rows (view_rows (AList.clearjunk (w tb))), w)
      | _ \<Rightarrow> (Ok, w))"

lemma counter_server_counts: "counts_views counter_server (\<lambda>w ks. map_of (w (table_in ks PAGE_TABLE)))"
proof -
  have other: "counter_server w q = (Ok, w)" if "creating q" for w q
    using that by (cases q rule: creating.cases) (simp_all add: counter_server_def)
  have inj: "table_in ks PAGE_TABLE = table_in ks' PAGE_TABLE \<longleftrightarrow> ks = ks'" for ks ks'
    by (simp add: table_in_def)
  show ?thesis
    unfolding counts_views_def
  proof (intro conjI allI impI)
    fix w ks k n
    show "\<exists>w'. counter_server w (Execute (bump_views ks) [Number n, Text k]) = (Ok, w') \<and>
        (\<lambda>ks. map_of (w' (table_in ks PAGE_TABLE))) =
          (\<lambda>ks. map_of (w (table_in ks PAGE_TABLE)))(ks := bumped (map_of (w (table_in ks PAGE_TABLE))) k n)"
      by (rule exI [of _ "w(table_in ks PAGE_TABLE :=
          (k, case map_of (w (table_in ks PAGE_TABLE)) k of None \<Rightarrow> n | Some x \<Rightarrow> x + n) # w (table_in ks PAGE_TABLE))"])
        (simp add: counter_server_def bump_views_def bumped_def fun_eq_iff inj)
  next
    fix w ks
    show "\<exists>w' kvs. counter_server w (Execute (select_views ks) []) = (Rows (view_rows kvs), w') \<and>
        (\<lambda>ks. map_of (w' (table_in ks PAGE_TABLE))) = (\<lambda>ks. map_of (w (table_in ks PAGE_TABLE))) \<and>
        distinct (map fst kvs) \<and> map_of kvs = map_of (w (table_in ks PAGE_TABLE))"
      by (auto simp: counter_server_def select_views_def map_of_clearjunk distinct_clearjunk
          intro!: exI [of _ "AList.clearjunk (w (table_in ks PAGE_TABLE))"])
  next
    fix w q
    assume "creating q"
    with other show "\<exists>w'. counter_server w q = (Ok, w') \<and>
        (\<lambda>ks. map_of (w' (table_in ks PAGE_TABLE))) = (\<lambda>ks. map_of (w (table_in ks PAGE_TABLE)))"
      by auto
  qed
qed

theorem counters_copied_witness:
  "map_of (final (copy_main counter_server) (\<lambda>_. []) (table_in DEST_KS PAGE_TABLE)) ''home'' = Some 42"
  using counters_copied [OF counter_server_counts, of "\<lambda>_. []"]
  by (simp add: Let_def added_empty SAMPLE_VIEWS_def)

end
