(* ===== verification/Vnodes.thy ===== *)
theory Vnodes
  imports Serial Counters
begin

text \<open>
  \<open>sample_app/create_vnodes_ks_index_mv_counters.py\<close>: builds a keyspace with an index, a view and (with
  \<open>-c\<close>) a counter table, seeds it, and reads it back; \<open>retry\<close> gives the index and the view time to appear.
\<close>

subsection \<open>Schema and data\<close>

definition VNODES_KS :: string where
  "VNODES_KS = ''vnodes_ks''"

definition REPLICATION_FACTOR :: int where
  "REPLICATION_FACTOR = 3"

definition SENSOR_TABLE :: string where
  "SENSOR_TABLE = ''sensor_readings''"

definition INDEX :: string where
  "INDEX = ''sensor_readings_region_idx''"

definition VIEW :: string where
  "VIEW = ''sensor_readings_by_region''"

definition COUNTER_TABLE :: string where
  "COUNTER_TABLE = ''device_event_counts''"

definition SAMPLE_DATA :: "(string \<times> string \<times> rat) list" where
  "SAMPLE_DATA =
     [(''dev-001'', ''us-east'', to_double (215 / 10)), (''dev-002'', ''us-east'', to_double (231 / 10)),
      (''dev-003'', ''us-west'', to_double (198 / 10)), (''dev-004'', ''eu-central'', to_double (254 / 10)),
      (''dev-005'', ''eu-central'', to_double 24)]"

definition READINGS_PER_DEVICE :: int where
  "READINGS_PER_DEVICE = 3"

definition sensor_columns :: "(string \<times> string) list" where
  "sensor_columns =
     [(''device_id'', ''text''), (''reading_time'', ''timestamp''), (''region'', ''text''), (''temperature'', ''double'')]"

definition vnodes_schema :: "'w server \<Rightarrow> ('w, unit) script" where
  "vnodes_schema E =
     seq (tell E (Execute (Drop_keyspace VNODES_KS) []))
    (seq (tell E (Execute (Create_keyspace VNODES_KS
            \<lparr>strategy = ''NetworkTopologyStrategy'', replication_factor = REPLICATION_FACTOR,
             tablets_enabled = Some ''false''\<rparr>) []))
    (seq (tell E (Execute (Create_table (table_in VNODES_KS SENSOR_TABLE)
            \<lparr>columns = sensor_columns, partition_key = [''device_id''], clustering_key = [(''reading_time'', False)],
             with_options = []\<rparr>) []))
    (seq (tell E (Execute (Create_index INDEX (table_in VNODES_KS SENSOR_TABLE) ''region'') []))
         (tell E (Execute (Create_view (table_in VNODES_KS VIEW) (table_in VNODES_KS SENSOR_TABLE)
            [''region'', ''device_id'', ''reading_time'', ''temperature''] [''region'', ''device_id'', ''reading_time'']
            \<lparr>columns = [], partition_key = [''region''],
             clustering_key = [(''device_id'', True), (''reading_time'', False)], with_options = []\<rparr>) [])))))"

definition counter_table_spec :: table_spec where
  "counter_table_spec =
     \<lparr>columns = [(''device_id'', ''text''), (''readings'', ''counter''), (''errors'', ''counter'')],
      partition_key = [''device_id''], clustering_key = [], with_options = []\<rparr>"

definition insert_reading :: statement where
  "insert_reading = Insert (table_in VNODES_KS SENSOR_TABLE) (map fst sensor_columns) []"

definition bump_readings :: statement where
  "bump_readings = Increment (table_in VNODES_KS COUNTER_TABLE) ''readings'' None ''device_id''"

definition bump_errors :: statement where
  "bump_errors = Increment (table_in VNODES_KS COUNTER_TABLE) ''errors'' (Some 1) ''device_id''"

text \<open>The \<open>i\<close>-th reading of a device: minutes go back from \<open>now\<close> (in microseconds), doubles go up by 0.3.\<close>

definition reading_row :: "int \<Rightarrow> string \<times> string \<times> rat \<Rightarrow> int \<Rightarrow> cell list" where
  "reading_row now d i =
     (case d of (device_id, region, temperature) \<Rightarrow>
        [Text device_id, Number (now - i * 60000000), Text region,
         Real (to_double (temperature + to_double (of_int i * to_double (3 / 10))))])"

definition seed_device :: "'w server \<Rightarrow> bool \<Rightarrow> int \<Rightarrow> string \<times> string \<times> rat \<Rightarrow> ('w, unit) script" where
  "seed_device E counters now d =
     seq (for_each (\<lambda>i. tell E (Execute insert_reading (reading_row now d i))) [0..READINGS_PER_DEVICE - 1])
         (if counters then tell E (Execute bump_readings [Number READINGS_PER_DEVICE, Text (fst d)]) else ret ())"

definition seed_readings :: "'w server \<Rightarrow> bool \<Rightarrow> ('w, unit) script" where
  "seed_readings E counters =
     seq (if counters then tell E (Execute (Create_table (table_in VNODES_KS COUNTER_TABLE) counter_table_spec) [])
          else ret ())
    (seq (tell E (Prepare insert_reading))
    (seq (if counters then tell E (Prepare bump_readings) else ret ())
    (bind (number E Time_now) (\<lambda>now.
     seq (for_each (seed_device E counters now) SAMPLE_DATA)
         (if counters then tell E (Execute bump_errors [Text (fst (SAMPLE_DATA ! 0))]) else ret ())))))"

text \<open>
  \<open>retry\<close>, with the attempts that are left; without attempts it returns None. \<open>return fn()\<close> is \<open>Some\<close>.
\<close>

definition tried :: "('w, 'a) script \<Rightarrow> ('w, exn + 'a) script" where
  "tried fn = catch ordinary (bind fn (\<lambda>x. ret (Inr x))) (\<lambda>e. ret (Inl e))"

fun retry_loop :: "'w server \<Rightarrow> ('w, 'a) script \<Rightarrow> int \<Rightarrow> rat \<Rightarrow> int list \<Rightarrow> ('w, 'a option) script" where
  "retry_loop E fn attempts delay [] = ret None"
| "retry_loop E fn attempts delay (a # as) =
     bind (tried fn) (\<lambda>r.
     case r of
       Inr x \<Rightarrow> ret (Some x)
     | Inl e \<Rightarrow> (if a = attempts then raise e else seq (pause E delay) (retry_loop E fn attempts delay as)))"

definition retry :: "'w server \<Rightarrow> ('w, 'a) script \<Rightarrow> int \<Rightarrow> rat \<Rightarrow> ('w, 'a option) script" where
  "retry E fn attempts delay = retry_loop E fn attempts delay [1..attempts]"

text \<open>Iterating over the None of a \<open>retry\<close> without attempts raises.\<close>

definition show_rows :: "row list option \<Rightarrow> string list \<Rightarrow> unit py" where
  "show_rows rows cs =
     (case rows of
        None \<Rightarrow> Inl TypeError
      | Some rs \<Rightarrow> ebind (emap (\<lambda>r. emap (formatted r) cs) rs) (\<lambda>_. Inr ()))"

definition latest_reading :: "'w server \<Rightarrow> string \<Rightarrow> ('w, unit) script" where
  "latest_reading E device_id =
     bind (fetch E (Select (map fst sensor_columns) (table_in VNODES_KS SENSOR_TABLE)
             [(''device_id'', ''=''), (''LIMIT'', ''1'')]) [Text device_id]) (\<lambda>rows.
     lift (case rows of
             [] \<Rightarrow> Inl AttributeError
           | r # _ \<Rightarrow> show_rows (Some [r]) [''device_id'', ''region'', ''temperature'']))"

definition by_region :: "'w server \<Rightarrow> string \<Rightarrow> string \<Rightarrow> ('w, unit) script" where
  "by_region E table region =
     bind (retry E (fetch E (Select [''device_id'', ''reading_time'', ''temperature''] (table_in VNODES_KS table)
             [(''region'', ''='')]) [Text region]) 12 5) (\<lambda>rows.
     lift (show_rows rows [''device_id'', ''temperature'']))"

text \<open>Step 7 of the script: the data is read back.\<close>

definition vnodes_report :: "'w server \<Rightarrow> bool \<Rightarrow> ('w, unit) script" where
  "vnodes_report E counters =
     seq (for_each (\<lambda>d. latest_reading E (fst d)) SAMPLE_DATA)
    (seq (by_region E SENSOR_TABLE (fst (snd (SAMPLE_DATA ! 0))))
    (seq (by_region E VIEW (fst (snd (SAMPLE_DATA ! 0))))
         (if counters
          then bind (fetch E (Select [''device_id'', ''readings'', ''errors''] (table_in VNODES_KS COUNTER_TABLE) []) [])
                 (\<lambda>rows. lift (show_rows (Some rows) [''device_id'']))
          else ret ())))"

definition vnodes_main :: "'w server \<Rightarrow> bool \<Rightarrow> ('w, unit) script" where
  "vnodes_main E counters =
     seq (tell E (Connect_plain CONTACT_POINTS 9042 CREDENTIALS None))
    (seq (vnodes_schema E)
    (seq (seed_readings E counters)
    (seq (vnodes_report E counters)
         (tell E Cluster_shutdown))))"

text \<open>Its command line has one switch.\<close>

definition parse_vnodes_args :: "string list \<Rightarrow> exn + bool" where
  "parse_vnodes_args argv =
     parse_command_line
       \<lparr>cli_options = [help_option, ([''-c'', ''--counters''], switch (\<lambda>f. f))],
        positional = No_positional, complete = (\<lambda>_. True)\<rparr> False argv"

definition vnodes_process :: "'w server \<Rightarrow> string list \<Rightarrow> ('w, unit) script" where
  "vnodes_process E argv = with_args (parse_vnodes_args argv) (vnodes_main E)"

subsection \<open>What a run writes\<close>

lemmas statement_defs = insert_reading_def bump_readings_def bump_errors_def

lemma seed_device_Inr:
  assumes "seed_device E counters now d w = (t, w', Inr v)"
  shows "written insert_reading t = map (reading_row now d) [0..READINGS_PER_DEVICE - 1] \<and>
    written bump_readings t = (if counters then [[Number READINGS_PER_DEVICE, Text (fst d)]] else [])"
proof -
  from assms obtain t1 w1 t2 u where
    ins: "for_each (\<lambda>i. tell E (Execute insert_reading (reading_row now d i))) [0..READINGS_PER_DEVICE - 1] w = (t1, w1, Inr u)"
    and bump: "(if counters then tell E (Execute bump_readings [Number READINGS_PER_DEVICE, Text (fst d)]) else ret ()) w1 = (t2, w', Inr v)"
    and t: "t = t1 @ t2"
    unfolding seed_device_def by (rule seq_InrE)
  have "written insert_reading t1 = concat (map (\<lambda>i. [reading_row now d i]) [0..READINGS_PER_DEVICE - 1])"
    by (rule for_each_rows [OF ins]) (auto simp: tell_Inr)
  moreover have "written bump_readings t1 = concat (map (\<lambda>i. []) [0..READINGS_PER_DEVICE - 1])"
    by (rule for_each_rows [OF ins]) (auto simp: tell_Inr statement_defs)
  ultimately show ?thesis using bump by (auto simp: t tell_Inr statement_defs concat_map_singleton split: if_splits)
qed

text \<open>Requests that leave both statements alone.\<close>

abbreviation neutral :: "request \<Rightarrow> bool" where
  "neutral q \<equiv> besides insert_reading q \<and> besides bump_readings q"

lemma neutral_run:
  "obeys (asks neutral) m \<Longrightarrow> m w = (t, w', r) \<Longrightarrow> written insert_reading t = [] \<and> written bump_readings t = []"
  using besides_run asks_mono by (metis (no_types, lifting))

lemma neutral_retry [intro!]:
  assumes "obeys (asks neutral) fn"
  shows "obeys (asks neutral) (retry E fn attempts delay)"
proof -
  have "obeys (asks neutral) (retry_loop E fn attempts delay as)" for as
  proof (induction as)
    case (Cons a as)
    have "obeys (asks neutral) (tried fn)"
      unfolding tried_def using assms by (intro asks.obeys_catch asks.obeys_bind asks.obeys_ret)
    with Cons show ?case
      by (auto intro!: asks.obeys_bind asks.obeys_seq asks_pause asks.obeys_raise asks.obeys_ret split: sum.split)
  qed (auto intro: asks.obeys_ret)
  then show ?thesis by (simp add: retry_def)
qed

lemma other_statements [simp]:
  "insert_reading \<noteq> Select cs tb p" "bump_readings \<noteq> Select cs tb p"
  "insert_reading \<noteq> Create_table tb ts" "bump_readings \<noteq> Create_table tb ts"
  "insert_reading \<noteq> Create_keyspace k ks" "bump_readings \<noteq> Create_keyspace k ks"
  "insert_reading \<noteq> Drop_keyspace k" "bump_readings \<noteq> Drop_keyspace k"
  "insert_reading \<noteq> Create_index a b c" "bump_readings \<noteq> Create_index a b c"
  "insert_reading \<noteq> Create_view a b cs ds vs" "bump_readings \<noteq> Create_view a b cs ds vs"
  "insert_reading \<noteq> bump_readings" "bump_readings \<noteq> insert_reading"
  "insert_reading \<noteq> bump_errors" "bump_readings \<noteq> bump_errors"
  by (simp_all add: insert_reading_def bump_readings_def bump_errors_def)

lemma neutral_parts:
  "obeys (asks neutral) (vnodes_schema E)" "obeys (asks neutral) (latest_reading E dev)"
  "obeys (asks neutral) (by_region E table region)"
  unfolding vnodes_schema_def latest_reading_def by_region_def
  by (auto intro!: asks.obeys_seq asks.obeys_bind asks_tell asks_fetch asks.obeys_lift)

lemma seed_readings_Inr:
  assumes "seed_readings E counters w = (t, w', Inr v)"
  obtains now where "written insert_reading t = concat (map (\<lambda>d. map (reading_row now d) [0..READINGS_PER_DEVICE - 1]) SAMPLE_DATA)"
    "written bump_readings t = (if counters then map (\<lambda>d. [Number READINGS_PER_DEVICE, Text (fst d)]) SAMPLE_DATA else [])"
proof -
  from assms obtain t1 w1 u1 t2 w2 u2 t3 w3 u3 t4 w4 now t5 w5 u5 t6 where
    create: "(if counters then tell E (Execute (Create_table (table_in VNODES_KS COUNTER_TABLE) counter_table_spec) [])
          else ret ()) w = (t1, w1, Inr u1)"
    and prep: "tell E (Prepare insert_reading) w1 = (t2, w2, Inr u2)"
      "(if counters then tell E (Prepare bump_readings) else ret ()) w2 = (t3, w3, Inr u3)"
    and clock: "number E Time_now w3 = (t4, w4, Inr now)"
    and loop: "for_each (seed_device E counters now) SAMPLE_DATA w4 = (t5, w5, Inr u5)"
    and errors: "(if counters then tell E (Execute bump_errors [Text (fst (SAMPLE_DATA ! 0))]) else ret ()) w5 = (t6, w', Inr v)"
    and t: "t = t1 @ t2 @ t3 @ t4 @ t5 @ t6"
    unfolding seed_readings_def by (auto elim!: bind_InrE seq_InrE)
  have "written insert_reading t1 = []" "written bump_readings t1 = []" "written insert_reading t2 = []"
    "written bump_readings t2 = []" "written insert_reading t3 = []" "written bump_readings t3 = []"
    "written insert_reading t4 = []" "written bump_readings t4 = []" "written insert_reading t6 = []"
    "written bump_readings t6 = []"
    using create prep clock errors by (auto simp: script_runs statement_defs split: if_splits)
  moreover have "written insert_reading t5 = concat (map (\<lambda>d. map (reading_row now d) [0..READINGS_PER_DEVICE - 1]) SAMPLE_DATA)"
    by (rule for_each_rows [OF loop]) (auto dest: seed_device_Inr)
  moreover have "written bump_readings t5 =
      concat (map (\<lambda>d. if counters then [[Number READINGS_PER_DEVICE, Text (fst d)]] else []) SAMPLE_DATA)"
    by (rule for_each_rows [OF loop]) (auto dest: seed_device_Inr)
  ultimately show thesis by (intro that [of now]) (simp_all add: t concat_map_singleton)
qed

lemma vnodes_main_Inr:
  assumes "vnodes_main E counters w = (t, w', Inr v)"
  obtains t1 w1 w2 u where "seed_readings E counters w1 = (t1, w2, Inr u)"
    "written insert_reading t = written insert_reading t1" "written bump_readings t = written bump_readings t1"
proof -
  from assms obtain t1 w1 u1 t2 w2 u2 t3 w3 u3 t4 w4 u4 t5 where
    conn: "tell E (Connect_plain CONTACT_POINTS 9042 CREDENTIALS None) w = (t1, w1, Inr u1)"
    and schema: "vnodes_schema E w1 = (t2, w2, Inr u2)" and seed: "seed_readings E counters w2 = (t3, w3, Inr u3)"
    and report: "vnodes_report E counters w3 = (t4, w4, Inr u4)" and close: "tell E Cluster_shutdown w4 = (t5, w', Inr v)"
    and t: "t = t1 @ t2 @ t3 @ t4 @ t5"
    unfolding vnodes_main_def by (auto elim!: seq_InrE)
  have "obeys (asks neutral) (vnodes_report E counters)"
    unfolding vnodes_report_def
    by (intro asks.obeys_seq asks.obeys_for_each asks.obeys_if asks.obeys_bind asks.obeys_lift asks.obeys_ret
        asks_fetch asks_tell neutral_parts) simp_all
  then have "written insert_reading t4 = [] \<and> written bump_readings t4 = []" using report by (rule neutral_run)
  moreover have "written insert_reading t2 = [] \<and> written bump_readings t2 = []"
    using neutral_parts(1) schema by (rule neutral_run)
  ultimately show thesis using conn close by (intro that [OF seed]) (auto simp: t tell_Inr)
qed

subsection \<open>Retrying\<close>

fun paused :: "event \<Rightarrow> rat list" where
  "paused (Pause s, a) = [s]"
| "paused (q, a) = []"

fun awake :: "request \<Rightarrow> bool" where
  "awake (Pause s) = False"
| "awake q = True"

definition pauses :: "event list \<Rightarrow> rat list" where
  "pauses t = concat (map paused t)"

lemma pauses_simps [simp]: "pauses [] = []" "pauses (e # t) = paused e @ pauses t" "pauses (t @ t') = pauses t @ pauses t'"
  by (simp_all add: pauses_def)

interpretation pausing: observing paused awake
proof
  show "awake q \<Longrightarrow> paused (q, a) = []" for q a by (cases q) auto
qed

lemmas awake_run = pausing.unobserved [folded pauses_def]

text \<open>
  Something that takes time to appear: \<open>waiting w\<close> pauses are still missing. Until then \<open>fn\<close> raises, with
  an exception that may differ from one attempt to the next; then it returns \<open>found\<close>.
\<close>

definition appears ::
    "'w server \<Rightarrow> ('w, 'a) script \<Rightarrow> rat \<Rightarrow> ('w \<Rightarrow> nat) \<Rightarrow> (nat \<Rightarrow> exn) \<Rightarrow> 'a \<Rightarrow> bool" where
  "appears E fn delay waiting why found \<longleftrightarrow> 0 \<le> delay \<and>
     (\<forall>w. waiting w = 0 \<longrightarrow> (\<exists>t w'. fn w = (t, w', Inr found))) \<and>
     (\<forall>w. 0 < waiting w \<longrightarrow> ordinary (why (waiting w)) \<and>
        (\<exists>t w'. fn w = (t, w', Inl (Exn (why (waiting w)))) \<and> waiting w' = waiting w)) \<and>
     (\<forall>w. \<exists>w'. E w (Pause delay) = (Ok, w') \<and> waiting w' = waiting w - 1)"

lemma retry_loop_waits:
  assumes E: "appears E fn delay waiting why found" "obeys (asks awake) fn" and "a \<le> attempts"
  shows "\<exists>t w'. retry_loop E fn attempts delay [a..attempts] w =
      (t, w', if waiting w \<le> nat (attempts - a) then Inr (Some found)
              else Inl (Exn (why (waiting w - nat (attempts - a))))) \<and>
    pauses t = replicate (min (waiting w) (nat (attempts - a))) delay"
  using assms(3)
proof (induction "nat (attempts - a)" arbitrary: a w)
  case 0
  then have "[a..attempts] = [a]" "a = attempts" by simp_all
  show ?case
  proof (cases "waiting w = 0")
    case True
    with E obtain t w' where "fn w = (t, w', Inr found)" unfolding appears_def by meson
    with awake_run [OF E(2) this] True \<open>a = attempts\<close> show ?thesis by (simp add: tried_def catch_def bind_def)
  next
    case False
    with E obtain t w' where "fn w = (t, w', Inl (Exn (why (waiting w))))" "ordinary (why (waiting w))"
      unfolding appears_def by blast
    with awake_run [OF E(2) this(1)] False \<open>a = attempts\<close> show ?thesis by (simp add: tried_def catch_def bind_def)
  qed
next
  case (Suc n)
  then have more: "[a..attempts] = a # [a + 1..attempts]" "a < attempts" by (simp_all add: upto_rec1)
  show ?case
  proof (cases "waiting w = 0")
    case True
    with E obtain t w' where "fn w = (t, w', Inr found)" unfolding appears_def by meson
    with awake_run [OF E(2) this] True more show ?thesis by (simp add: tried_def catch_def bind_def)
  next
    case False
    with E obtain t1 w1 where one: "fn w = (t1, w1, Inl (Exn (why (waiting w))))" "ordinary (why (waiting w))"
      "waiting w1 = waiting w"
      unfolding appears_def by blast
    from E obtain w2 where pause: "E w1 (Pause delay) = (Ok, w2)" "waiting w2 = waiting w1 - 1" "0 \<le> delay"
      unfolding appears_def by blast
    have "n = nat (attempts - (a + 1))" "a + 1 \<le> attempts" using Suc.hyps(2) more(2) by simp_all
    from Suc.hyps(1) [OF this, of w2] obtain t3 w3 where
      rest: "retry_loop E fn attempts delay [a + 1..attempts] w2 =
        (t3, w3, if waiting w2 \<le> nat (attempts - (a + 1)) then Inr (Some found)
                 else Inl (Exn (why (waiting w2 - nat (attempts - (a + 1))))))"
      and naps: "pauses t3 = replicate (min (waiting w2) (nat (attempts - (a + 1)))) delay"
      by blast
    have left: "nat (attempts - a) = Suc (nat (attempts - (a + 1)))" "waiting w = Suc (waiting w2)"
      using False more(2) one(3) pause(2) by auto
    have "retry_loop E fn attempts delay [a..attempts] w =
        (t1 @ (Pause delay, Ok) # t3, w3, if waiting w2 \<le> nat (attempts - (a + 1)) then Inr (Some found)
                 else Inl (Exn (why (waiting w2 - nat (attempts - (a + 1))))))"
      using one pause more rest by (simp add: tried_def catch_def bind_def seq_def pause_def tell_def ask_def)
    with naps awake_run [OF E(2) one(1)] show ?thesis unfolding left by simp
  qed
qed

subsection \<open>Properties\<close>

text \<open>
  C36: \<open>retry\<close> with at least one attempt. What appears after \<open>n\<close> pauses is found exactly if \<open>n\<close> is less than the
  number of attempts, after \<open>n\<close> pauses of the given delay, and it is what is returned; otherwise the
  exception of the last attempt, the one made when \<open>attempts - 1\<close> pauses are over, is raised after as many
  pauses. With the script's 12 attempts and 5 seconds this is 55 seconds of patience.
\<close>

theorem retry_waits:
  assumes "appears E fn delay waiting why found" and "obeys (asks awake) fn" and "1 \<le> attempts"
  shows "pauses (trace_of (retry E fn attempts delay) w) = replicate (min (waiting w) (nat attempts - 1)) delay \<and>
    result (retry E fn attempts delay) w =
      (if waiting w < nat attempts then Inr (Some found)
       else Inl (Exn (why (waiting w - (nat attempts - 1)))))"
proof -
  have "waiting w \<le> nat (attempts - 1) \<longleftrightarrow> waiting w < nat attempts" "nat (attempts - 1) = nat attempts - 1"
    using assms(3) by auto
  with retry_loop_waits [OF assms, of w] show ?thesis
    by (auto simp: retry_def result_def trace_of_def)
qed

text \<open>A view that is built after some pauses; a query before that fails, the last time in another way.\<close>

definition view_server :: "nat server" where
  "view_server w q =
     (case q of
        Pause s \<Rightarrow> (Ok, w - 1)
      | Execute s cs \<Rightarrow> (if w = 0 then Rows [] else Raised (if w = 1 then DriverError else RequestException), w)
      | _ \<Rightarrow> (Ok, w))"

theorem retry_waits_witness:
  "result (retry view_server (fetch view_server (select_views SOURCE_KS) []) 12 5) 11 = Inr (Some []) \<and>
   result (retry view_server (fetch view_server (select_views SOURCE_KS) []) 12 5) 12 = Inl (Exn DriverError)"
proof -
  have "appears view_server (fetch view_server (select_views SOURCE_KS) []) 5 (\<lambda>w. w)
      (\<lambda>n. if n = 1 then DriverError else RequestException) []"
    by (simp add: appears_def view_server_def fetch_def ask_def bind_def rows_of_def)
  moreover have "obeys (asks awake) (fetch view_server (select_views SOURCE_KS) [])" by (rule asks_fetch) simp
  ultimately show ?thesis
    using retry_waits [of view_server "fetch view_server (select_views SOURCE_KS) []" 5 "\<lambda>w. w" _ _ 12 11]
      retry_waits [of view_server "fetch view_server (select_views SOURCE_KS) []" 5 "\<lambda>w. w" _ _ 12 12]
    by simp
qed

text \<open>
  C38: A run of \<open>create_vnodes_ks_index_mv_counters.py\<close> that returns has inserted 15 readings with different
  keys. With \<open>-c\<close> the counter of each device is raised by exactly the number of readings inserted for it,
  without \<open>-c\<close> no counter is.
\<close>

theorem readings_counted:
  assumes "vnodes_main E counters w = (t, w', Inr ())"
  shows "length (written insert_reading t) = 15 \<and>
    distinct (map (take 2) (written insert_reading t)) \<and>
    written bump_readings t =
      (if counters
       then map (\<lambda>d. [Number (int (length (filter (\<lambda>r. hd r = Text (fst d)) (written insert_reading t)))), Text (fst d)])
         SAMPLE_DATA
       else [])"
proof -
  from assms obtain t1 w1 w2 u where seed: "seed_readings E counters w1 = (t1, w2, Inr u)"
    and same: "written insert_reading t = written insert_reading t1" "written bump_readings t = written bump_readings t1"
    by (rule vnodes_main_Inr)
  from seed obtain now where
    "written insert_reading t1 = concat (map (\<lambda>d. map (reading_row now d) [0..READINGS_PER_DEVICE - 1]) SAMPLE_DATA)"
    "written bump_readings t1 = (if counters then map (\<lambda>d. [Number READINGS_PER_DEVICE, Text (fst d)]) SAMPLE_DATA else [])"
    by (rule seed_readings_Inr)
  moreover have "[0..READINGS_PER_DEVICE - 1] = [0, 1, 2]" by (simp add: READINGS_PER_DEVICE_def upto.simps)
  ultimately show ?thesis
    by (simp add: same SAMPLE_DATA_def reading_row_def READINGS_PER_DEVICE_def numeral_2_eq_2)
qed

text \<open>A server that returns one full row for every selection.\<close>

definition row_server :: "unit server" where
  "row_server w q =
     (case q of
        Execute (Select cs tb p) vs \<Rightarrow>
          (Rows [[(''device_id'', Text ''dev-001''), (''region'', Text ''us-east''), (''temperature'', Real 21),
                  (''reading_time'', Number 0)]], w)
      | _ \<Rightarrow> (Ok, w))"

lemma row_server_willing: "willing row_server"
  by (simp add: willing_def row_server_def split: request.split statement.split)

lemma retry_first:
  assumes "yields fn w (\<lambda>w' x. P w' (Some x))" and "1 \<le> attempts"
  shows "yields (retry E fn attempts delay) w P"
proof -
  from assms(1) obtain t w' x where "fn w = (t, w', Inr x)" "P w' (Some x)" unfolding yields_def by blast
  moreover have "[1..attempts] = 1 # [2..attempts]" using assms(2) by (simp add: upto_rec1)
  ultimately show ?thesis by (simp add: yields_def retry_def tried_def catch_def bind_def)
qed

lemma succeeds_row_server:
  "succeeds (latest_reading row_server d)" "succeeds (by_region row_server table region)"
proof -
  let ?row = "[(''device_id'', Text ''dev-001''), (''region'', Text ''us-east''), (''temperature'', Real 21),
    (''reading_time'', Number 0)]"
  have select: "yields (fetch row_server (Select cs tb p) vs) w P" if "P w [?row]" for cs tb p vs w P
    using that by (intro yields_fetch [where w' = w]) (simp_all add: row_server_def)
  have shown: "show_rows (Some [?row]) [''device_id'', ''region'', ''temperature''] = Inr ()"
    "show_rows (Some [?row]) [''device_id'', ''temperature''] = Inr ()"
    by (simp_all add: show_rows_def formatted_def col_def)
  have "yields (latest_reading row_server d) w (\<lambda>_ _. True)" for w
    unfolding latest_reading_def by (intro yields_bind select) (simp add: shown yields_def)
  moreover have "yields (by_region row_server table region) w (\<lambda>_ _. True)" for w
    unfolding by_region_def by (intro yields_bind retry_first select) (simp_all add: shown yields_def)
  ultimately show "succeeds (latest_reading row_server d)" "succeeds (by_region row_server table region)"
    by (auto simp: succeeds_def yields_def)
qed

lemma succeeds_vnodes: "succeeds (vnodes_main row_server False)"
  unfolding vnodes_main_def vnodes_schema_def seed_readings_def seed_device_def vnodes_report_def
  by (auto intro!: success row_server_willing succeeds_row_server)

theorem readings_counted_witness:
  "length (written insert_reading (trace_of (vnodes_main row_server False) ())) = 15"
proof -
  obtain t w' where run: "vnodes_main row_server False () = (t, w', Inr ())"
    using succeedsE [OF succeeds_vnodes] by (metis (full_types) unit.exhaust)
  from readings_counted [OF run] run show ?thesis by (simp add: trace_of_def)
qed

end
