(* ===== verification/Twcs.thy ===== *)
theory Twcs
  imports Serial
begin

text \<open>
  \<open>sample_app/twcs/device_read_data_demo.py\<close>: a table with time-window compaction, seeded with readings spread
  over consecutive windows. Times are microseconds since 1970-01-01 UTC; the globals the command line
  overrides are a record. The compaction guide it prints is text only.
\<close>

subsection \<open>Configuration\<close>

definition SCYLLA_HOSTS :: "string list" where
  "SCYLLA_HOSTS = [''scylla-client-headless'']"

definition SCYLLA_PORT :: int where
  "SCYLLA_PORT = 9042"

definition DEMO_KEYSPACE :: string where
  "DEMO_KEYSPACE = ''demo''"

definition DEMO_TABLE :: string where
  "DEMO_TABLE = ''device_read_data''"

definition DEMO_TTL_SECONDS :: int where
  "DEMO_TTL_SECONDS = 43200"

definition DEMO_WINDOW_MINUTES :: int where
  "DEMO_WINDOW_MINUTES = 10"

definition DEMO_GC_GRACE :: int where
  "DEMO_GC_GRACE = 60"

definition NUM_DEVICES :: int where
  "NUM_DEVICES = 10"

definition READINGS_PER_FLUSH :: int where
  "READINGS_PER_FLUSH = 500"

definition NUM_FLUSHES :: int where
  "NUM_FLUSHES = 100000"

definition WRITES_PER_SECOND :: int where
  "WRITES_PER_SECOND = 50"

record demo_args =
  demo_hosts :: string
  demo_local :: bool
  demo_mtls :: bool
  demo_tls :: bool
  demo_username :: string
  demo_password :: string
  demo_keyspace :: string
  demo_table :: string
  demo_level :: string
  demo_dc :: string
  seed_only :: bool
  status_only :: bool
  compact_guide :: bool
  num_devices :: int
  num_flushes :: int
  readings_per_flush :: int

definition demo_defaults :: demo_args where
  "demo_defaults =
     \<lparr>demo_hosts = hd SCYLLA_HOSTS @ '':'' @ dec_int SCYLLA_PORT, demo_local = False, demo_mtls = False, demo_tls = False,
      demo_username = ''cassandra'', demo_password = ''cassandra'', demo_keyspace = DEMO_KEYSPACE,
      demo_table = DEMO_TABLE, demo_level = ''LOCAL_QUORUM'', demo_dc = ''dc1'', seed_only = False,
      status_only = False, compact_guide = False, num_devices = NUM_DEVICES,
      num_flushes = NUM_FLUSHES, readings_per_flush = READINGS_PER_FLUSH\<rparr>"

definition demo_cli :: "demo_args cli" where
  "demo_cli =
     \<lparr>cli_options =
        [help_option,
         ([''-s'', ''--hosts''], text_value demo_hosts_update),
         ([''-l'', ''--local_only''], switch demo_local_update),
         ([''-m'', ''--mtls''], switch demo_mtls_update),
         ([''-e'', ''--tls''], switch demo_tls_update),
         ([''-u'', ''--username''], text_value demo_username_update),
         ([''-p'', ''--password''], text_value demo_password_update),
         ([''-k'', ''--keyspace''], text_value demo_keyspace_update),
         ([''-t'', ''--table''], text_value demo_table_update),
         ([''--cl''], text_value demo_level_update),
         ([''--dc''], text_value demo_dc_update),
         ([''--seed-only''], switch seed_only_update),
         ([''--status''], switch status_only_update),
         ([''--compact-guide''], switch compact_guide_update),
         ([''--devices''], int_value num_devices_update),
         ([''--windows''], int_value num_flushes_update),
         ([''--rows-per-window''], int_value readings_per_flush_update)],
      positional = No_positional, complete = (\<lambda>_. True)\<rparr>"

definition parse_demo_args :: "string list \<Rightarrow> exn + demo_args" where
  "parse_demo_args argv = parse_command_line demo_cli demo_defaults argv"

subsection \<open>Statements\<close>

definition create_keyspace_cql :: "string \<Rightarrow> statement" where
  "create_keyspace_cql keyspace =
     Create_keyspace keyspace
       \<lparr>strategy = ''NetworkTopologyStrategy'', replication_factor = 3, tablets_enabled = None\<rparr>"

definition drop_table_cql :: "string \<Rightarrow> string \<Rightarrow> statement" where
  "drop_table_cql keyspace table = Drop_table (table_in keyspace table)"

definition read_columns :: "(string \<times> string) list" where
  "read_columns =
     [(''fkdrwid'', ''uuid''), (''ddate'', ''text''), (''odate'', ''timestamp''), (''bval'', ''text''), (''val'', ''text'')]"

text \<open>Map-valued options are listed entry by entry, under the name of the option.\<close>

definition create_table_cql :: "string \<Rightarrow> string \<Rightarrow> statement" where
  "create_table_cql keyspace table =
     Create_table (table_in keyspace table)
       \<lparr>columns = read_columns, partition_key = [''fkdrwid'', ''ddate''], clustering_key = [(''odate'', False)],
        with_options =
          [(''bloom_filter_fp_chance'', ''0.1''), (''caching keys'', ''ALL''), (''caching rows_per_partition'', ''100''),
           (''comment'', ''Demo: x-min windows mirror prod 18-day TWCS behaviour''),
           (''compaction class'', ''TimeWindowCompactionStrategy''),
           (''compaction compaction_window_size'', dec_int DEMO_WINDOW_MINUTES),
           (''compaction compaction_window_unit'', ''MINUTES''), (''compaction min_threshold'', ''4''),
           (''compaction max_threshold'', ''32''), (''compression sstable_compression'', ''LZ4Compressor''),
           (''crc_check_chance'', ''1''), (''default_time_to_live'', dec_int DEMO_TTL_SECONDS),
           (''gc_grace_seconds'', dec_int DEMO_GC_GRACE), (''max_index_interval'', ''2048''),
           (''memtable_flush_period_in_ms'', ''0''), (''min_index_interval'', ''128''),
           (''speculative_retry'', ''99.0PERCENTILE''), (''tombstone_gc mode'', ''timeout''),
           (''tombstone_gc propagation_delay_in_seconds'', ''60'')]\<rparr>"

definition insert_cql :: "string \<Rightarrow> string \<Rightarrow> statement" where
  "insert_cql keyspace table =
     Insert (table_in keyspace table) (map fst read_columns) [(''TTL'', dec_int DEMO_TTL_SECONDS)]"

subsection \<open>The session\<close>

text \<open>
  The filter of the local-only mode compares with \<open>hosts[0]\<close> when a host is seen; without contact points
  there is none to see.
\<close>

definition demo_cluster ::
    "machine \<Rightarrow> string list \<Rightarrow> string \<Rightarrow> string \<Rightarrow> string \<Rightarrow> string \<Rightarrow> bool \<Rightarrow> string \<Rightarrow> cluster py" where
  "demo_cluster m hosts port username password center local_only consistency_level =
     (let is_local_only = loopback hosts \<or> local_only
      in ebind (level m consistency_level) (\<lambda>cl.
         ebind (tls_setup_of (files_of m) port) (\<lambda>tls.
         ebind (if tls = None then Inr None else ebind (first_of hosts) (\<lambda>h. Inr (Some h))) (\<lambda>sni.
         ebind (int_of port) (\<lambda>n.
         Inr \<lparr>cluster_hosts = hosts, cluster_port = n, cluster_tls = tls, server_hostname = sni,
              load_balancing =
                (if is_local_only then Only_host (case hosts of [] \<Rightarrow> [] | h # _ \<Rightarrow> h) else Token_aware_dc center),
              request_timeout = 30, default_consistency = Some cl, shard_aware_disabled = Some is_local_only,
              protocol_version = (if is_local_only then 3 else 4), connect_timeout = 30,
              control_connection_timeout = 1, metadata_enabled = \<not> is_local_only, address_translator = None,
              plain_text_auth = (if username = MTLS_USERNAME then None else Some (username, password))\<rparr>)))))"

definition build_session ::
    "'w server \<Rightarrow> machine \<Rightarrow> string list \<Rightarrow> string \<Rightarrow> string \<Rightarrow> string \<Rightarrow> string \<Rightarrow> bool \<Rightarrow> string \<Rightarrow> ('w, unit) script" where
  "build_session E m hosts port username password center local_only consistency_level =
     bind (lift (demo_cluster m hosts port username password center local_only consistency_level)) (\<lambda>c.
     tell E (Connect c))"

subsection \<open>Times\<close>

definition minute :: int where
  "minute = 60 * 1000000"

text \<open>A datetime lies between the years 1 and 9999; arithmetic that leaves the range raises.\<close>

definition datetime_of :: "int \<Rightarrow> int py" where
  "datetime_of t =
     (if - 62135596800000000 \<le> t \<and> t \<le> 253402300799999999 then Inr t else Inl OverflowError)"

text \<open>\<open>int(x)\<close> of a double, and \<open>timedelta(seconds=x)\<close>, which rounds to a microsecond.\<close>

definition truncate :: "rat \<Rightarrow> int" where
  "truncate x = (if x < 0 then \<lceil>x\<rceil> else \<lfloor>x\<rfloor>)"

definition timedelta_seconds :: "rat \<Rightarrow> int" where
  "timedelta_seconds x =
     truncate x * 1000000 + round_even (to_double (1000000 * (x - of_int (truncate x))))"

definition window_bucket :: "int \<Rightarrow> int \<Rightarrow> int py" where
  "window_bucket ts window_minutes =
     (let window_secs = window_minutes * 60; elapsed = truncate (true_div ts 1000000)
      in if window_secs = 0 then Inl ZeroDivisionError
         else datetime_of (elapsed div window_secs * window_secs * 1000000))"

text \<open>The date of the time, as \<open>civil\<close> of its day (\<open>Dates\<close>), and its hour and minute.\<close>

definition ddate_key :: "int \<Rightarrow> string" where
  "ddate_key ts =
     (case civil (ts div (1440 * minute)) of
        (y, m, d) \<Rightarrow>
          dec_int y @ ''-'' @ padded 2 m @ ''-'' @ padded 2 d @ ''-'' @
          padded 2 (ts div (60 * minute) mod 24) @ ''-'' @ padded 2 (ts div minute mod 60))"

subsection \<open>Random values\<close>

definition unit_draw :: "'w server \<Rightarrow> ('w, rat) script" where
  "unit_draw E = bind (number E Random_unit) (\<lambda>k. ret (of_int k / 2 ^ 53))"

text \<open>\<open>f"{x:.4f}"\<close>\<close>

definition fixed_4 :: "rat \<Rightarrow> string" where
  "fixed_4 x =
     (let n = \<bar>round_even (x * 10000)\<bar>
      in (if x < 0 then ''-'' else []) @ dec_int (n div 10000) @ ''.'' @ padded 4 (n mod 10000))"

definition random_val :: "'w server \<Rightarrow> ('w, string) script" where
  "random_val E = bind (unit_draw E) (\<lambda>r. ret (fixed_4 (to_double (- 40 + to_double (160 * r)))))"

definition random_bval :: "'w server \<Rightarrow> ('w, cell) script" where
  "random_bval E =
     bind (unit_draw E) (\<lambda>r.
     if r < to_double (3 / 10) then bind (randint E 0 1) (\<lambda>b. ret (Text (dec_int b))) else ret Null)"

subsection \<open>Schema and seeding\<close>

definition setup_schema :: "'w server \<Rightarrow> demo_args \<Rightarrow> ('w, unit) script" where
  "setup_schema E opts =
     seq (tell E (Execute (create_keyspace_cql (demo_keyspace opts)) []))
    (seq (tell E (Use_keyspace (demo_keyspace opts)))
    (seq (tell E (Execute (drop_table_cql (demo_keyspace opts) (demo_table opts)) []))
         (tell E (Execute (create_table_cql (demo_keyspace opts) (demo_table opts)) []))))"

text \<open>The time of the \<open>i\<close>-th reading after the start of its window.\<close>

definition reading_offset :: "int \<Rightarrow> int \<Rightarrow> int" where
  "reading_offset readings i =
     timedelta_seconds (to_double (true_div (DEMO_WINDOW_MINUTES * 60) readings * of_int i))"

definition insert_device_read ::
    "'w server \<Rightarrow> demo_args \<Rightarrow> int list \<Rightarrow> int \<Rightarrow> int \<Rightarrow> int \<Rightarrow> ('w, int) script" where
  "insert_device_read E opts devices window_start written_so_far i =
     bind (lift (datetime_of (window_start + reading_offset (readings_per_flush opts) i))) (\<lambda>ts.
     if devices = [] then raise (PyError IndexError)
     else bind (number E (Random_choice (length devices))) (\<lambda>k.
     bind (random_bval E) (\<lambda>b.
     bind (random_val E) (\<lambda>v.
     seq (tell E (Execute (insert_cql (demo_keyspace opts) (demo_table opts))
            [Number (devices ! nat k), Text (ddate_key ts), Number ts, b, Text v]))
    (seq (pause E (true_div 1 WRITES_PER_SECOND))
         (ret (written_so_far + 1)))))))"

definition flush_window :: "'w server \<Rightarrow> demo_args \<Rightarrow> int list \<Rightarrow> int \<Rightarrow> int \<Rightarrow> int \<Rightarrow> ('w, int) script" where
  "flush_window E opts devices start_ts written_so_far flush_idx =
     bind (lift (datetime_of (start_ts + DEMO_WINDOW_MINUTES * flush_idx * minute))) (\<lambda>window_start.
     bind (lift (window_bucket window_start DEMO_WINDOW_MINUTES)) (\<lambda>bucket.
     fold_m (insert_device_read E opts devices window_start) written_so_far [0..readings_per_flush opts - 1]))"

definition seed_data :: "'w server \<Rightarrow> demo_args \<Rightarrow> ('w, int) script" where
  "seed_data E opts =
     seq (tell E (Use_keyspace (demo_keyspace opts)))
    (seq (tell E (Prepare (insert_cql (demo_keyspace opts) (demo_table opts))))
    (bind (map_m (\<lambda>_. number E Fresh_uuid) [0..num_devices opts - 1]) (\<lambda>devices.
     bind (number E Time_now) (\<lambda>now.
     bind (lift (datetime_of (now - DEMO_WINDOW_MINUTES * num_flushes opts * minute))) (\<lambda>start_ts.
     fold_m (flush_window E opts devices start_ts) 0 [0..num_flushes opts - 1])))))"

subsection \<open>Status\<close>

definition status_query :: "demo_args \<Rightarrow> statement" where
  "status_query opts =
     Select [''ddate'', ''COUNT(*) as cnt''] (table_in (demo_keyspace opts) (demo_table opts)) [(''ALLOW FILTERING'', [])]"

definition bucket_line :: "row \<Rightarrow> (string \<times> int) py" where
  "bucket_line r =
     (case map_of r ''ddate'' of
        None \<Rightarrow> Inl AttributeError
      | Some (Text dd) \<Rightarrow>
          (case map_of r ''cnt'' of
             None \<Rightarrow> Inl AttributeError
           | Some (Number c) \<Rightarrow> Inr (dd, c)
           | Some _ \<Rightarrow> Inl TypeError)
      | Some _ \<Rightarrow> Inl TypeError)"

text \<open>The lines printed: bucket, count, and the length of the bar.\<close>

definition show_status :: "'w server \<Rightarrow> demo_args \<Rightarrow> ('w, (string \<times> int \<times> nat) list) script" where
  "show_status E opts =
     seq (tell E (Use_keyspace (demo_keyspace opts)))
    (bind (fetch E (status_query opts) []) (\<lambda>rows.
     bind (lift (emap bucket_line rows)) (\<lambda>buckets.
     ret (map (\<lambda>(dd, c). (dd, c, nat (min 40 (c div 10)))) (sort_key fst buckets)))))"

subsection \<open>main\<close>

definition resolve_demo :: "files \<Rightarrow> demo_args \<Rightarrow> exn + string list \<times> string \<times> string" where
  "resolve_demo fs opts =
     (let hosts = map (\<lambda>h. hd (split_on CHR '':'' (strip h)))
                    (filter (\<lambda>h. strip h \<noteq> []) (split_on CHR '','' (demo_hosts opts)));
          parts = split_on CHR '':'' (strip (demo_hosts opts));
          port = (if length parts > 1 then parts ! 1 else dec_int SCYLLA_PORT)
      in if demo_mtls opts \<or> demo_tls opts then
           (if \<not> lexists fs CONFIG_DIR \<or> \<not> isdir fs CONFIG_DIR then Inl (SystemExit 1)
            else if \<not> list_all (isfile fs) [in_config ''ca.crt'', in_config ''tls.crt'', in_config ''tls.key'']
            then Inl (SystemExit 1)
            else Inr (hosts, ''9142'', if demo_mtls opts then ''mtls'' else demo_username opts))
         else Inr (hosts, port, demo_username opts))"

definition demo_main :: "'w server \<Rightarrow> machine \<Rightarrow> demo_args \<Rightarrow> ('w, (string \<times> int \<times> nat) list) script" where
  "demo_main E m opts =
     (if compact_guide opts then ret []
      else case resolve_demo (files_of m) opts of
        Inl e \<Rightarrow> raise e
      | Inr (hosts, port, username) \<Rightarrow>
          bind (lift (int_of port)) (\<lambda>_.
          seq (build_session E m hosts port username (demo_password opts) (demo_dc opts) (demo_local opts) (demo_level opts))
         (if status_only opts then show_status E opts
          else seq (if seed_only opts then ret () else setup_schema E opts)
              (bind (seed_data E opts) (\<lambda>_. show_status E opts)))))"

definition reading_demo_process :: "'w server \<Rightarrow> machine \<Rightarrow> string list \<Rightarrow> ('w, (string \<times> int \<times> nat) list) script" where
  "reading_demo_process E m argv = with_args (parse_demo_args argv) (demo_main E m)"

subsection \<open>The connection\<close>

text \<open>The script repeats the rules of the connection library for its hosts, ports and TLS files.\<close>

lemma dec_port: "dec_int SCYLLA_PORT = DEFAULT_PORT"
  unfolding SCYLLA_PORT_def DEFAULT_PORT_def by (simp add: dec_int_def dec.simps) code_simp

lemma resolve_demo_library:
  assumes "arg_hosts opts' = demo_hosts opts" "arg_mtls opts' = demo_mtls opts" "arg_tls opts' = demo_tls opts"
    "arg_username opts' = demo_username opts"
  shows "resolve_demo fs opts = resolve_connection fs opts'"
  using assms
  by (simp add: resolve_demo_def resolve_connection_def parse_hosts_def Let_def dec_port tls_preflight_def
      required_files_def TLS_PORT_def MTLS_USERNAME_def)

subsection \<open>Windows\<close>

lemma window_start:
  fixes ts W :: int
  assumes "0 < W"
  shows "ts div W * W \<le> ts" "ts < ts div W * W + W"
  using div_mult_mod_eq [of ts W] pos_mod_sign [OF assms, of ts] pos_mod_bound [OF assms, of ts] by linarith+

lemma window_shift:
  fixes s f W :: int
  shows "0 < W \<Longrightarrow> (s + f * W) div W * W = s div W * W + f * W"
  by (simp add: distrib_right)

lemma window_bucket_eq:
  assumes "0 \<le> ts" "ts < 2 ^ 53" "1 \<le> window_minutes"
  shows "window_bucket ts window_minutes = Inr (ts div (window_minutes * minute) * (window_minutes * minute))"
proof -
  let ?W = "window_minutes * minute"
  have "0 \<le> true_div ts 1000000"
  proof -
    have "(of_int 0 :: rat) \<le> of_int (ts div 1000000)" using assms(1) by (simp add: pos_imp_zdiv_nonneg_iff)
    also have "\<dots> \<le> true_div ts 1000000"
      using floor_true_div [of 1000000 ts] assms(1,2) by (metis of_int_floor_le zero_less_numeral)
    finally show ?thesis by simp
  qed
  then have "truncate (true_div ts 1000000) = ts div 1000000"
    using floor_true_div [of 1000000 ts] assms(1,2) by (simp add: truncate_def)
  moreover have "ts div 1000000 div (window_minutes * 60) = ts div ?W"
    using assms(3) zdiv_zmult2_eq [of "window_minutes * 60" ts 1000000] by (simp add: minute_def mult.commute mult.left_commute)
  moreover have "ts div ?W * ?W \<le> ts" "0 \<le> ts div ?W * ?W"
    using assms(1,3) window_start(1) [of ?W ts] by (simp_all add: minute_def pos_imp_zdiv_nonneg_iff)
  ultimately show ?thesis
    using assms by (simp add: window_bucket_def datetime_of_def minute_def Let_def mult.assoc)
qed

subsection \<open>Readings\<close>

lemma timedelta_near:
  assumes "0 \<le> x"
  shows "\<bar>of_int (timedelta_seconds x) - 1000000 * x\<bar> \<le> 1 / 2 + 1000000 * (1 / 2 ^ 53)"
proof -
  define c :: rat where "c = 1 / 2 ^ 53"
  define n f where "n = \<lfloor>x\<rfloor>" and "f = 1000000 * (x - of_int n)"
  have delta: "timedelta_seconds x = n * 1000000 + round_even (to_double f)"
    using assms by (simp add: timedelta_seconds_def truncate_def n_def f_def)
  have f: "0 \<le> f" "f < 1000000" by (simp_all add: f_def n_def) linarith
  have "(1000000 :: rat) < 2 ^ 53" by simp
  with f(2) have "f < 2 ^ 53" by (rule less_trans)
  from to_double_near [OF f(1) this] have "\<bar>to_double f - f\<bar> \<le> f * c" by (simp only: c_def)
  moreover have "f * c \<le> 1000000 * c" using f(2) by (intro mult_right_mono) (simp_all add: c_def)
  moreover have "\<bar>of_int (round_even (to_double f)) - to_double f\<bar> \<le> 1 / 2"
    using round_even_near [of "to_double f"] round_even_near_below [of "to_double f"] by linarith
  moreover have "1000000 * x = of_int n * 1000000 + f" by (simp add: f_def algebra_simps)
  ultimately show ?thesis unfolding delta of_int_add of_int_mult of_int_numeral c_def [symmetric] by linarith
qed

text \<open>
  The two roundings of an offset, its product and the microsecond together: less than a microsecond away
  from the even spread, so no reading lies outside its window.
\<close>

lemma reading_offset_near:
  assumes "1 \<le> readings" "readings \<le> 2 ^ 53" "0 \<le> i" "i < readings"
  shows "\<bar>readings * reading_offset readings i - i * (DEMO_WINDOW_MINUTES * minute)\<bar> < readings"
proof -
  define c :: rat where "c = 1 / 2 ^ 53"
  define R :: rat where "R = of_int readings"
  define x where "x = 600 / R"
  define k :: rat where "k = of_int i"
  have c: "0 \<le> c" "c \<le> 1 / 1000000000000" by (simp_all add: c_def)
  have R: "1 \<le> R" using assms(1) by (simp add: R_def)
  have k: "0 \<le> k" "k \<le> R" using assms(3,4) by (simp_all add: R_def k_def)
  have x: "0 \<le> x" "x \<le> 600" "x < 2 ^ 53" using R by (simp_all add: x_def divide_less_eq divide_le_eq)
  let ?q = "to_double x"
  have q: "\<bar>?q - x\<bar> \<le> x * c" "0 \<le> ?q"
    using to_double_near [OF x(1,3)] to_double_nonneg [OF x(1,3)] by (simp_all only: c_def)
  have even: "x * k \<le> 600" "0 \<le> x * k" using k R x(1) by (simp_all add: x_def divide_le_eq)
  have "\<bar>?q * k - x * k\<bar> = \<bar>?q - x\<bar> * k" using k(1) by (simp add: abs_mult left_diff_distrib [symmetric])
  also have "\<dots> \<le> x * c * k" using q(1) k(1) by (rule mult_right_mono)
  also have "\<dots> = x * k * c" by (simp add: algebra_simps)
  also have "\<dots> \<le> 600 * c" using even(1) c(1) by (rule mult_right_mono)
  finally have y: "\<bar>?q * k - x * k\<bar> \<le> 600 * c" .
  have y0: "0 \<le> ?q * k" using q(2) k(1) by simp
  have y1: "?q * k \<le> 601" using y even(1) c(2) by linarith
  have "(601 :: rat) < 2 ^ 53" by simp
  with y1 have "?q * k < 2 ^ 53" by (rule le_less_trans)
  from to_double_near [OF y0 this] to_double_nonneg [OF y0 this]
  have z: "\<bar>to_double (?q * k) - ?q * k\<bar> \<le> ?q * k * c" "0 \<le> to_double (?q * k)" by (simp_all only: c_def)
  have "?q * k * c \<le> 601 * c" using y1 c(1) by (rule mult_right_mono)
  with z(1) y have near: "\<bar>to_double (?q * k) - x * k\<bar> \<le> 1201 * c" by linarith
  have "\<bar>of_int (reading_offset readings i) - 1000000 * to_double (?q * k)\<bar> \<le> 1 / 2 + 1000000 * c"
    using timedelta_near [OF z(2)]
    by (simp add: reading_offset_def DEMO_WINDOW_MINUTES_def true_div_def x_def R_def k_def c_def)
  with near have "\<bar>of_int (reading_offset readings i) - 1000000 * (x * k)\<bar> \<le> 1 / 2 + 1202000000 * c" by linarith
  also have "\<dots> < 1" using c(2) by linarith
  finally have "\<bar>of_int (reading_offset readings i) - 1000000 * (x * k)\<bar> * R < 1 * R"
    using R by (intro mult_strict_right_mono) simp_all
  moreover have "1000000 * (x * k) * R = k * 600000000" using R by (simp add: x_def)
  then have "R * of_int (reading_offset readings i) - k * 600000000 =
      (of_int (reading_offset readings i) - 1000000 * (x * k)) * R"
    by (simp only: left_diff_distrib mult.commute [of R])
  ultimately have "\<bar>R * of_int (reading_offset readings i) - k * 600000000\<bar> < R"
    using R by (simp add: abs_mult)
  then have "of_int \<bar>readings * reading_offset readings i - i * 600000000\<bar> < (of_int readings :: rat)"
    by (simp add: R_def k_def)
  then show ?thesis by (simp only: of_int_less_iff) (simp add: DEMO_WINDOW_MINUTES_def minute_def)
qed

lemma reading_offset_bounds:
  assumes "1 \<le> readings" "readings \<le> DEMO_WINDOW_MINUTES * minute" "0 \<le> i" "i < readings"
  shows "reading_offset readings i \<in> {0..<DEMO_WINDOW_MINUTES * minute}"
proof -
  define W where "W = DEMO_WINDOW_MINUTES * minute"
  have "W \<le> 2 ^ 53" by (simp add: W_def DEMO_WINDOW_MINUTES_def minute_def)
  with assms(2) have near: "\<bar>readings * reading_offset readings i - i * W\<bar> < readings"
    unfolding W_def using assms(1,3,4) by (intro reading_offset_near) linarith+
  have W: "readings \<le> W" using assms(2) by (simp only: W_def)
  have "0 \<le> i * W" using assms(1,3) W by simp
  with near have "readings * (- 1) < readings * reading_offset readings i" by linarith
  then have low: "- 1 < reading_offset readings i" using assms(1) by (simp only: mult_less_cancel_left_pos)
  have "i * W \<le> (readings - 1) * W" using assms(1,4) W by (intro mult_right_mono) simp_all
  with near W have "readings * reading_offset readings i < readings * W" unfolding left_diff_distrib by linarith
  then have "reading_offset readings i < W" using assms(1) by (simp only: mult_less_cancel_left_pos)
  with low show ?thesis by (simp add: W_def)
qed

lemma reading_offset_0: "reading_offset readings 0 = 0"
  by (simp add: reading_offset_def timedelta_seconds_def truncate_def to_double_def round_even_def)

subsection \<open>What a run writes\<close>

abbreviation demo_insert :: "demo_args \<Rightarrow> statement" where
  "demo_insert opts \<equiv> insert_cql (demo_keyspace opts) (demo_table opts)"

lemma besides_random [intro!]:
  "obeys (asks (besides s)) (random_bval E)" "obeys (asks (besides s)) (random_val E)"
  unfolding random_bval_def random_val_def unit_draw_def by auto

lemma insert_device_read_Inr:
  assumes "insert_device_read E opts devices window_start n i w = (t, w', Inr n')"
  shows "map (\<lambda>r. r ! 2) (written (demo_insert opts) t) =
      [Number (window_start + reading_offset (readings_per_flush opts) i)] \<and> n' = n + 1"
proof -
  from assms obtain ts t1 w1 k t2 w2 b t3 w3 v t4 w4 u t5 where
    ts: "datetime_of (window_start + reading_offset (readings_per_flush opts) i) = Inr ts"
    and draw: "number E (Random_choice (length devices)) w = (t1, w1, Inr k)"
    and b: "random_bval E w1 = (t2, w2, Inr b)" and v: "random_val E w2 = (t3, w3, Inr v)"
    and ins: "tell E (Execute (demo_insert opts) [Number (devices ! nat k), Text (ddate_key ts), Number ts, b, Text v]) w3
      = (t4, w4, Inr u)"
    and wait: "pause E (true_div 1 WRITES_PER_SECOND) w4 = (t5, w', Inr ())"
    and n: "n' = n + 1" and t: "t = t1 @ t2 @ t3 @ t4 @ t5"
    unfolding insert_device_read_def
    by (auto elim!: bind_InrE seq_InrE simp: lift_Inr_iff split: if_splits)
  have "written (demo_insert opts) t1 = []" using draw by (auto simp: number_Inr)
  moreover have "written (demo_insert opts) t2 = []" by (metis besides_run besides_random(1) b)
  moreover have "written (demo_insert opts) t3 = []" by (metis besides_run besides_random(2) v)
  moreover have "obeys (asks (besides (demo_insert opts))) (pause E (true_div 1 WRITES_PER_SECOND))" by auto
  then have "written (demo_insert opts) t5 = []" using wait by (rule besides_run)
  ultimately show ?thesis using ins ts by (auto simp: t n tell_Inr datetime_of_def split: if_splits)
qed

lemma flush_window_Inr:
  assumes "flush_window E opts devices start n f w = (t, w', Inr n')"
  shows "map (\<lambda>r. r ! 2) (written (demo_insert opts) t) =
      map (\<lambda>i. Number (start + DEMO_WINDOW_MINUTES * f * minute + reading_offset (readings_per_flush opts) i))
        [0..readings_per_flush opts - 1] \<and>
    n' = n + int (length [0..readings_per_flush opts - 1])"
proof -
  from assms have "fold_m (insert_device_read E opts devices (start + DEMO_WINDOW_MINUTES * f * minute)) n
      [0..readings_per_flush opts - 1] w = (t, w', Inr n')"
    unfolding flush_window_def
    by (auto elim!: bind_InrE simp: lift_Inr_iff datetime_of_def split: if_splits)
  from fold_writes [OF this, where f = "\<lambda>r. r ! 2" and s = "demo_insert opts" and
      g = "\<lambda>i. [Number (start + DEMO_WINDOW_MINUTES * f * minute + reading_offset (readings_per_flush opts) i)]"]
  show ?thesis using insert_device_read_Inr by (fastforce simp: concat_map_singleton)
qed

text \<open>The times of the readings, window by window.\<close>

definition reading_times :: "demo_args \<Rightarrow> int \<Rightarrow> int list" where
  "reading_times opts start =
     concat (map (\<lambda>f. map (\<lambda>i. start + DEMO_WINDOW_MINUTES * f * minute + reading_offset (readings_per_flush opts) i)
       [0..readings_per_flush opts - 1]) [0..num_flushes opts - 1])"

lemma length_reading_times:
  "int (length (reading_times opts start)) = max 0 (num_flushes opts) * max 0 (readings_per_flush opts)"
  by (simp add: reading_times_def length_concat comp_def sum_list_triv)

text \<open>The clock is read once.\<close>

abbreviation timeless :: "request \<Rightarrow> bool" where
  "timeless q \<equiv> q \<noteq> Time_now"

lemma timeless_run: "obeys (asks timeless) m \<Longrightarrow> m w = (t, w', r) \<Longrightarrow> filter (\<lambda>e. fst e = Time_now) t = []"
  by (auto simp: filter_empty_conv dest: asksD)

lemma timeless_flush_window: "obeys (asks timeless) (flush_window E opts devices start n f)"
proof -
  have "obeys (asks timeless) (random_bval E)" "obeys (asks timeless) (random_val E)"
    unfolding random_bval_def random_val_def unit_draw_def by auto
  then have "obeys (asks timeless) (insert_device_read E opts devices window n i)" for window n i
    unfolding insert_device_read_def
    by (intro asks.obeys_bind asks.obeys_lift asks.obeys_if asks.obeys_raise asks.obeys_seq asks_number
        asks_tell asks_pause asks.obeys_ret) simp_all
  then show ?thesis
    unfolding flush_window_def by (intro asks.obeys_bind asks.obeys_lift asks.obeys_fold_m)
qed

definition seed_start :: "demo_args \<Rightarrow> reply \<Rightarrow> int" where
  "seed_start opts now = value_of now - num_flushes opts * (DEMO_WINDOW_MINUTES * minute)"

lemma seed_data_Inr:
  assumes "seed_data E opts w = (t, w', Inr n)"
  obtains now where "filter (\<lambda>e. fst e = Time_now) t = [(Time_now, now)]"
    "map (\<lambda>r. r ! 2) (written (demo_insert opts) t) = map Number (reading_times opts (seed_start opts now))"
    "n = int (length (reading_times opts (seed_start opts now)))"
proof -
  from assms obtain t1 w1 u t2 w2 u' t3 w3 devices t4 w4 now start t5 where
    prep: "tell E (Use_keyspace (demo_keyspace opts)) w = (t1, w1, Inr u)"
      "tell E (Prepare (demo_insert opts)) w1 = (t2, w2, Inr u')"
    and uuids: "map_m (\<lambda>_. number E Fresh_uuid) [0..num_devices opts - 1] w2 = (t3, w3, Inr devices)"
    and clock: "number E Time_now w3 = (t4, w4, Inr now)"
    and start: "datetime_of (now - DEMO_WINDOW_MINUTES * num_flushes opts * minute) = Inr start"
    and loop: "fold_m (flush_window E opts devices start) 0 [0..num_flushes opts - 1] w4 = (t5, w', Inr n)"
    and t: "t = t1 @ t2 @ t3 @ t4 @ t5"
    unfolding seed_data_def by (auto elim!: bind_InrE seq_InrE simp: lift_Inr_iff)
  from clock obtain a where a: "t4 = [(Time_now, a)]" "now = value_of a" by (auto simp: number_Inr)
  have drawing: "obeys (asks Q) (map_m (\<lambda>_. number E Fresh_uuid) [0..num_devices opts - 1])" if "Q Fresh_uuid" for Q
    using that by (intro asks.obeys_map_m asks_number)
  have "filter (\<lambda>e. fst e = Time_now) t3 = []" by (rule timeless_run [OF drawing uuids]) simp
  moreover have "filter (\<lambda>e. fst e = Time_now) t5 = []"
    by (rule timeless_run [OF asks.obeys_fold_m [OF timeless_flush_window] loop])
  moreover have "filter (\<lambda>e. fst e = Time_now) t1 = []" "filter (\<lambda>e. fst e = Time_now) t2 = []"
    using prep by (auto simp: script_runs)
  ultimately have once: "filter (\<lambda>e. fst e = Time_now) t = [(Time_now, a)]" by (simp add: t a)
  have from_now: "start = seed_start opts a"
    using start a by (simp add: seed_start_def datetime_of_def mult.commute mult.left_commute split: if_splits)
  have "written (demo_insert opts) t3 = []" by (rule besides_run [OF drawing uuids]) simp
  moreover have "written (demo_insert opts) t1 = []" "written (demo_insert opts) t2 = []" "written (demo_insert opts) t4 = []"
    using prep clock by (auto simp: script_runs)
  moreover note fold_writes [OF loop, where f = "\<lambda>r. r ! 2" and s = "demo_insert opts" and
      g = "\<lambda>f. map (\<lambda>i. Number (start + DEMO_WINDOW_MINUTES * f * minute + reading_offset (readings_per_flush opts) i))
        [0..readings_per_flush opts - 1]"]
  ultimately show thesis
    using flush_window_Inr unfolding from_now
    by (intro that [of a] once) (fastforce simp: t reading_times_def map_concat comp_def length_concat)+
qed

subsection \<open>Properties\<close>

text \<open>
  C39: \<open>window_bucket\<close> floors a time to the start of its window: for times since 1970 (and before the year
  2255) the result is a multiple of the window length, not after the time, and less than one window before
  it, in spite of the division of doubles in \<open>total_seconds()\<close>.
\<close>

theorem window_bucket_floors:
  assumes "0 \<le> ts" "ts < 2 ^ 53" "1 \<le> window_minutes"
  shows "\<exists>b. window_bucket ts window_minutes = Inr b \<and> b mod (window_minutes * minute) = 0 \<and>
    b \<le> ts \<and> ts < b + window_minutes * minute"
proof -
  have "0 < window_minutes * minute" using assms(3) by (simp add: minute_def)
  from window_start [OF this, of ts] window_bucket_eq [OF assms] show ?thesis by auto
qed

theorem window_bucket_floors_witness:
  "\<exists>b. window_bucket 1735689661500000 10 = Inr b \<and> b mod (10 * minute) = 0 \<and> b \<le> 1735689661500000 \<and>
     1735689661500000 < b + 10 * minute"
  by (rule window_bucket_floors) simp_all

lemma seeded_windows:
  assumes "0 \<le> start" "start + num_flushes opts * (DEMO_WINDOW_MINUTES * minute) < 2 ^ 53"
    and "1 \<le> readings_per_flush opts" "0 \<le> num_flushes opts"
  shows "\<exists>b. window_bucket start DEMO_WINDOW_MINUTES = Inr b \<and>
    (\<forall>f \<in> {0..<num_flushes opts}. \<exists>ts \<in> set (reading_times opts start).
       window_bucket ts DEMO_WINDOW_MINUTES = Inr (b + f * (DEMO_WINDOW_MINUTES * minute)))"
proof -
  let ?W = "DEMO_WINDOW_MINUTES * minute"
  have W: "0 < ?W" "1 \<le> DEMO_WINDOW_MINUTES" by (simp_all add: DEMO_WINDOW_MINUTES_def minute_def)
  have "\<exists>ts \<in> set (reading_times opts start). window_bucket ts DEMO_WINDOW_MINUTES = Inr (start div ?W * ?W + f * ?W)"
    if "f \<in> {0..<num_flushes opts}" for f
  proof -
    have "f * ?W \<le> num_flushes opts * ?W" using that W by (intro mult_right_mono) auto
    with assms(2) have "start + f * ?W < 2 ^ 53" by linarith
    moreover have "0 \<le> start + f * ?W" using that assms(1) W by simp
    ultimately have "window_bucket (start + f * ?W) DEMO_WINDOW_MINUTES = Inr ((start + f * ?W) div ?W * ?W)"
      using W(2) by (intro window_bucket_eq)
    moreover have "(start + f * ?W) div ?W * ?W = start div ?W * ?W + f * ?W"
      by (rule window_shift [OF W(1)])
    moreover have "start + f * ?W \<in> set (reading_times opts start)"
      using that assms(3) reading_offset_0 [of "readings_per_flush opts"]
      by (auto simp: reading_times_def mult.left_commute mult.commute intro!: bexI [of _ f] image_eqI [of _ _ 0])
    ultimately show ?thesis by metis
  qed
  moreover have "0 \<le> num_flushes opts * ?W" using assms(4) W(1) by simp
  then have "start < 2 ^ 53" using assms(2) by linarith
  ultimately show ?thesis
    using assms(1) W(2) by (intro exI [of _ "start div ?W * ?W"] conjI ballI window_bucket_eq) auto
qed

text \<open>
  C40: A seeding run that returns has written \<open>windows * rows\<close> readings, window after window from a start
  that lies that many windows before the time it read from the clock, once. Of the \<open>rows\<close> readings of a
  window the \<open>i\<close>-th comes \<open>i / rows\<close> of a window after its start, up to less than a microsecond, and all
  come before the next window starts, whatever the rounding of the doubles. So every bucket of the table's
  window size from the first window on gets a reading: no window stays empty.
\<close>

theorem seed_fills_windows:
  assumes "seed_data E opts w = (t, w', Inr n)"
    and "1 \<le> readings_per_flush opts" "readings_per_flush opts \<le> DEMO_WINDOW_MINUTES * minute"
    and "0 \<le> num_flushes opts"
  shows "\<exists>now start.
    filter (\<lambda>e. fst e = Time_now) t = [(Time_now, now)] \<and>
    start = value_of now - num_flushes opts * (DEMO_WINDOW_MINUTES * minute) \<and>
    map (\<lambda>r. r ! 2) (written (insert_cql (demo_keyspace opts) (demo_table opts)) t) = map Number (reading_times opts start) \<and>
    n = num_flushes opts * readings_per_flush opts \<and>
    (\<forall>i \<in> {0..<readings_per_flush opts}.
       reading_offset (readings_per_flush opts) i \<in> {0..<DEMO_WINDOW_MINUTES * minute} \<and>
       \<bar>readings_per_flush opts * reading_offset (readings_per_flush opts) i - i * (DEMO_WINDOW_MINUTES * minute)\<bar>
         < readings_per_flush opts) \<and>
    (0 \<le> start \<and> value_of now < 2 ^ 53 \<longrightarrow>
      (\<exists>b. window_bucket start DEMO_WINDOW_MINUTES = Inr b \<and>
        (\<forall>f \<in> {0..<num_flushes opts}. \<exists>ts \<in> set (reading_times opts start).
           window_bucket ts DEMO_WINDOW_MINUTES = Inr (b + f * (DEMO_WINDOW_MINUTES * minute)))))"
proof -
  from assms(1) obtain now where
    once: "filter (\<lambda>e. fst e = Time_now) t = [(Time_now, now)]"
    and times: "map (\<lambda>r. r ! 2) (written (demo_insert opts) t) = map Number (reading_times opts (seed_start opts now))"
    and n: "n = int (length (reading_times opts (seed_start opts now)))"
    by (rule seed_data_Inr)
  from n assms(2,4) have "n = num_flushes opts * readings_per_flush opts"
    by (simp add: length_reading_times)
  moreover have "readings_per_flush opts \<le> 2 ^ 53"
    using assms(3) by (simp add: DEMO_WINDOW_MINUTES_def minute_def)
  moreover have "seed_start opts now + num_flushes opts * (DEMO_WINDOW_MINUTES * minute) = value_of now"
    by (simp add: seed_start_def)
  ultimately show ?thesis
    using once times reading_offset_bounds [OF assms(2,3)] reading_offset_near [OF assms(2)]
      seeded_windows [OF _ _ assms(2,4), of "seed_start opts now"]
    by (intro exI [of _ now] exI [of _ "seed_start opts now"] conjI seed_start_def) auto
qed

definition demo_server :: "unit server" where
  "demo_server w q = (case q of Time_now \<Rightarrow> Value 1735689600000000 | _ \<Rightarrow> Ok, w)"

definition some_demo :: demo_args where
  "some_demo = demo_defaults\<lparr>num_devices := 1, num_flushes := 1, readings_per_flush := 1\<rparr>"

lemma some_seed: "\<exists>t. seed_data demo_server some_demo () = (t, (), Inr 1)"
proof -
  let ?start = "1735689000000000"
  have willing: "willing demo_server" by (simp add: willing_def demo_server_def split: request.split)
  have "succeeds (random_bval demo_server)" "succeeds (random_val demo_server)"
    unfolding random_bval_def random_val_def unit_draw_def using willing by (auto intro!: success)
  moreover have "succeeds (pause demo_server (true_div 1 WRITES_PER_SECOND))"
    using willing to_double_nonneg [of "1 / 50"]
    by (auto simp: pause_def WRITES_PER_SECOND_def true_div_def intro: success)
  ultimately have "succeeds (insert_device_read demo_server some_demo [0] ?start 0 0)"
    unfolding insert_device_read_def using willing
    by (auto intro!: success simp: some_demo_def reading_offset_0 datetime_of_def)
  then obtain t w x where ins: "insert_device_read demo_server some_demo [0] ?start 0 0 () = (t, w, Inr x)"
    by (rule succeedsE)
  have "x = 1" using insert_device_read_Inr [OF ins] by simp
  moreover have "window_bucket ?start DEMO_WINDOW_MINUTES = Inr (?start div (DEMO_WINDOW_MINUTES * minute) * (DEMO_WINDOW_MINUTES * minute))"
    by (rule window_bucket_eq) (simp_all add: DEMO_WINDOW_MINUTES_def)
  ultimately show ?thesis using ins
    by (simp add: seed_data_def seq_def bind_def tell_def ask_def number_def demo_server_def some_demo_def
        upto.simps datetime_of_def flush_window_def value_of_def DEMO_WINDOW_MINUTES_def minute_def)
qed

theorem seed_fills_windows_witness:
  "\<exists>now. filter (\<lambda>e. fst e = Time_now) (trace_of (seed_data demo_server some_demo) ()) = [(Time_now, now)] \<and>
     map (\<lambda>r. r ! 2) (written (insert_cql (demo_keyspace some_demo) (demo_table some_demo))
       (trace_of (seed_data demo_server some_demo) ())) =
     map Number (reading_times some_demo (value_of now - DEMO_WINDOW_MINUTES * minute))"
proof -
  obtain t where run: "seed_data demo_server some_demo () = (t, (), Inr 1)" using some_seed by blast
  have "1 \<le> readings_per_flush some_demo" "readings_per_flush some_demo \<le> DEMO_WINDOW_MINUTES * minute"
    "0 \<le> num_flushes some_demo"
    by (simp_all add: some_demo_def DEMO_WINDOW_MINUTES_def minute_def)
  from seed_fills_windows [OF run this] show ?thesis
    unfolding trace_of_def run by (auto simp: some_demo_def)
qed

text \<open>
  The partition key changes every minute, not once per window: two times of one window have different keys.
\<close>

lemma ddate_key_splits_windows:
  "window_bucket minute DEMO_WINDOW_MINUTES = window_bucket (2 * minute) DEMO_WINDOW_MINUTES \<and>
   ddate_key minute \<noteq> ddate_key (2 * minute)"
proof
  have "window_bucket (k * minute) DEMO_WINDOW_MINUTES = Inr 0" if "0 \<le> k" "k < 10" for k
    using that window_bucket_eq [of "k * minute" DEMO_WINDOW_MINUTES]
    by (simp add: DEMO_WINDOW_MINUTES_def minute_def div_pos_pos_trivial)
  from this [of 1] this [of 2]
  show "window_bucket minute DEMO_WINDOW_MINUTES = window_bucket (2 * minute) DEMO_WINDOW_MINUTES" by simp
  have "padded 2 1 \<noteq> padded 2 2" by code_simp
  then show "ddate_key minute \<noteq> ddate_key (2 * minute)"
    by (simp add: ddate_key_def minute_def split: prod.split)
qed

end
