(* ===== verification/Endpoints.thy ===== *)
theory Endpoints
  imports Counters Connection
begin

text \<open>
  The tools that reach the cluster through one endpoint: \<open>sample_app/proxy.py\<close>, whose address translator sends
  every node address to a local proxy, and the scripts of \<open>sample_app/alternator-boto3\<close>, which choose the
  URL of the DynamoDB endpoint and call \<open>boto3\<close>.
\<close>

subsection \<open>proxy.py\<close>

record proxy_translator =
  proxy_host :: string
  proxy_port :: int

definition proxy_translate :: "proxy_translator \<Rightarrow> string \<Rightarrow> string" where
  "proxy_translate tr addr = proxy_host tr"

definition proxy_translate_port :: "proxy_translator \<Rightarrow> string \<Rightarrow> int" where
  "proxy_translate_port tr addr = proxy_port tr"

definition the_proxy :: proxy_translator where
  "the_proxy = \<lparr>proxy_host = ''127.0.0.1'', proxy_port = 9042\<rparr>"

definition proxy_insert :: statement where
  "proxy_insert = Insert ''example'' [''id'', ''value''] []"

text \<open>The rows printed are the result.\<close>

definition proxy_main :: "'w server \<Rightarrow> ('w, (cell \<times> cell) list) script" where
  "proxy_main E =
     seq (tell E (Connect_proxied (proxy_host the_proxy) [proxy_host the_proxy] (proxy_port the_proxy)
            (''cassandra'', ''cassandra'') [(''connect_timeout'', 5), (''control_connection_timeout'', 5)]))
    (seq (tell E (Execute (Create_keyspace ''demo''
            \<lparr>strategy = ''NetworkTopologyStrategy'', replication_factor = 3, tablets_enabled = None\<rparr>) []))
    (seq (tell E (Use_keyspace ''demo''))
    (seq (tell E (Execute (Create_table ''example''
            \<lparr>columns = [(''id'', ''int''), (''value'', ''text'')], partition_key = [''id''], clustering_key = [],
             with_options = []\<rparr>) []))
    (seq (tell E (Execute proxy_insert [Number 1, Text ''hello through proxy'']))
    (seq (tell E (Execute proxy_insert [Number 2, Text ''I found something'']))
    (bind (fetch E (Select [''id'', ''value''] ''example'' []) []) (\<lambda>rows.
     bind (lift (emap (\<lambda>r. ebind (col r ''id'') (\<lambda>i. ebind (col r ''value'') (\<lambda>v. Inr (i, v)))) rows)) (\<lambda>shown.
     seq (tell E Cluster_shutdown) (ret shown)))))))))"

subsection \<open>The DynamoDB endpoint\<close>

record dynamo_args =
  dynamo_url :: string
  dynamo_verify :: string

definition dynamo_defaults :: dynamo_args where
  "dynamo_defaults = \<lparr>dynamo_url = ''http://scylla-client.scylla-dc1.svc:8000'', dynamo_verify = ''False''\<rparr>"

definition dynamo_cli :: "dynamo_args cli" where
  "dynamo_cli =
     \<lparr>cli_options =
        [help_option,
         ([''-u'', ''--url''], text_value dynamo_url_update),
         ([''-v'', ''--verify''], text_value dynamo_verify_update)],
      positional = No_positional, complete = (\<lambda>_. True)\<rparr>"

definition parse_dynamo_args :: "string list \<Rightarrow> exn + dynamo_args" where
  "parse_dynamo_args argv = parse_command_line dynamo_cli dynamo_defaults argv"

text \<open>\<open>s.replace(old, new)\<close> for a text \<open>old\<close> that is not empty.\<close>

function str_replace :: "string \<Rightarrow> string \<Rightarrow> string \<Rightarrow> string" where
  "str_replace old new s =
     (if s = [] \<or> old = [] then s
      else if take (length old) s = old then new @ str_replace old new (drop (length old) s)
      else hd s # str_replace old new (tl s))"
  by pat_completeness auto
termination
  by (relation "measure (\<lambda>(old, new, s). length s)") auto

declare str_replace.simps [simp del]

definition dynamo_endpoint :: "files \<Rightarrow> dynamo_args \<Rightarrow> exn + string \<times> string option" where
  "dynamo_endpoint fs opts =
     (if dynamo_verify opts \<in> set [''false'', ''False'', ''no'', ''0''] then Inr (dynamo_url opts, None)
      else if \<not> isfile fs (in_config ''ca.crt'') then Inl (SystemExit 1)
      else Inr (str_replace '':8000'' '':8043'' (str_replace ''http://'' ''https://'' (dynamo_url opts)),
                Some (in_config ''ca.crt'')))"

definition with_dynamo :: "'w server \<Rightarrow> files \<Rightarrow> dynamo_args \<Rightarrow> ('w, 'a) script \<Rightarrow> ('w, 'a) script" where
  "with_dynamo E fs opts body =
     (case dynamo_endpoint fs opts of
        Inl e \<Rightarrow> raise e
      | Inr (url, ca) \<Rightarrow> seq (tell E (Dynamo_resource url ca)) body)"

text \<open>\<open>create_alternator_table.py\<close>: the table is created if asking for its status says there is none.\<close>

fun client_error :: "exn \<Rightarrow> bool" where
  "client_error (ClientError c) = True"
| "client_error e = False"

definition create_if_missing :: "'w server \<Rightarrow> string \<Rightarrow> ('w, unit) script" where
  "create_if_missing E table =
     catch client_error (tell E (Table_op ''describe_table'' table))
       (\<lambda>e. if e = ClientError ''ResourceNotFoundException''
            then seq (tell E (Table_op ''create_table key'' table)) (tell E (Table_op ''wait table_exists'' table))
            else raise (SystemExit 1))"

definition create_dynamo_main :: "'w server \<Rightarrow> files \<Rightarrow> dynamo_args \<Rightarrow> ('w, unit) script" where
  "create_dynamo_main E fs opts = with_dynamo E fs opts (create_if_missing E ''usertable'')"

definition input_dynamo_main :: "'w server \<Rightarrow> files \<Rightarrow> dynamo_args \<Rightarrow> ('w, unit) script" where
  "input_dynamo_main E fs opts =
     with_dynamo E fs opts
       (tell E (Batch_write ''usertable''
          [[(''key'', Text ''test''), (''x'', Dict [(''hello'', Text ''world'')])]]))"

text \<open>\<open>query_alternator_table.py\<close>: the items, which it prints as JSON, are the result.\<close>

definition query_dynamo_main :: "'w server \<Rightarrow> files \<Rightarrow> dynamo_args \<Rightarrow> ('w, row list) script" where
  "query_dynamo_main E fs opts =
     with_dynamo E fs opts (bind (ask E (Batch_get ''usertable'' [[(''key'', Text ''test'')]])) (\<lambda>a. ret (rows_of a)))"

text \<open>The three scripts as processes.\<close>

definition create_dynamo_process :: "'w server \<Rightarrow> files \<Rightarrow> string list \<Rightarrow> ('w, unit) script" where
  "create_dynamo_process E fs argv = with_args (parse_dynamo_args argv) (create_dynamo_main E fs)"

definition input_dynamo_process :: "'w server \<Rightarrow> files \<Rightarrow> string list \<Rightarrow> ('w, unit) script" where
  "input_dynamo_process E fs argv = with_args (parse_dynamo_args argv) (input_dynamo_main E fs)"

definition query_dynamo_process :: "'w server \<Rightarrow> files \<Rightarrow> string list \<Rightarrow> ('w, row list) script" where
  "query_dynamo_process E fs argv = with_args (parse_dynamo_args argv) (query_dynamo_main E fs)"

subsection \<open>Lemmas\<close>

text \<open>Both translators agree: the one of the connection library and the one of the proxy demo.\<close>

lemma proxy_translate_library: "proxy_translate tr = translate (proxy_host tr)"
  by (simp add: fun_eq_iff proxy_translate_def translate_def)

lemma str_replace_absent:
  assumes "old \<noteq> []" "hd old \<notin> set s"
  shows "str_replace old new s = s"
  using assms(2)
proof (induction s)
  case (Cons c s)
  with assms(1) have "take (length old) (c # s) \<noteq> old" by (cases old) auto
  with Cons show ?case by (subst str_replace.simps) simp
qed (simp add: str_replace.simps)

lemma str_replace_prefix: "old \<noteq> [] \<Longrightarrow> str_replace old new (old @ s) = new @ str_replace old new s"
  by (subst str_replace.simps) simp

lemma str_replace_Cons: "c \<noteq> hd old \<Longrightarrow> old \<noteq> [] \<Longrightarrow> str_replace old new (c # s) = c # str_replace old new s"
  by (subst str_replace.simps) (cases old; auto)

lemma str_replace_skip: "hd old \<notin> set s \<Longrightarrow> old \<noteq> [] \<Longrightarrow> str_replace old new (s @ s') = s @ str_replace old new s'"
  by (induction s) (auto simp: str_replace_Cons)

text \<open>Without TLS the URL is taken as it is; with TLS \<open>http://host:8000\<close> becomes \<open>https://host:8043\<close>, verified.\<close>

lemma dynamo_plain:
  "dynamo_verify opts = ''False'' \<Longrightarrow> dynamo_endpoint fs opts = Inr (dynamo_url opts, None)"
  by (simp add: dynamo_endpoint_def)

lemma dynamo_tls:
  assumes "dynamo_url opts = ''http://'' @ host @ '':8000''" "CHR '':'' \<notin> set host" "CHR ''h'' \<notin> set host"
    and "dynamo_verify opts = ''true''" "isfile fs (in_config ''ca.crt'')"
  shows "dynamo_endpoint fs opts = Inr (''https://'' @ host @ '':8043'', Some (in_config ''ca.crt''))"
proof -
  have "str_replace ''http://'' ''https://'' (''http://'' @ host @ '':8000'') = ''https://'' @ host @ '':8000''"
    using assms(3) str_replace_absent [of "''http://''" "host @ '':8000''" "''https://''"]
    by (subst str_replace_prefix) auto
  moreover have "str_replace '':8000'' '':8043'' (''https://'' @ host @ '':8000'') = ''https://'' @ host @ '':8043''"
  proof -
    have "str_replace '':8000'' '':8043'' '':8000'' = '':8043''"
      using str_replace_prefix [of "'':8000''" "'':8043''" "[]"] by (simp add: str_replace.simps)
    then have "str_replace '':8000'' '':8043'' (host @ '':8000'') = host @ '':8043''"
      using assms(2) by (subst str_replace_skip) auto
    moreover have "str_replace '':8000'' '':8043'' (''://'' @ s) = ''://'' @ str_replace '':8000'' '':8043'' s" for s
      by (subst str_replace.simps) (simp add: str_replace_Cons)
    ultimately show ?thesis by (simp add: str_replace_Cons)
  qed
  ultimately show ?thesis using assms by (simp add: dynamo_endpoint_def)
qed

end
