(* ===== verification/Rest_Api.thy ===== *)
theory Rest_Api
  imports Judgement
begin

text \<open>
  The client of the ScyllaDB REST API: \<open>api\<close> and \<open>api_alive\<close> of
  \<open>sample_app/convert_to_tablets.py\<close>, with the module's constants. The reply itself comes from the
  environment; what the client makes of it is the function \<open>api_result\<close>.
\<close>

subsection \<open>Constants\<close>

definition MIGRATIONS :: string where
  "MIGRATIONS = ''/storage_service/vnode_tablet_migrations''"

definition API_PORT :: int where
  "API_PORT = 10000"

definition SA_DIR :: string where
  "SA_DIR = ''/var/run/secrets/kubernetes.io/serviceaccount''"

definition POLL_INTERVAL :: int where
  "POLL_INTERVAL = 15"

definition DOWN_TIMEOUT :: int where
  "DOWN_TIMEOUT = 300"

text \<open>The paths the tool uses.\<close>

abbreviation hostid_path :: string where
  "hostid_path \<equiv> ''/storage_service/hostid/local''"

abbreviation drain_path :: string where
  "drain_path \<equiv> ''/storage_service/drain''"

abbreviation mode_path :: string where
  "mode_path \<equiv> MIGRATIONS @ ''/node/storage_mode''"

definition ks_path :: "string \<Rightarrow> string" where
  "ks_path ks = MIGRATIONS @ ''/keyspaces/'' @ ks"

definition fin_path :: "string \<Rightarrow> string" where
  "fin_path ks = MIGRATIONS @ ''/keyspaces/'' @ ks @ ''/finalization''"

subsection \<open>One request\<close>

text \<open>
  The message of a failed request: the body text, or the \<open>message\<close> member when the body is JSON.
  A JSON body that is not an object has no \<open>get\<close>, and the AttributeError is not the ValueError the
  code expects.
\<close>

definition error_message :: "response \<Rightarrow> json py" where
  "error_message resp =
     (let message = JStr (strip (body_text resp))
      in case body_json resp of
           None \<Rightarrow> Inr message
         | Some j \<Rightarrow> jget_default j ''message'' message)"

definition api_result :: "string \<Rightarrow> string \<Rightarrow> answer \<Rightarrow> exn + json" where
  "api_result meth path a =
     (case a of
        Reply resp \<Rightarrow>
          (if status_code resp \<ge> 400 then
             (case error_message resp of
                Inl p \<Rightarrow> Inl (PyError p)
              | Inr message \<Rightarrow> Inl (ApiError (meth, path, status_code resp, message)))
           else if body_text resp = [] then Inr JNull
           else (case body_json resp of
                   Some j \<Rightarrow> Inr j
                 | None \<Rightarrow> Inr (JStr (strip (body_text resp)))))
      | _ \<Rightarrow> Inl RequestException)"

text \<open>\<open>requests\<close> refuses a timeout that is not positive with a ValueError, before it sends anything.\<close>

definition api :: "'w env \<Rightarrow> string \<Rightarrow> string \<Rightarrow> string \<Rightarrow> (string \<times> string) list \<Rightarrow> int \<Rightarrow> ('w, json) prog" where
  "api E meth host path params timeout =
     (if timeout \<le> 0 then raise (PyError ValueError)
      else bind (gets api_port) (\<lambda>port.
           bind (perform E (Rest meth host port path params timeout)) (\<lambda>a.
           case api_result meth path a of Inl e \<Rightarrow> raise e | Inr j \<Rightarrow> ret j)))"

text \<open>The exceptions of the recurring \<open>except (ApiError, requests.RequestException)\<close>.\<close>

definition net_exn :: "exn \<Rightarrow> bool" where
  "net_exn e = (case e of ApiError x \<Rightarrow> True | RequestException \<Rightarrow> True | _ \<Rightarrow> False)"

definition api_exn :: "exn \<Rightarrow> bool" where
  "api_exn e = (case e of ApiError x \<Rightarrow> True | _ \<Rightarrow> False)"

lemma net_exn_simps [simp]:
  "net_exn (Fatal f) = False" "net_exn (ApiError x) = True" "net_exn RequestException = True"
  "net_exn KeyboardInterrupt = False" "net_exn DriverError = False" "net_exn (PyError p) = False"
  by (simp_all add: net_exn_def)

lemma api_exn_simps [simp]:
  "api_exn (Fatal f) = False" "api_exn (ApiError x) = True" "api_exn RequestException = False"
  "api_exn KeyboardInterrupt = False" "api_exn DriverError = False" "api_exn (PyError p) = False"
  by (simp_all add: api_exn_def)

definition api_alive :: "'w env \<Rightarrow> string \<Rightarrow> ('w, bool) prog" where
  "api_alive E host =
     catch net_exn
       (bind (api E ''GET'' host hostid_path [] 5) (\<lambda>_. ret True))
       (\<lambda>_. ret False)"

subsection \<open>What a request does\<close>

lemma perform_trace: "perform E c s = (t, s', r) \<Longrightarrow> \<exists>a. t = [(c, a)]"
  by (auto simp: perform_def split: prod.splits)

lemma perform_Inr: "perform E c s = (t, s', Inr a) \<Longrightarrow> t = [(c, a)]"
  by (auto simp: perform_def split: prod.splits if_splits)

lemma perform_store: "perform E c s = (t, s', r) \<Longrightarrow> store s' = store s \<and> api_port s' = api_port s"
  by (auto simp: perform_def split: prod.splits if_splits)

text \<open>A request that returned, and one that raised: exactly one call, and the reply it got.\<close>

lemma api_Inr:
  assumes "api E meth host path params timeout s = (t, s', Inr j)"
  obtains a where "t = [(Rest meth host (api_port s) path params timeout, a)]"
    and "api_result meth path a = Inr j" and "store s' = store s"
proof -
  from assms obtain t1 s1 a t2
    where p: "perform E (Rest meth host (api_port s) path params timeout) s = (t1, s1, Inr a)"
      and r: "(case api_result meth path a of Inl e \<Rightarrow> raise e | Inr j \<Rightarrow> ret j) s1 = (t2, s', Inr j)"
      and t: "t = t1 @ t2"
    by (auto simp: api_def bind_gets bind_Inr_iff split: if_splits)
  from r have "api_result meth path a = Inr j \<and> t2 = [] \<and> s' = s1"
    by (auto split: sum.splits)
  with that perform_Inr [OF p] perform_store [OF p] t show thesis by simp
qed

lemma api_trace:
  assumes "api E meth host path params timeout s = (t, s', r)" and "0 < timeout"
  shows "\<exists>a. t = [(Rest meth host (api_port s) path params timeout, a)]"
  using assms(1) unfolding api_def bind_gets if_not_P [OF assms(2) [unfolded not_le [symmetric]]]
  by (cases rule: bindE) (auto dest: perform_trace perform_Inr split: sum.splits)

lemma api_refused: "timeout \<le> 0 \<Longrightarrow> api E meth host path params timeout = raise (PyError ValueError)"
  by (simp add: api_def)

lemma api_alive_trace:
  assumes "api_alive E host s = (t, s', r)"
  shows "\<exists>a. t = [(Rest ''GET'' host (api_port s) hostid_path [] 5, a)]"
  using assms unfolding api_alive_def
  by (cases rule: catchE) (auto elim!: bindE dest: api_trace)

lemma api_alive_True:
  assumes "api_alive E host s = (t, s', Inr True)"
  shows "\<exists>a j. t = [(Rest ''GET'' host (api_port s) hostid_path [] 5, a)] \<and>
           api_result ''GET'' hostid_path a = Inr j"
  using assms unfolding api_alive_def
  by (cases rule: catchE) (auto simp: bind_Inr_iff elim!: api_Inr)

lemma api_alive_store: "api_alive E host s = (t, s', r) \<Longrightarrow> store s' = store s \<and> api_port s' = api_port s"
  unfolding api_alive_def api_def bind_gets
  by (auto elim!: catchE bindE dest: perform_store split: sum.splits if_splits)

subsection \<open>The reading contract\<close>

text \<open>Components that only read need no more of \<open>\<Phi>\<close> than that GET requests and waiting respect it.\<close>

locale reading = contract \<Phi> for \<Phi> :: "'w effect" +
  fixes E :: "'w env"
  assumes get: "obeys \<Phi> (perform E (Rest ''GET'' h p path ps tm))"
    and sleeping: "obeys \<Phi> (perform E (Sleep n))"
begin

lemma obeys_api_get [intro!]: "obeys \<Phi> (api E ''GET'' h path ps tm)"
  unfolding api_def by (auto intro!: obeys_bind get split: sum.split)

lemma obeys_api_alive [intro!]: "obeys \<Phi> (api_alive E h)"
  unfolding api_alive_def by auto

lemma obeys_sleep [intro!]: "obeys \<Phi> (sleep E n)"
  unfolding sleep_def by (auto intro!: obeys_bind sleeping)

end

interpretation steady_reading: reading steady E for E
  by unfold_locales (rule steady_perform)+

interpretation quiet_reading: reading "calls_in read_only" E for E
  by unfold_locales (simp_all add: calls_in_perform)

end
