(* ===== verification/Kubernetes.thy ===== *)
theory Kubernetes
  imports Rest_Api
begin

text \<open>
  The in-cluster Kubernetes client: class \<open>K8s\<close> of \<open>sample_app/convert_to_tablets.py\<close>. The object's
  fields are the record \<open>k8s\<close>; they do not change after construction. The service's answers come
  from the environment. \<open>requests\<close> documents that the error of \<open>resp.json()\<close> on a body that is not
  JSON is a ValueError and, from 2.27 on, also a RequestException; \<open>requirements.txt\<close> asks for 2.32.
\<close>

record k8s =
  available :: bool
  namespace :: "string option"
  base :: string

text \<open>
  \<open>__init__\<close>: from the two environment variables and the two files of the mounted ServiceAccount
  (\<open>None\<close> where the variable is unset or reading the file raises OSError).
\<close>

definition k8s_init :: "string option \<Rightarrow> string option \<Rightarrow> string option \<Rightarrow> string option \<Rightarrow> k8s" where
  "k8s_init host port token_file namespace_file =
     (let unavailable = \<lparr>available = False, namespace = None, base = []\<rparr>
      in case (token_file, namespace_file) of
           (Some token, Some ns) \<Rightarrow>
             (if host = None \<or> host = Some [] \<or> strip token = []
              then unavailable\<lparr>namespace := Some (strip ns)\<rparr>
              else \<lparr>available = True, namespace = Some (strip ns),
                     base = ''https://'' @ the host @ '':'' @ (case port of None \<Rightarrow> ''443'' | Some p \<Rightarrow> p)\<rparr>)
         | _ \<Rightarrow> unavailable)"

text \<open>An optional string in an f-string.\<close>

definition text_of :: "string option \<Rightarrow> string" where
  "text_of x = (case x of None \<Rightarrow> ''None'' | Some s \<Rightarrow> s)"

definition k8s_result :: "string \<Rightarrow> string \<Rightarrow> answer \<Rightarrow> exn + json" where
  "k8s_result meth path a =
     (case a of
        Reply resp \<Rightarrow>
          (if status_code resp \<ge> 400 then
             (case error_message resp of
                Inl p \<Rightarrow> Inl (PyError p)
              | Inr message \<Rightarrow> Inl (Fatal (Kubernetes_api (meth, path, status_code resp, message))))
           else if body_text resp = [] then Inr JNull
           else (case body_json resp of Some j \<Rightarrow> Inr j | None \<Rightarrow> Inl RequestException))
      | _ \<Rightarrow> Inl RequestException)"

text \<open>\<open>_request\<close>. Without a token the object has no \<open>session\<close>, hence the AttributeError.\<close>

definition k8s_request :: "'w env \<Rightarrow> k8s \<Rightarrow> string \<Rightarrow> string \<Rightarrow> ('w, json) prog" where
  "k8s_request E k meth path =
     (if \<not> available k then raise (PyError AttributeError)
      else bind (perform E (Kube meth (base k @ path))) (\<lambda>a.
           case k8s_result meth path a of Inl e \<Rightarrow> raise e | Inr j \<Rightarrow> ret j))"

definition pods_path :: "k8s \<Rightarrow> string" where
  "pods_path k = ''/api/v1/namespaces/'' @ text_of (namespace k) @ ''/pods''"

definition pod_path :: "k8s \<Rightarrow> string \<Rightarrow> string" where
  "pod_path k name = pods_path k @ ''/'' @ name"

text \<open>The exceptions of \<open>except (Fatal, requests.RequestException)\<close>.\<close>

definition k8s_exn :: "exn \<Rightarrow> bool" where
  "k8s_exn e = (case e of Fatal f \<Rightarrow> True | RequestException \<Rightarrow> True | _ \<Rightarrow> False)"

lemma k8s_exn_simps [simp]:
  "k8s_exn (Fatal f) = True" "k8s_exn (ApiError x) = False" "k8s_exn RequestException = True"
  "k8s_exn KeyboardInterrupt = False" "k8s_exn DriverError = False" "k8s_exn (PyError p) = False"
  by (simp_all add: k8s_exn_def)

text \<open>\<open>(item.get("status") or {}).get("podIP")\<close>\<close>

definition pod_ip_of :: "json \<Rightarrow> json py" where
  "pod_ip_of item = ebind (jget item ''status'') (\<lambda>status. jget (or_else status (JObj [])) ''podIP'')"

definition pod_entry :: "json \<Rightarrow> (string \<times> string) list py" where
  "pod_entry item =
     ebind (pod_ip_of item) (\<lambda>ip.
     if truthy ip then
       ebind (jindex item ''metadata'') (\<lambda>metadata.
       ebind (jindex metadata ''name'') (\<lambda>name.
       ebind (jtext ip) (\<lambda>ip'. ebind (jtext name) (\<lambda>name'. Inr [(ip', name')]))))
     else Inr [])"

definition decode_pods :: "json \<Rightarrow> (string \<times> string) list py" where
  "decode_pods body =
     ebind (jget_default body ''items'' (JArr [])) (\<lambda>items.
     ebind (jiter items) (\<lambda>items.
     ebind (emap pod_entry items) (\<lambda>pods. Inr (dict_of (concat pods)))))"

definition pods_by_ip :: "'w env \<Rightarrow> k8s \<Rightarrow> ('w, (string \<times> string) list) prog" where
  "pods_by_ip E k =
     (if \<not> available k then ret []
      else bind (catch k8s_exn
                   (bind (k8s_request E k ''GET'' (pods_path k)) (\<lambda>body. ret (Some body)))
                   (\<lambda>_. ret None)) (\<lambda>body.
           case body of None \<Rightarrow> ret [] | Some body \<Rightarrow> lift (decode_pods body)))"

definition delete_pod :: "'w env \<Rightarrow> k8s \<Rightarrow> string \<Rightarrow> ('w, unit) prog" where
  "delete_pod E k name = bind (k8s_request E k ''DELETE'' (pod_path k name)) (\<lambda>_. ret ())"

definition pod_ip :: "'w env \<Rightarrow> k8s \<Rightarrow> string \<Rightarrow> ('w, json) prog" where
  "pod_ip E k name =
     bind (catch k8s_exn
             (bind (k8s_request E k ''GET'' (pod_path k name)) (\<lambda>body. ret (Some body)))
             (\<lambda>_. ret None)) (\<lambda>body.
     case body of None \<Rightarrow> ret JNull | Some body \<Rightarrow> lift (pod_ip_of body))"

text \<open>
  \<open>can_delete_pods\<close>. The reply's status code is not looked at; the body of an error reply of
  Kubernetes is an object whose \<open>status\<close> member is the string \<open>Failure\<close>.
\<close>

definition review_path :: string where
  "review_path = ''/apis/authorization.k8s.io/v1/selfsubjectaccessreviews''"

definition review_result :: "answer \<Rightarrow> bool py" where
  "review_result a =
     (case a of
        Reply resp \<Rightarrow>
          (case body_json resp of
             None \<Rightarrow> Inr False
           | Some j \<Rightarrow>
               ebind (jget_default j ''status'' (JObj [])) (\<lambda>status.
               ebind (jget status ''allowed'') (\<lambda>allowed. Inr (truthy allowed))))
      | _ \<Rightarrow> Inr False)"

definition can_delete_pods :: "'w env \<Rightarrow> k8s \<Rightarrow> ('w, bool) prog" where
  "can_delete_pods E k =
     (if \<not> available k then ret False
      else bind (perform E (Kube_review (base k @ review_path) (namespace k))) (\<lambda>a.
           lift (review_result a)))"

subsection \<open>The contract of the Kubernetes reads\<close>

locale kube_reading = reading \<Phi> E for \<Phi> :: "'w effect" and E :: "'w env" +
  assumes kube_get: "obeys \<Phi> (perform E (Kube ''GET'' u))"
    and review: "obeys \<Phi> (perform E (Kube_review u ns))"
begin

lemma obeys_k8s_get [intro!]: "obeys \<Phi> (k8s_request E k ''GET'' path)"
  unfolding k8s_request_def by (auto intro!: obeys_bind kube_get split: sum.split)

lemma obeys_pods_by_ip [intro!]: "obeys \<Phi> (pods_by_ip E k)"
  unfolding pods_by_ip_def by (auto intro!: obeys_bind obeys_catch split: option.split)

lemma obeys_pod_ip [intro!]: "obeys \<Phi> (pod_ip E k name)"
  unfolding pod_ip_def by (auto intro!: obeys_bind obeys_catch split: option.split)

lemma obeys_can_delete_pods [intro!]: "obeys \<Phi> (can_delete_pods E k)"
  unfolding can_delete_pods_def by (auto intro!: obeys_bind review)

end

interpretation steady_kube: kube_reading steady E for E
  by unfold_locales (rule steady_perform)+

interpretation quiet_kube: kube_reading "calls_in read_only" E for E
  by unfold_locales (simp_all add: calls_in_perform)

subsection \<open>The access review\<close>

lemma can_delete_pods_True:
  assumes "can_delete_pods E k s = (t, s', Inr True)"
  shows "available k \<and>
    (\<exists>a. t = [(Kube_review (base k @ review_path) (namespace k), a)] \<and> review_result a = Inr True)"
  using assms unfolding can_delete_pods_def
  by (auto simp: bind_Inr_iff lift_Inr_iff dest: perform_Inr split: if_splits)

end
