(* ===== verification/Polling.thy ===== *)
theory Polling
  imports Kubernetes
begin

text \<open>
  The polling loops of \<open>sample_app/convert_to_tablets.py\<close>. \<open>wait_for\<close> and \<open>wait_node_mode\<close> have
  one shape: compute the deadline, then check, look at the clock, sleep, check again. The loop carries
  fuel, \<open>poll_fuel\<close>, one unit per check. It is always enough: a check that does not run the clock
  backwards and a sleep of at least \<open>interval\<close> seconds leave room for no more than
  \<open>timeout div interval + 2\<close> checks before the deadline has passed.
\<close>

definition poll_fuel :: "int \<Rightarrow> int \<Rightarrow> nat" where
  "poll_fuel timeout interval = nat (timeout div interval) + 2"

fun poll :: "nat \<Rightarrow> 'w env \<Rightarrow> ('w, bool) prog \<Rightarrow> int \<Rightarrow> int \<Rightarrow> ('w, bool) prog" where
  "poll 0 E check deadline interval = halt Out_of_fuel"
| "poll (Suc n) E check deadline interval =
     bind check (\<lambda>ok.
     if ok then ret True
     else bind monotonic (\<lambda>now.
          if now \<ge> deadline then ret False
          else seq (sleep E interval) (poll n E check deadline interval)))"

definition poll_until :: "'w env \<Rightarrow> ('w, bool) prog \<Rightarrow> int \<Rightarrow> int \<Rightarrow> ('w, bool) prog" where
  "poll_until E check timeout interval =
     bind monotonic (\<lambda>now.
     poll (poll_fuel timeout interval) E check (now + timeout * second) interval)"

text \<open>\<open>wait_for\<close>; its message and its progress lines are output.\<close>

definition wait_for :: "'w env \<Rightarrow> ('w, bool) prog \<Rightarrow> int \<Rightarrow> int \<Rightarrow> ('w, bool) prog" where
  "wait_for E predicate timeout interval = poll_until E predicate timeout interval"

subsection \<open>The clock during a poll\<close>

lemma sleep_clock:
  assumes "sleep E n s = (t, s', Inr x)" and "0 \<le> n"
  shows "clock s + n * second \<le> clock s'"
  using assms
  by (auto simp: sleep_def bind_Inr_iff perform_def requested_time_def split: prod.splits if_splits)

lemma second_pos [simp]: "0 < second"
  by (simp add: second_def)

lemma poll_fuel_enough:
  assumes "0 < interval"
  shows "now + timeout * second \<le> now + int (poll_fuel timeout interval - 1) * (interval * second)"
proof -
  have "timeout \<le> (timeout div interval + 1) * interval"
    using assms by (metis distrib_right div_mult_mod_eq less_imp_le mult_1 pos_mod_bound add_left_mono)
  also have "\<dots> \<le> int (poll_fuel timeout interval - 1) * interval"
    using assms by (intro mult_right_mono) (auto simp: poll_fuel_def)
  finally have "timeout * second \<le> int (poll_fuel timeout interval - 1) * interval * second"
    by (intro mult_right_mono) (auto simp: less_imp_le)
  then show ?thesis by (simp add: algebra_simps)
qed

text \<open>Enough fuel for the time left: every check that fails before the deadline costs an interval.\<close>

context reading
begin

lemma obeys_poll_clock:
  assumes forward: "\<forall>s t s' x. \<Phi> s t s' x \<longrightarrow> clock s \<le> clock s'"
    and check: "obeys \<Phi> check" and "0 < interval"
    and "deadline \<le> clock s + int (n - 1) * (interval * second)" and "0 < n"
    and "poll n E check deadline interval s = (t, s', r)"
  shows "\<Phi> s t s' (stopped r)"
  using assms(4-6)
proof (induction n arbitrary: s t)
  case 0
  then show ?case by simp
next
  case (Suc n)
  from Suc.prems(3) have "bind check (\<lambda>ok. if ok then ret True else bind monotonic (\<lambda>now.
          if now \<ge> deadline then ret False
          else seq (sleep E interval) (poll n E check deadline interval))) s = (t, s', r)" by simp
  then show ?case
  proof (cases rule: bindE)
    case (stopped e)
    with check show ?thesis by (auto dest: obeysD)
  next
    case (went_on t1 s1 ok t2)
    have first: "\<Phi> s t1 s1 None" using obeysD [OF check went_on(1)] by simp
    then have clock1: "clock s \<le> clock s1" using forward by blast
    have "\<Phi> s1 t2 s' (stopped r)"
    proof (cases "ok \<or> deadline \<le> clock s1")
      case True
      with went_on(2) idle show ?thesis by (auto simp: monotonic_def bind_gets split: if_splits)
    next
      case False
      with Suc.prems(1) clock1 have "n \<noteq> 0" by (cases n) auto
      from False went_on(2) have "bind (sleep E interval) (\<lambda>_. poll n E check deadline interval) s1 = (t2, s', r)"
        by (auto simp: monotonic_def bind_gets seq_def)
      then show ?thesis
      proof (cases rule: bindE)
        case (stopped e)
        with obeys_sleep [of interval] show ?thesis by (auto dest: obeysD)
      next
        case (went_on t3 s3 u t4)
        have "clock s + interval * second \<le> clock s3"
          using sleep_clock [OF went_on(1)] \<open>0 < interval\<close> clock1 by simp
        moreover have "int n * (interval * second) = interval * second + int (n - 1) * (interval * second)"
          using \<open>n \<noteq> 0\<close> by (cases n) (simp_all add: algebra_simps)
        ultimately have "deadline \<le> clock s3 + int (n - 1) * (interval * second)"
          using Suc.prems(1) by simp
        with Suc.IH [of s3 t4] went_on(2) \<open>n \<noteq> 0\<close> have "\<Phi> s3 t4 s' (stopped r)" by simp
        moreover have "\<Phi> s1 t3 s3 None" using obeysD [OF obeys_sleep went_on(1)] by simp
        ultimately show ?thesis using went_on(3) joined by blast
      qed
    qed
    with first went_on(3) joined show ?thesis by blast
  qed
qed

lemma obeys_poll_fuel:
  assumes "\<forall>s. \<Phi> s [] s (Some Out_of_fuel)" and "obeys \<Phi> check"
  shows "obeys \<Phi> (poll n E check deadline interval)"
proof (induction n)
  case 0
  with assms(1) show ?case by (auto intro!: obeysI)
next
  case (Suc n)
  with assms(2) show ?case by auto
qed

lemma obeys_poll_until [intro!]:
  assumes "obeys \<Phi> check" and "0 < interval"
  shows "obeys \<Phi> (poll_until E check timeout interval)"
  using fuelled
proof
  assume "\<forall>s. \<Phi> s [] s (Some Out_of_fuel)"
  with assms show ?thesis by (auto simp: poll_until_def intro: obeys_poll_fuel)
next
  assume forward: "\<forall>s t s' x. \<Phi> s t s' x \<longrightarrow> clock s \<le> clock s'"
  show ?thesis
  proof (rule obeysI)
    fix s t s' r
    assume "poll_until E check timeout interval s = (t, s', r)"
    then have "poll (poll_fuel timeout interval) E check (clock s + timeout * second) interval s = (t, s', r)"
      by (simp add: poll_until_def monotonic_def bind_gets)
    then show "\<Phi> s t s' (stopped r)"
      by (rule obeys_poll_clock [OF forward assms poll_fuel_enough [OF assms(2)], rotated])
        (simp add: poll_fuel_def)
  qed
qed

lemma obeys_wait_for [intro!]:
  "obeys \<Phi> p \<Longrightarrow> 0 < interval \<Longrightarrow> obeys \<Phi> (wait_for E p timeout interval)"
  unfolding wait_for_def by auto

end

subsection \<open>What a poll returns\<close>

lemma poll_True:
  assumes "poll n E check deadline interval s = (t, s', Inr True)"
  shows "\<exists>s1 t1. check s1 = (t1, s', Inr True) \<and> suffix t1 t"
  using assms
proof (induction n arbitrary: s t)
  case 0
  then show ?case by simp
next
  case (Suc n)
  then obtain t1 s1 ok t2 where c: "check s = (t1, s1, Inr ok)" and t: "t = t1 @ t2"
    and rest: "(if ok then ret True else bind monotonic (\<lambda>now. if now \<ge> deadline then ret False
          else seq (sleep E interval) (poll n E check deadline interval))) s1 = (t2, s', Inr True)"
    by (auto simp: bind_Inr_iff)
  show ?case
  proof (cases ok)
    case True
    with rest c t show ?thesis by auto
  next
    case False
    with rest obtain t3 s3 t4 where "poll n E check deadline interval s3 = (t4, s', Inr True)" "t2 = t3 @ t4"
      by (auto simp: monotonic_def bind_gets seq_Inr_iff split: if_splits)
    with Suc.IH t show ?thesis by (metis suffix_append suffix_appendI)
  qed
qed

lemma poll_False:
  assumes "poll n E check deadline interval s = (t, s', Inr False)"
  shows "deadline \<le> clock s' \<and> (\<exists>s1 t1. check s1 = (t1, s', Inr False) \<and> suffix t1 t)"
  using assms
proof (induction n arbitrary: s t)
  case 0
  then show ?case by simp
next
  case (Suc n)
  then obtain t1 s1 ok t2 where c: "check s = (t1, s1, Inr ok)" and t: "t = t1 @ t2"
    and rest: "(if ok then ret True else bind monotonic (\<lambda>now. if now \<ge> deadline then ret False
          else seq (sleep E interval) (poll n E check deadline interval))) s1 = (t2, s', Inr False)"
    by (auto simp: bind_Inr_iff)
  show ?case
  proof (cases "ok \<or> deadline \<le> clock s1")
    case True
    with rest c t show ?thesis by (auto simp: monotonic_def bind_gets split: if_splits)
  next
    case False
    with rest obtain t3 s3 t4 where "poll n E check deadline interval s3 = (t4, s', Inr False)" "t2 = t3 @ t4"
      by (auto simp: monotonic_def bind_gets seq_Inr_iff split: if_splits)
    with Suc.IH t show ?thesis by (metis suffix_append suffix_appendI)
  qed
qed

lemma poll_until_True:
  "poll_until E check timeout interval s = (t, s', Inr True) \<Longrightarrow>
     \<exists>s1 t1. check s1 = (t1, s', Inr True) \<and> suffix t1 t"
  by (auto simp: poll_until_def monotonic_def bind_gets dest: poll_True)

lemma poll_until_False:
  "poll_until E check timeout interval s = (t, s', Inr False) \<Longrightarrow>
     clock s + timeout * second \<le> clock s' \<and> (\<exists>s1 t1. check s1 = (t1, s', Inr False) \<and> suffix t1 t)"
  by (auto simp: poll_until_def monotonic_def bind_gets dest: poll_False)

end
