(* ===== verification/Nodes.thy ===== *)
theory Nodes
  imports Polling
begin

text \<open>
  Nodes and discovery: the dataclass \<open>Node\<close>, \<open>resolve_api_host\<close>, \<open>discover_nodes\<close> and
  \<open>pick_control\<close> of \<open>sample_app/convert_to_tablets.py\<close>. The CQL driver's topology is the argument
  \<open>hosts\<close>, in the order \<open>cluster.metadata.all_hosts()\<close> yields it.
\<close>

text \<open>What the driver reports of a host.\<close>

record host =
  host_id :: string
  broadcast_address :: "string option"
  address :: "string option"
  listen_address :: "string option"
  datacenter :: "string option"
  host_rack :: "string option"

text \<open>The truth value of an optional string: None and the empty string are false.\<close>

definition given :: "string option \<Rightarrow> bool" where
  "given x \<longleftrightarrow> x \<noteq> None \<and> x \<noteq> Some []"

definition label :: "ref \<Rightarrow> node \<Rightarrow> string" where
  "label r n =
     (let who = (if given (pod n) then the (pod n)
                 else if given (api_host n) then the (api_host n)
                 else (case addresses n of [] \<Rightarrow> ''?'' | a # _ \<Rightarrow> a))
      in dc n @ ''/'' @ rack n @ '' '' @ who @ '' ('' @ take 8 r @ '')'')"

text \<open>\<open>node.api_host\<close> in a URL.\<close>

definition host_of :: "ref \<Rightarrow> ('w, string) prog" where
  "host_of r = gets (\<lambda>s. text_of (api_host (store s r)))"

subsection \<open>resolve_api_host\<close>

fun resolve_among :: "'w env \<Rightarrow> ref \<Rightarrow> string list \<Rightarrow> ('w, string option) prog" where
  "resolve_among E r [] = ret None"
| "resolve_among E r (a # as) =
     bind (catch net_exn
             (bind (api E ''GET'' a hostid_path [] 5) (\<lambda>j. ret (j = JStr r)))
             (\<lambda>_. ret False)) (\<lambda>found.
     if found then ret (Some a) else resolve_among E r as)"

definition resolve_api_host :: "'w env \<Rightarrow> ref \<Rightarrow> ('w, string option) prog" where
  "resolve_api_host E r = bind (gets (\<lambda>s. addresses (store s r))) (resolve_among E r)"

text \<open>\<open>node.api_host = resolve_api_host(node)\<close>\<close>

definition assign_api_host :: "'w env \<Rightarrow> ref \<Rightarrow> ('w, unit) prog" where
  "assign_api_host E r =
     bind (resolve_api_host E r) (\<lambda>a. modify r (\<lambda>n. n\<lparr>api_host := a\<rparr>))"

subsection \<open>discover_nodes\<close>

definition candidate_addresses :: "host \<Rightarrow> string list" where
  "candidate_addresses h =
     fold (\<lambda>a as. if given a \<and> the a \<notin> set as then as @ [the a] else as)
       [broadcast_address h, address h, listen_address h] []"

definition node_of_host :: "host \<Rightarrow> node" where
  "node_of_host h =
     \<lparr>dc = (if given (datacenter h) then the (datacenter h) else ''?''),
      rack = (if given (host_rack h) then the (host_rack h) else ''?''),
      addresses = candidate_addresses h, api_host = None, pod = None\<rparr>"

text \<open>The body of the second pass: one entry of the cluster's host ID map.\<close>

definition add_broadcast :: "ref list \<Rightarrow> json \<Rightarrow> ('w, unit) prog" where
  "add_broadcast refs entry =
     bind (lift (ebind (jindex entry ''value'') jkey)) (\<lambda>value.
     case value of
       JStr r \<Rightarrow>
         (if r \<in> set refs then
            bind (gets (\<lambda>s. store s r)) (\<lambda>n.
            if given (api_host n) then ret ()
            else bind (lift (ebind (jindex entry ''key'') jtext)) (\<lambda>key.
                 if key \<in> set (addresses n) then ret ()
                 else modify r (addresses_update (\<lambda>as. as @ [key]))))
          else ret ())
     | _ \<Rightarrow> ret ())"

definition second_pass :: "'w env \<Rightarrow> ref list \<Rightarrow> ref list \<Rightarrow> ref option \<Rightarrow> ('w, unit) prog" where
  "second_pass E refs unresolved resolved =
     (case resolved of
        None \<Rightarrow> ret ()
      | Some r \<Rightarrow>
          (if unresolved = [] then ret ()
           else seq (catch net_exn
                       (bind (host_of r) (\<lambda>h.
                        bind (api E ''GET'' h ''/storage_service/host_id'' [] 30) (\<lambda>body.
                        bind (lift (jiter body)) (\<lambda>entries. for_each (add_broadcast refs) entries))))
                       (\<lambda>_. ret ()))
                    (for_each (assign_api_host E) unresolved)))"

definition pod_of :: "(string \<times> string) list \<Rightarrow> node \<Rightarrow> string option" where
  "pod_of pods n =
     (case find (\<lambda>a. a \<in> fst ` set pods) (addresses n) of
        None \<Rightarrow> pod n
      | Some a \<Rightarrow> map_of pods a)"

definition node_key :: "'w st \<Rightarrow> ref \<Rightarrow> string \<times> string \<times> string \<times> string" where
  "node_key s r =
     (let n = store s r in (dc n, rack n, (if given (pod n) then the (pod n) else []), r))"

definition discover_nodes :: "'w env \<Rightarrow> host list \<Rightarrow> k8s \<Rightarrow> ('w, ref list) prog" where
  "discover_nodes E hosts k =
     bind (pods_by_ip E k) (\<lambda>pods.
     let refs = first_occurrences (map host_id hosts) in
     seq (for_each (\<lambda>h. modify (host_id h) (\<lambda>_. node_of_host h)) hosts)
    (seq (for_each (assign_api_host E) refs)
    (bind (gets (\<lambda>s. filter (\<lambda>r. \<not> given (api_host (store s r))) refs)) (\<lambda>unresolved.
     bind (gets (\<lambda>s. find (\<lambda>r. given (api_host (store s r))) refs)) (\<lambda>resolved.
     seq (second_pass E refs unresolved resolved)
    (seq (for_each (\<lambda>r. modify r (\<lambda>n. n\<lparr>pod := pod_of pods n\<rparr>)) refs)
         (gets (\<lambda>s. sort_key (node_key s) refs))))))))"

subsection \<open>pick_control\<close>

fun pick_control :: "'w env \<Rightarrow> ref list \<Rightarrow> ref option \<Rightarrow> ('w, ref option) prog" where
  "pick_control E [] exclude = ret None"
| "pick_control E (r # rs) exclude =
     (if exclude = Some r then pick_control E rs exclude
      else bind (gets (\<lambda>s. api_host (store s r))) (\<lambda>h.
           if given h then
             bind (api_alive E (the h)) (\<lambda>up.
             if up then ret (Some r) else pick_control E rs exclude)
           else pick_control E rs exclude))"

subsection \<open>The contract of node bookkeeping\<close>

context reading
begin

lemma obeys_resolve_among [intro!]: "obeys \<Phi> (resolve_among E r as)"
  by (induction as) (auto simp del: run_simps(1))

lemma obeys_resolve_api_host [intro!]: "obeys \<Phi> (resolve_api_host E r)"
  unfolding resolve_api_host_def by auto

end

text \<open>
  What the operations on nodes need of \<open>\<Phi>\<close> beside reading: resolving an address into \<open>api_host\<close>
  and adding candidate addresses respect it, for the nodes of \<open>R\<close>; discovery works on any node, and
  also creates the nodes and names their pods.
\<close>

locale node_reading = kube_reading \<Phi> E for \<Phi> :: "'w effect" and E :: "'w env" +
  fixes R :: "ref set"
  assumes assigning: "r \<in> R \<Longrightarrow> obeys \<Phi> (assign_api_host E r)"
    and addressing: "r \<in> R \<Longrightarrow> obeys \<Phi> (modify r (addresses_update f))"
begin

lemma obeys_host_of [intro!]: "obeys \<Phi> (host_of r)"
  unfolding host_of_def by auto

lemma obeys_pick_control [intro!]: "obeys \<Phi> (pick_control E rs x)"
  by (induction rs) (auto simp del: run_simps(1))

end

locale discovering = node_reading \<Phi> E UNIV for \<Phi> :: "'w effect" and E :: "'w env" +
  assumes creating: "obeys \<Phi> (modify r (\<lambda>_. node_of_host h))"
    and naming: "obeys \<Phi> (modify r (\<lambda>n. n\<lparr>pod := f n\<rparr>))"
begin

lemma obeys_add_broadcast [intro!]: "obeys \<Phi> (add_broadcast refs entry)"
  unfolding add_broadcast_def by (auto intro!: obeys_bind addressing split: json.split)

lemma obeys_second_pass [intro!]: "obeys \<Phi> (second_pass E refs un r)"
  unfolding second_pass_def
  by (auto intro!: obeys_seq obeys_catch obeys_bind obeys_for_each assigning split: option.split)

lemma obeys_discover_nodes [intro!]: "obeys \<Phi> (discover_nodes E hosts k)"
  unfolding discover_nodes_def Let_def
  by (intro obeys_bind obeys_seq obeys_for_each obeys_pods_by_ip obeys_gets obeys_second_pass
      assigning creating naming UNIV_I)

end

lemma obeys_modify_calls: "obeys (calls_in Q) (modify r f)"
  by (auto simp: obeys_def calls_in_def modify_def)

lemma obeys_modify_steady: "obeys steady (modify r f)"
  by (auto simp: obeys_def steady_def modify_def)

lemma steady_assign: "obeys steady (assign_api_host E r)"
  unfolding assign_api_host_def by (auto intro!: obeys_modify_steady)

lemma quiet_assign: "obeys (calls_in read_only) (assign_api_host E r)"
  unfolding assign_api_host_def by (auto intro!: obeys_modify_calls)

interpretation steady_nodes: node_reading steady E R for E R
  by unfold_locales (simp_all add: steady_assign obeys_modify_steady)

interpretation quiet_nodes: node_reading "calls_in read_only" E R for E R
  by unfold_locales (simp_all add: quiet_assign obeys_modify_calls)

interpretation steady_discovering: discovering steady E for E
  by unfold_locales (simp_all add: obeys_modify_steady)

interpretation quiet_discovering: discovering "calls_in read_only" E for E
  by unfold_locales (simp_all add: obeys_modify_calls)

end
