(* ===== verification/Migration_State.thy ===== *)
theory Migration_State
  imports Nodes
begin

text \<open>
  The migration state of a keyspace as the cluster reports it: \<open>ks_status\<close>, \<open>ks_state\<close>,
  \<open>node_modes\<close>, \<open>node_phrase\<close>, \<open>set_storage_mode\<close> and \<open>wait_node_mode\<close> of
  \<open>sample_app/convert_to_tablets.py\<close>.
\<close>

definition ks_status :: "'w env \<Rightarrow> ref \<Rightarrow> string \<Rightarrow> string option \<Rightarrow> ('w, json) prog" where
  "ks_status E r ks incl =
     bind (host_of r) (\<lambda>h.
     api E ''GET'' h (ks_path ks)
       (if given incl then [(''include'', the incl)] else []) 30)"

definition ks_state :: "'w env \<Rightarrow> ref \<Rightarrow> string \<Rightarrow> ('w, json) prog" where
  "ks_state E r ks = bind (ks_status E r ks None) (\<lambda>status. lift (jget status ''status''))"

text \<open>The dictionary of \<open>node_modes\<close>: host ID to current and intended mode, a later entry winning.\<close>

type_synonym modes = "(json \<times> json \<times> json) list"

definition mode_entry :: "json \<Rightarrow> (json \<times> json \<times> json) py" where
  "mode_entry entry =
     ebind (jindex entry ''host_id'') (\<lambda>h.
     ebind (jget entry ''current_mode'') (\<lambda>current.
     ebind (jget entry ''intended_mode'') (\<lambda>intended.
     ebind (jkey h) (\<lambda>h. Inr (h, current, intended)))))"

definition modes_in :: "json \<Rightarrow> modes py" where
  "modes_in status =
     ebind (jget status ''nodes'') (\<lambda>nodes.
     ebind (jiter (or_else nodes (JArr []))) (\<lambda>entries.
     ebind (emap mode_entry entries) (\<lambda>modes. Inr (dict_of modes))))"

definition decode_modes :: "json \<Rightarrow> (json \<times> modes) py" where
  "decode_modes status =
     ebind (modes_in status) (\<lambda>modes.
     ebind (jget status ''status'') (\<lambda>ks_mode. Inr (ks_mode, modes)))"

definition node_modes :: "'w env \<Rightarrow> ref \<Rightarrow> string \<Rightarrow> ('w, json \<times> modes) prog" where
  "node_modes E r ks = bind (ks_status E r ks None) (\<lambda>status. lift (decode_modes status))"

text \<open>
  The wording of \<open>node_phrase\<close>. Its text is \<open>unknown\<close>, \<open>uses X\<close> or \<open>migrating to X\<close>; the code only
  compares it, against texts whose \<open>X\<close> is \<open>vnodes\<close> or \<open>tablets\<close>, and the only decoded value that prints
  as one of these is the string itself, so \<open>X\<close> stays the decoded value.
\<close>

datatype phrase = Unknown | Uses json | Migrating_to json

definition node_phrase :: "modes \<Rightarrow> ref \<Rightarrow> json \<Rightarrow> phrase" where
  "node_phrase modes r ks_mode =
     (case (case map_of modes (JStr r) of None \<Rightarrow> (ks_mode, ks_mode) | Some m \<Rightarrow> m) of
        (current, intended) \<Rightarrow>
          (if \<not> truthy current \<or> \<not> truthy intended then Unknown
           else if current = intended then Uses current
           else Migrating_to intended))"

definition set_storage_mode :: "'w env \<Rightarrow> ref \<Rightarrow> string \<Rightarrow> ('w, unit) prog" where
  "set_storage_mode E r mode =
     bind (host_of r) (\<lambda>h.
     bind (api E ''PUT'' h mode_path [(''intended_mode'', mode)] 30) (\<lambda>_. ret ()))"

text \<open>\<open>phrases[keyspace] = node_phrase(...)\<close> for each keyspace.\<close>

definition phrases :: "'w env \<Rightarrow> ref \<Rightarrow> ref \<Rightarrow> string list \<Rightarrow> ('w, (string \<times> phrase) list) prog" where
  "phrases E control r keyspaces =
     bind (map_m (\<lambda>ks.
             bind (node_modes E control ks) (\<lambda>(ks_mode, modes).
             ret (ks, node_phrase modes r ks_mode))) keyspaces) (\<lambda>ps.
     ret (dict_of ps))"

definition uses_everywhere :: "'w env \<Rightarrow> ref \<Rightarrow> ref \<Rightarrow> string list \<Rightarrow> string \<Rightarrow> ('w, bool) prog" where
  "uses_everywhere E control r keyspaces want =
     bind (phrases E control r keyspaces) (\<lambda>ps.
     ret (\<forall>(ks, p) \<in> set ps. p = Uses (JStr want)))"

definition wait_node_mode ::
    "'w env \<Rightarrow> ref \<Rightarrow> ref \<Rightarrow> string list \<Rightarrow> string \<Rightarrow> int \<Rightarrow> ('w, bool) prog" where
  "wait_node_mode E control r keyspaces want timeout =
     poll_until E (uses_everywhere E control r keyspaces want) timeout POLL_INTERVAL"

lemma POLL_INTERVAL_pos [simp]: "0 < POLL_INTERVAL"
  by (simp add: POLL_INTERVAL_def)

subsection \<open>The contract\<close>

context node_reading
begin

lemma obeys_ks_status [intro!]: "obeys \<Phi> (ks_status E r ks incl)"
  unfolding ks_status_def by auto

lemma obeys_ks_state [intro!]: "obeys \<Phi> (ks_state E r ks)"
  unfolding ks_state_def by auto

lemma obeys_node_modes [intro!]: "obeys \<Phi> (node_modes E r ks)"
  unfolding node_modes_def by auto

lemma obeys_phrases [intro!]: "obeys \<Phi> (phrases E c r kss)"
  unfolding phrases_def by auto

lemma obeys_uses_everywhere [intro!]: "obeys \<Phi> (uses_everywhere E c r kss want)"
  unfolding uses_everywhere_def by auto

lemma obeys_wait_node_mode [intro!]: "obeys \<Phi> (wait_node_mode E c r kss want timeout)"
  unfolding wait_node_mode_def by auto

end

subsection \<open>Observations\<close>

text \<open>
  What a trace shows of a node: some reply to a status request for \<open>ks\<close> put node \<open>r\<close> in the phrase
  \<open>p\<close>, as \<open>node_phrase\<close> reads it; and of a keyspace: some reply gave its state as \<open>v\<close>.
\<close>

definition observed :: "string \<Rightarrow> ref \<Rightarrow> phrase \<Rightarrow> trace \<Rightarrow> bool" where
  "observed ks r p t \<longleftrightarrow>
     (\<exists>h port ps a status ks_mode modes.
        (Rest ''GET'' h port (ks_path ks) ps 30, a) \<in> set t \<and>
        api_result ''GET'' (ks_path ks) a = Inr status \<and>
        decode_modes status = Inr (ks_mode, modes) \<and>
        node_phrase modes r ks_mode = p)"

definition observed_state :: "string \<Rightarrow> json \<Rightarrow> trace \<Rightarrow> bool" where
  "observed_state ks v t \<longleftrightarrow>
     (\<exists>h port ps a status.
        (Rest ''GET'' h port (ks_path ks) ps 30, a) \<in> set t \<and>
        api_result ''GET'' (ks_path ks) a = Inr status \<and>
        jget status ''status'' = Inr v)"

lemma observed_mono: "observed ks r p t \<Longrightarrow> set t \<subseteq> set t' \<Longrightarrow> observed ks r p t'"
  unfolding observed_def by blast

lemma observed_state_mono: "observed_state ks v t \<Longrightarrow> set t \<subseteq> set t' \<Longrightarrow> observed_state ks v t'"
  unfolding observed_state_def by blast

lemma observed_append [simp]: "observed ks r p (t @ t') \<longleftrightarrow> observed ks r p t \<or> observed ks r p t'"
  unfolding observed_def set_append Un_iff by blast

lemma observed_state_append [simp]:
  "observed_state ks v (t @ t') \<longleftrightarrow> observed_state ks v t \<or> observed_state ks v t'"
  unfolding observed_state_def set_append Un_iff by blast

lemma ks_status_Inr:
  assumes "ks_status E r ks incl s = (t, s', Inr j)"
  shows "\<exists>a. t = [(Rest ''GET'' (text_of (api_host (store s r))) (api_port s) (ks_path ks)
                    (if given incl then [(''include'', the incl)] else []) 30, a)] \<and>
             api_result ''GET'' (ks_path ks) a = Inr j"
  using assms by (auto simp: ks_status_def host_of_def bind_gets elim!: api_Inr)

lemma ks_state_observed:
  assumes "ks_state E r ks s = (t, s', Inr v)"
  shows "observed_state ks v t"
  using assms
  by (fastforce simp: ks_state_def bind_Inr_iff lift_Inr_iff observed_state_def dest: ks_status_Inr)

lemma node_modes_observed:
  assumes "node_modes E c ks s = (t, s', Inr (ks_mode, modes))"
  shows "observed ks r (node_phrase modes r ks_mode) t"
  using assms
  by (fastforce simp: node_modes_def bind_Inr_iff lift_Inr_iff observed_def dest: ks_status_Inr)

lemma phrases_observed:
  assumes "phrases E c r kss s = (t, s', Inr ps)"
  shows "fst ` set ps = set kss" and "(ks, p) \<in> set ps \<Longrightarrow> observed ks r p t"
proof -
  from assms obtain qs where q: "map_m (\<lambda>ks. bind (node_modes E c ks) (\<lambda>(ks_mode, modes).
             ret (ks, node_phrase modes r ks_mode))) kss s = (t, s', Inr qs)" and ps: "ps = dict_of qs"
    by (auto simp: phrases_def bind_Inr_iff)
  from map_m_Inr_all2 [OF q] have "list_all2 (\<lambda>ks q. fst q = ks \<and> observed ks r (snd q) t) kss qs"
    by (rule list_all2_mono)
      (auto simp: bind_Inr_iff split: prod.splits intro: observed_mono [OF node_modes_observed])
  then have all: "map fst qs = kss" "\<forall>q \<in> set qs. observed (fst q) r (snd q) t"
    by (induction rule: list_all2_induct) auto
  with keys_dict_of [of qs] ps show "fst ` set ps = set kss" by force
  show "(ks, p) \<in> set ps \<Longrightarrow> observed ks r p t"
  proof -
    assume "(ks, p) \<in> set ps"
    then have "map_of qs' ks = Some p" if "qs' = rev qs" for qs'
      using distinct_dict_of [of qs] ps map_of_dict_of [of qs ks] that by (simp add: map_of_eq_Some_iff)
    then have "(ks, p) \<in> set qs" by (metis map_of_SomeD set_rev)
    with all(2) show ?thesis by force
  qed
qed

lemma uses_everywhere_observed:
  assumes "uses_everywhere E c r kss want s = (t, s', Inr True)" and "ks \<in> set kss"
  shows "observed ks r (Uses (JStr want)) t"
proof -
  from assms(1) obtain ps where ps: "phrases E c r kss s = (t, s', Inr ps)"
    and all: "\<forall>(ks, p) \<in> set ps. p = Uses (JStr want)"
    by (auto simp: uses_everywhere_def bind_Inr_iff)
  from assms(2) phrases_observed(1) [OF ps] obtain p where "(ks, p) \<in> set ps" by force
  with all phrases_observed(2) [OF ps] show ?thesis by auto
qed

lemma wait_node_mode_observed:
  assumes "wait_node_mode E c r kss want timeout s = (t, s', Inr True)" and "ks \<in> set kss"
  shows "observed ks r (Uses (JStr want)) t"
proof -
  from poll_until_True assms(1) obtain s1 t1
    where "uses_everywhere E c r kss want s1 = (t1, s', Inr True)" "suffix t1 t"
    unfolding wait_node_mode_def by blast
  with uses_everywhere_observed assms(2) show ?thesis
    by (metis observed_mono set_mono_suffix)
qed

end
