(* ===== verification/Restart.thy ===== *)
theory Restart
  imports Migration_State
begin

text \<open>
  Restarting a node: \<open>refresh_api_host\<close>, \<open>node_back_up\<close>, \<open>check_restart_capability\<close> and
  \<open>restart_node\<close> of \<open>sample_app/convert_to_tablets.py\<close>, with the command line options they and the
  phases read. Then the facts about which node a request really reaches.
\<close>

text \<open>The parsed options (\<open>parse_args\<close>) and their defaults, some taken from the process environment.\<close>

record opts =
  keyspaces :: "string list"
  opt_hosts :: string
  opt_username :: string
  opt_password :: string
  opt_dc :: string
  opt_tls :: bool
  opt_mtls :: bool
  status_only :: bool
  rollback_flag :: bool
  restart :: string
  opt_api_port :: int
  state_timeout :: int
  node_timeout :: int
  force :: bool
  assume_yes :: bool

definition default_opts :: "(string \<Rightarrow> string option) \<Rightarrow> string list \<Rightarrow> opts" where
  "default_opts environ kss =
     (let env = (\<lambda>name default. case environ name of None \<Rightarrow> default | Some v \<Rightarrow> v) in
     \<lparr>keyspaces = kss,
      opt_hosts = env ''CONTACT_POINTS'' ''scylla-client'', opt_username = env ''USERNAME'' ''cassandra'',
      opt_password = env ''PASSWORD'' ''cassandra'', opt_dc = env ''DC'' ''dc1'',
      opt_tls = False, opt_mtls = False, status_only = False, rollback_flag = False, restart = ''k8s'',
      opt_api_port = API_PORT, state_timeout = 3600, node_timeout = 3600,
      force = False, assume_yes = False\<rparr>)"

subsection \<open>Finding a restarted node\<close>

definition own_api_alive :: "'w env \<Rightarrow> ref \<Rightarrow> ('w, bool) prog" where
  "own_api_alive E r =
     bind (gets (\<lambda>s. api_host (store s r))) (\<lambda>h.
     if given h then api_alive E (the h) else ret False)"

definition pod_candidate :: "'w env \<Rightarrow> k8s \<Rightarrow> ref \<Rightarrow> ('w, string list) prog" where
  "pod_candidate E k r =
     bind (gets (\<lambda>s. pod (store s r))) (\<lambda>p.
     if available k \<and> given p then
       bind (pod_ip E k (the p)) (\<lambda>ip.
       if truthy ip then bind (lift (jtext ip)) (\<lambda>a. ret [a]) else ret [])
     else ret [])"

definition map_entry :: "ref \<Rightarrow> json \<Rightarrow> string list py" where
  "map_entry r entry =
     ebind (jindex entry ''value'') (\<lambda>value.
     if value = JStr r then ebind (jindex entry ''key'') (\<lambda>key. ebind (jtext key) (\<lambda>a. Inr [a]))
     else Inr [])"

definition map_candidates :: "'w env \<Rightarrow> ref \<Rightarrow> ref \<Rightarrow> ('w, string list) prog" where
  "map_candidates E control r =
     catch net_exn
       (bind (host_of control) (\<lambda>h.
        bind (api E ''GET'' h ''/storage_service/host_id'' [] 30) (\<lambda>body.
        lift (ebind (jiter body) (\<lambda>entries.
              ebind (emap (map_entry r) entries) (\<lambda>as. Inr (concat as)))))))
       (\<lambda>_. ret [])"

definition add_front :: "string \<Rightarrow> string list \<Rightarrow> string list" where
  "add_front a as = (if a \<in> set as then as else a # as)"

definition refresh_api_host :: "'w env \<Rightarrow> ref \<Rightarrow> ref \<Rightarrow> k8s \<Rightarrow> ('w, bool) prog" where
  "refresh_api_host E r control k =
     bind (own_api_alive E r) (\<lambda>up.
     if up then ret True
     else bind (pod_candidate E k r) (\<lambda>from_pod.
          bind (map_candidates E control r) (\<lambda>from_map.
          seq (for_each (\<lambda>a. modify r (addresses_update (add_front a))) (from_pod @ from_map))
         (seq (assign_api_host E r)
              (gets (\<lambda>s. api_host (store s r) \<noteq> None))))))"

definition native_and_live :: "'w env \<Rightarrow> ref \<Rightarrow> ref \<Rightarrow> ('w, json option) prog" where
  "native_and_live E control r =
     catch net_exn
       (bind (host_of r) (\<lambda>h.
        bind (api E ''GET'' h ''/storage_service/native_transport'' [] 30) (\<lambda>native.
        if native \<noteq> JBool True then ret None
        else bind (host_of control) (\<lambda>hc.
             bind (api E ''GET'' hc ''/gossiper/endpoint/live'' [] 30) (\<lambda>live. ret (Some live))))))
       (\<lambda>_. ret None)"

definition node_back_up :: "'w env \<Rightarrow> ref \<Rightarrow> ref \<Rightarrow> k8s \<Rightarrow> ('w, bool) prog" where
  "node_back_up E control r k =
     bind (refresh_api_host E r control k) (\<lambda>found.
     if \<not> found then ret False
     else bind (native_and_live E control r) (\<lambda>live.
          case live of
            None \<Rightarrow> ret False
          | Some live \<Rightarrow> bind (host_of r) (\<lambda>h. lift (jcontains live h))))"

subsection \<open>Checking, then restarting\<close>

definition check_restart_capability :: "'w env \<Rightarrow> ref list \<Rightarrow> opts \<Rightarrow> k8s \<Rightarrow> ('w, unit) prog" where
  "check_restart_capability E refs opts k =
     (if restart opts \<noteq> ''k8s'' then ret ()
      else if \<not> available k then fatal No_service_account
      else bind (gets (\<lambda>s. map (\<lambda>r. label r (store s r)) (filter (\<lambda>r. \<not> given (pod (store s r))) refs))) (\<lambda>missing.
           if missing \<noteq> [] then fatal (Unmatched_pods missing)
           else bind (can_delete_pods E k) (\<lambda>may.
                if \<not> may then fatal (May_not_delete_pods (namespace k)) else ret ())))"

definition drain_node :: "'w env \<Rightarrow> ref \<Rightarrow> int \<Rightarrow> ('w, unit) prog" where
  "drain_node E r timeout =
     catch net_exn
       (bind (host_of r) (\<lambda>h. bind (api E ''POST'' h drain_path [] timeout) (\<lambda>_. ret ())))
       (\<lambda>_. ret ())"

definition delete_pod_of :: "'w env \<Rightarrow> k8s \<Rightarrow> ref \<Rightarrow> ('w, unit) prog" where
  "delete_pod_of E k r = bind (gets (\<lambda>s. pod (store s r))) (\<lambda>p. delete_pod E k (text_of p))"

definition gone_down :: "'w env \<Rightarrow> ref \<Rightarrow> ('w, bool) prog" where
  "gone_down E r = bind (host_of r) (\<lambda>h. bind (api_alive E h) (\<lambda>up. ret (\<not> up)))"

definition restart_node :: "'w env \<Rightarrow> ref \<Rightarrow> ref \<Rightarrow> opts \<Rightarrow> k8s \<Rightarrow> ('w, unit) prog" where
  "restart_node E r control opts k =
     seq (drain_node E r (node_timeout opts))
    (seq (if restart opts = ''k8s'' then delete_pod_of E k r else ret ())
    (bind (wait_for E (gone_down E r) DOWN_TIMEOUT 5) (\<lambda>down.
     if \<not> down then bind (gets (\<lambda>s. label r (store s r))) (\<lambda>l. fatal (Never_went_down l))
     else bind (wait_for E (node_back_up E control r k) (node_timeout opts) 10) (\<lambda>up.
          if \<not> up then bind (gets (\<lambda>s. label r (store s r))) (\<lambda>l. fatal (Not_back_in_time l (node_timeout opts)))
          else ret ()))))"

subsection \<open>The contract\<close>

context node_reading
begin

lemma obeys_own_api_alive [intro!]: "obeys \<Phi> (own_api_alive E r)"
  unfolding own_api_alive_def by auto

lemma obeys_refresh_api_host: "r \<in> R \<Longrightarrow> obeys \<Phi> (refresh_api_host E r c k)"
  unfolding refresh_api_host_def pod_candidate_def map_candidates_def
  by (auto intro!: obeys_bind obeys_seq obeys_for_each assigning addressing)

lemma obeys_node_back_up: "r \<in> R \<Longrightarrow> obeys \<Phi> (node_back_up E c r k)"
  unfolding node_back_up_def native_and_live_def
  by (auto intro!: obeys_bind obeys_refresh_api_host split: option.split)

lemma obeys_gone_down [intro!]: "obeys \<Phi> (gone_down E r)"
  unfolding gone_down_def by auto

lemma obeys_check_restart_capability [intro!]: "obeys \<Phi> (check_restart_capability E refs opts k)"
  unfolding check_restart_capability_def by auto

end

text \<open>What restarting a node of \<open>R\<close> needs beyond reading.\<close>

locale restarting = node_reading \<Phi> E R for \<Phi> :: "'w effect" and E :: "'w env" and R :: "ref set" +
  fixes k :: k8s
  assumes draining: "r \<in> R \<Longrightarrow> obeys \<Phi> (drain_node E r tm)"
    and deleting: "r \<in> R \<Longrightarrow> obeys \<Phi> (delete_pod_of E k r)"
begin

lemma obeys_restart_node: "r \<in> R \<Longrightarrow> obeys \<Phi> (restart_node E r c opts k)"
  unfolding restart_node_def by (auto intro!: obeys_seq obeys_bind draining deleting obeys_node_back_up)

end

interpretation steady_restarting: restarting steady E R k for E R k
  by unfold_locales
    (auto simp: drain_node_def delete_pod_of_def delete_pod_def k8s_request_def api_def
      intro!: steady_perform split: sum.split)

end
