(* ===== verification/Identity.thy ===== *)
theory Identity
  imports Restart
begin

text \<open>
  Which node a request reaches. An address is confirmed for a node once a request to it has returned
  that node's host ID. The invariant of the whole tool is that every \<open>api_host\<close> a node object holds is
  confirmed, so that storage modes are set and drains are sent only to addresses that have said they
  are the node meant, and the pod deleted is the pod of that node.
\<close>

definition confirmed :: "int \<Rightarrow> ref \<Rightarrow> string \<Rightarrow> trace \<Rightarrow> bool" where
  "confirmed port r h t \<longleftrightarrow>
     (\<exists>a. (Rest ''GET'' h port hostid_path [] 5, a) \<in> set t \<and>
          api_result ''GET'' hostid_path a = Inr (JStr r))"

definition api_hosts_confirmed :: "trace \<Rightarrow> 'w st \<Rightarrow> bool" where
  "api_hosts_confirmed t s \<longleftrightarrow>
     (\<forall>r h. api_host (store s r) = Some h \<longrightarrow> confirmed (api_port s) r h t)"

lemma confirmed_mono: "confirmed port r h t \<Longrightarrow> set t \<subseteq> set t' \<Longrightarrow> confirmed port r h t'"
  unfolding confirmed_def by blast

lemma confirmed_append [simp]:
  "confirmed port r h (t @ t') \<longleftrightarrow> confirmed port r h t \<or> confirmed port r h t'"
  by (auto simp: confirmed_def)

subsection \<open>Resolving confirms\<close>

lemma api_port_store: "api E m h path ps tm s = (t, s', r) \<Longrightarrow> store s' = store s \<and> api_port s' = api_port s"
  unfolding api_def bind_gets by (auto elim!: bindE dest: perform_store split: sum.splits if_splits)

text \<open>Resolving only reads: it leaves nodes and port alone.\<close>

lemma resolve_among_store:
  "resolve_among E r as s = (t, s', x) \<Longrightarrow> store s' = store s \<and> api_port s' = api_port s"
proof (induction as arbitrary: s t)
  case Nil
  then show ?case by simp
next
  case (Cons a as)
  then show ?case
    by (fastforce elim!: bindE catchE dest: api_port_store split: if_splits)
qed

lemma resolve_among_Some:
  assumes "resolve_among E r as s = (t, s', Inr (Some h))"
  shows "h \<in> set as \<and> confirmed (api_port s) r h t"
  using assms
proof (induction as arbitrary: s t)
  case Nil
  then show ?case by simp
next
  case (Cons a as)
  let ?ask = "catch net_exn (bind (api E ''GET'' a hostid_path [] 5) (\<lambda>j. ret (j = JStr r))) (\<lambda>_. ret False)"
  from Cons.prems obtain t1 s1 found t2 where ask: "?ask s = (t1, s1, Inr found)"
    and rest: "(if found then ret (Some a) else resolve_among E r as) s1 = (t2, s', Inr (Some h))"
    and t: "t = t1 @ t2"
    by (auto simp: bind_Inr_iff)
  from ask have port: "api_port s1 = api_port s"
    by (auto elim!: catchE bindE dest: api_port_store)
  show ?case
  proof (cases found)
    case True
    with ask have "confirmed (api_port s) r a t1"
      by (auto simp: bind_Inr_iff confirmed_def elim!: catchE api_Inr)
    with True rest t show ?thesis by (auto intro: confirmed_mono)
  next
    case False
    with rest have "h \<in> set as \<and> confirmed (api_port s1) r h t2"
      using Cons.IH [of s1 t2] by simp
    with port t confirmed_mono [of "api_port s" r h t2 t] show ?thesis by simp
  qed
qed

text \<open>Assigning a resolved address changes that node's \<open>api_host\<close> and nothing else.\<close>

lemma assign_api_host_store:
  assumes "assign_api_host E r s = (t, s', x)"
  shows "api_port s' = api_port s \<and>
    (store s' = store s \<or>
     (\<exists>h. store s' = (store s)(r := store s r\<lparr>api_host := h\<rparr>) \<and>
          (\<forall>a. h = Some a \<longrightarrow> a \<in> set (addresses (store s r)) \<and> confirmed (api_port s) r a t)))"
  using assms unfolding assign_api_host_def
proof (cases rule: bindE)
  case (stopped e)
  then show ?thesis by (auto simp: resolve_api_host_def bind_gets dest: resolve_among_store)
next
  case (went_on t1 s1 h t2)
  then have run: "resolve_among E r (addresses (store s r)) s = (t1, s1, Inr h)"
    by (simp add: resolve_api_host_def bind_gets)
  from went_on(2,3) have "s' = s1\<lparr>store := (store s1)(r := store s1 r\<lparr>api_host := h\<rparr>)\<rparr>" "t = t1"
    by (auto simp: modify_def)
  with resolve_among_store [OF run] resolve_among_Some [of E r _ s t1 s1] run show ?thesis
    by (cases h) auto
qed

subsection \<open>The invariant as a contract\<close>

text \<open>
  \<open>identifying\<close>: an \<open>api_host\<close> a node has after the run is the one it had before, or one the run has
  confirmed. So a run keeps every \<open>api_host\<close> confirmed, whatever was confirmed before it.
\<close>

definition identifying :: "'w effect" where
  "identifying s t s' x \<longleftrightarrow>
     api_port s' = api_port s \<and>
     (\<forall>r h. api_host (store s' r) = Some h \<longrightarrow>
        api_host (store s r) = Some h \<or> confirmed (api_port s) r h t)"

lemma identifying_hosts_confirmed:
  assumes "identifying s t s' x" and "api_hosts_confirmed t0 s"
  shows "api_hosts_confirmed (t0 @ t) s'"
  unfolding api_hosts_confirmed_def
proof (intro allI impI)
  fix r h
  assume "api_host (store s' r) = Some h"
  with assms(1) have "api_host (store s r) = Some h \<or> confirmed (api_port s) r h t"
    by (simp add: identifying_def)
  with assms show "confirmed (api_port s') r h (t0 @ t)"
    by (auto simp: identifying_def api_hosts_confirmed_def)
qed

interpretation identifying: contract identifying
proof unfold_locales
  fix s s1 s2 :: "'a st" and t t' x y
  assume 1: "identifying s t s1 x" and 2: "identifying s1 t' s2 y"
  from 1 have port: "api_port s1 = api_port s" by (simp add: identifying_def)
  show "identifying s (t @ t') s2 y"
    unfolding identifying_def
  proof (intro conjI allI impI)
    from 2 port show "api_port s2 = api_port s" by (simp add: identifying_def)
  next
    fix r h
    assume "api_host (store s2 r) = Some h"
    with 2 port have "api_host (store s1 r) = Some h \<or> confirmed (api_port s) r h t'"
      by (simp add: identifying_def)
    with 1 show "api_host (store s r) = Some h \<or> confirmed (api_port s) r h (t @ t')"
      by (auto simp: identifying_def)
  qed
qed (auto simp: identifying_def)

lemma identifying_perform: "obeys identifying (perform E c)"
  by (auto simp: obeys_def identifying_def dest!: perform_store)

lemma identifying_assign: "obeys identifying (assign_api_host E r)"
proof (rule obeysI)
  fix s t s' x
  assume "assign_api_host E r s = (t, s', x)"
  from assign_api_host_store [OF this] show "identifying s t s' (stopped x)"
    unfolding identifying_def by (auto split: if_splits)
qed

lemma identifying_modify:
  "(\<And>n. api_host (f n) = api_host n \<or> api_host (f n) = None) \<Longrightarrow> obeys identifying (modify r f)"
  by (auto simp: obeys_def identifying_def modify_def) (metis option.distinct(1))

interpretation identifying_discovering: discovering identifying E for E
  by unfold_locales
    (simp_all add: identifying_perform identifying_assign identifying_modify node_of_host_def)

interpretation identifying_restarting: restarting identifying E R k for E R k
  by unfold_locales
    (auto simp: identifying_assign identifying_modify drain_node_def delete_pod_of_def delete_pod_def
      k8s_request_def api_def host_of_def
      intro!: identifying_perform identifying.obeys_bind identifying.obeys_catch split: sum.split)

subsection \<open>The nodes a run touches\<close>

text \<open>\<open>touches R\<close>: only the objects of nodes in \<open>R\<close> change, and no pod name does.\<close>

definition touches :: "ref set \<Rightarrow> 'w effect" where
  "touches R s t s' x \<longleftrightarrow>
     api_port s' = api_port s \<and>
     (\<forall>r. r \<notin> R \<longrightarrow> store s' r = store s r) \<and> (\<forall>r. pod (store s' r) = pod (store s r))"

interpretation touching: contract "touches R" for R
  by unfold_locales (auto simp: touches_def)

lemma touches_perform: "obeys (touches R) (perform E c)"
  by (auto simp: obeys_def touches_def dest!: perform_store)

lemma touches_assign: "r \<in> R \<Longrightarrow> obeys (touches R) (assign_api_host E r)"
  by (auto simp: obeys_def touches_def dest!: assign_api_host_store)

lemma touches_modify: "r \<in> R \<Longrightarrow> (\<And>n. pod (f n) = pod n) \<Longrightarrow> obeys (touches R) (modify r f)"
  by (auto simp: obeys_def touches_def modify_def)

interpretation touching_restarting: restarting "touches R" E R k for E R k
  by unfold_locales
    (auto simp: touches_assign touches_modify drain_node_def delete_pod_of_def delete_pod_def
      k8s_request_def api_def host_of_def
      intro!: touches_perform touching.obeys_bind touching.obeys_catch split: sum.split)

end
