(* ===== verification/Preflight.thy ===== *)
theory Preflight
  imports Restart Bytes
begin

text \<open>
  The checks before a migration starts: \<open>decode_extension\<close>, \<open>scylla_version\<close>,
  \<open>counter_migration_supported\<close>, \<open>rack_list_enforced\<close>, \<open>check_cluster_up\<close> and \<open>preflight\<close> of
  \<open>sample_app/convert_to_tablets.py\<close>. What \<open>preflight\<close> prints is the list of findings it returns
  beside its verdict, one per message, in the order the code prints them. The driver's schema metadata
  is an argument.
\<close>

subsection \<open>Schema extensions\<close>

text \<open>
  The loop of \<open>decode_extension\<close>. No step of it can raise: a slice beyond the end is empty, and no
  bytes make the integer 0.
\<close>

fun read_strings :: "nat \<Rightarrow> byte list \<Rightarrow> nat \<Rightarrow> string list" where
  "read_strings 0 blob offset = []"
| "read_strings (Suc n) blob offset =
     (let size = from_le (slice blob offset (offset + 4)); start = offset + 4
      in decode_replace (slice blob start (start + size)) # read_strings n blob (start + size))"

text \<open>\<open>xs[0::2]\<close>\<close>

fun every_second :: "'a list \<Rightarrow> 'a list" where
  "every_second [] = []"
| "every_second [x] = [x]"
| "every_second (x # y # xs) = x # every_second xs"

definition decode_extension :: "byte list \<Rightarrow> (string \<times> string) list" where
  "decode_extension blob =
     (let count = from_le (slice blob 0 4); values = read_strings (count * 2) blob 4
      in dict_of (zip (every_second values) (every_second (drop 1 values))))"

subsection \<open>Version and configuration\<close>

text \<open>A release, ordered by major and then minor number.\<close>

datatype version = Version (major: int) (minor: int)

instantiation version :: linorder
begin

definition less_version :: "version \<Rightarrow> version \<Rightarrow> bool" where
  "less_version v w \<longleftrightarrow> major v < major w \<or> (major v = major w \<and> minor v < minor w)"

definition less_eq_version :: "version \<Rightarrow> version \<Rightarrow> bool" where
  "less_eq_version v w \<longleftrightarrow> major v < major w \<or> (major v = major w \<and> minor v \<le> minor w)"

instance
  by standard (auto simp: less_version_def less_eq_version_def intro: version.expand)

end

text \<open>
  \<open>str(version).split(".")\<close> and the two \<open>int\<close>s. Of the decoded values other than strings and
  numbers, none prints as text whose first part is an integer.
\<close>

definition parse_version :: "json \<Rightarrow> version option" where
  "parse_version v =
     (case (case v of JStr s \<Rightarrow> Some s | JNum i \<Rightarrow> Some (dec_int i) | _ \<Rightarrow> None) of
        None \<Rightarrow> None
      | Some text \<Rightarrow>
          (case split_on (CHR ''.'') text of
             a # b # _ \<Rightarrow>
               (case (py_int a, py_int b) of
                  (Some x, Some y) \<Rightarrow> Some (Version x y)
                | _ \<Rightarrow> None)
           | _ \<Rightarrow> None))"

definition scylla_version :: "'w env \<Rightarrow> ref \<Rightarrow> ('w, version option) prog" where
  "scylla_version E r =
     bind (catch net_exn
             (bind (host_of r) (\<lambda>h.
              bind (api E ''GET'' h ''/storage_service/scylla_release_version'' [] 30) (\<lambda>v. ret (Some v))))
             (\<lambda>_. ret None)) (\<lambda>v.
     ret (case v of None \<Rightarrow> None | Some v \<Rightarrow> parse_version v))"

definition counters_migrate :: "version option \<Rightarrow> bool" where
  "counters_migrate version =
     (case version of
        None \<Rightarrow> False
      | Some v \<Rightarrow> major v > 2026 \<or> (major v = 2026 \<and> minor v \<ge> 3))"

definition counter_migration_supported :: "'w env \<Rightarrow> ref \<Rightarrow> ('w, bool) prog" where
  "counter_migration_supported E control =
     bind (scylla_version E control) (\<lambda>v. ret (counters_migrate v))"

text \<open>
  \<open>str(value).strip('" ').lower() != "false"\<close>: only a string can print so, since a decoded false is
  handled before.
\<close>

definition quote_or_space :: "char \<Rightarrow> bool" where
  "quote_or_space c \<longleftrightarrow> c = CHR 0x22 \<or> c = CHR '' ''"

definition enforced_value :: "json \<Rightarrow> bool" where
  "enforced_value v =
     (case v of
        JBool b \<Rightarrow> b
      | JStr s \<Rightarrow> lower (strip_by quote_or_space s) \<noteq> ''false''
      | _ \<Rightarrow> True)"

definition rack_list_enforced :: "'w env \<Rightarrow> ref \<Rightarrow> ('w, bool) prog" where
  "rack_list_enforced E control =
     catch net_exn
       (bind (host_of control) (\<lambda>h.
        bind (api E ''GET'' h ''/v2/config/enforce_rack_list'' [] 30) (\<lambda>v. ret (enforced_value v))))
       (\<lambda>_. ret True)"

subsection \<open>The cluster is up\<close>

definition cluster_view :: "'w env \<Rightarrow> ref \<Rightarrow> ('w, json \<times> json \<times> json list) prog" where
  "cluster_view E control =
     bind (host_of control) (\<lambda>h.
     bind (api E ''GET'' h ''/gossiper/endpoint/down'' [] 30) (\<lambda>down.
     bind (api E ''GET'' h ''/gossiper/endpoint/live'' [] 30) (\<lambda>live.
     bind (map_m (\<lambda>what.
             bind (api E ''GET'' h (''/storage_service/nodes/'' @ what) [] 30) (\<lambda>body.
             lift (jiter (or_else body (JArr [])))))
           [''joining'', ''leaving'', ''moving'']) (\<lambda>moving.
     ret (down, live, concat moving)))))"

text \<open>The verdict on the view; \<open>join\<close> of the down nodes and \<open>len\<close> of the live ones can raise.\<close>

definition cluster_verdict :: "nat \<Rightarrow> json \<times> json \<times> json list \<Rightarrow> bool py" where
  "cluster_verdict n view =
     (case view of (down, live, transient) \<Rightarrow>
        ebind (if truthy down then ebind (jiter down) (emap jtext) else Inr []) (\<lambda>_.
        ebind (jlen live) (\<lambda>up.
        Inr (\<not> truthy down \<and> up = n \<and> transient = []))))"

definition check_cluster_up :: "'w env \<Rightarrow> ref \<Rightarrow> ref list \<Rightarrow> ('w, bool) prog" where
  "check_cluster_up E control refs =
     bind (catch net_exn
             (bind (cluster_view E control) (\<lambda>view. ret (Some view)))
             (\<lambda>_. ret None)) (\<lambda>view.
     case view of None \<Rightarrow> ret False | Some view \<Rightarrow> lift (cluster_verdict (length refs) view))"

subsection \<open>The schema of one keyspace\<close>

text \<open>The driver's metadata: what \<open>preflight\<close> reads of a table and a keyspace.\<close>

record table_meta =
  indexes :: "string list"
  columns :: "(string \<times> string) list"
  compaction :: "(string \<times> string) list option"
  extensions :: "(string \<times> byte list) list option"

record ks_meta =
  tables :: "(string \<times> table_meta) list"
  views :: "string list"

record cluster_meta =
  ks_metas :: "(string \<times> ks_meta) list"

datatype finding =
    Alternator_keyspace
  | No_such_keyspace
  | Not_network_topology "(string \<times> string) list"
  | Rf_not_racks string string nat
  | Rf_not_racks_warning string string nat
  | Views_and_indexes "string list"
  | Counters_migrate "string list"
  | Counters_blocked "string list"
  | No_tables
  | Cdc_tables "string list"
  | Not_incremental "string list"
  | Tombstone_gc_not_repair "string list"

definition racks_in :: "'w st \<Rightarrow> ref list \<Rightarrow> string \<Rightarrow> nat" where
  "racks_in s refs d = card (rack ` store s ` {r \<in> set refs. dc (store s r) = d})"

definition class_of :: "(string \<times> string) list \<Rightarrow> string" where
  "class_of options = (case map_of options ''class'' of None \<Rightarrow> [] | Some c \<Rightarrow> c)"

definition rf_findings :: "(string \<Rightarrow> nat) \<Rightarrow> bool \<Rightarrow> (string \<times> string) list \<Rightarrow> finding list" where
  "rf_findings racks enforced replication =
     concat (map (\<lambda>(d, rf).
       if rf = dec (racks d) then []
       else if enforced then [Rf_not_racks d rf (racks d)]
       else [Rf_not_racks_warning d rf (racks d)]) replication)"

definition replication_findings ::
    "(string \<Rightarrow> nat) \<Rightarrow> bool \<Rightarrow> (string \<times> string) list option \<Rightarrow> finding list" where
  "replication_findings racks enforced row =
     (let replication = (case row of None \<Rightarrow> [] | Some r \<Rightarrow> r);
          rest = filter (\<lambda>(k, v). k \<noteq> ''class'') replication
      in if \<not> contains (class_of replication) ''NetworkTopologyStrategy''
         then [Not_network_topology rest]
         else rf_findings racks enforced rest)"

definition view_findings :: "ks_meta \<Rightarrow> finding list" where
  "view_findings meta =
     (let idx = sort (concat (map (\<lambda>(name, table). indexes table) (tables meta)));
          backing = map (\<lambda>i. i @ ''_index'') idx;
          vs = sort (filter (\<lambda>v. v \<notin> set backing) (views meta))
      in if vs \<noteq> [] \<or> idx \<noteq> [] then [Views_and_indexes (vs @ idx)] else [])"

definition is_counter_table :: "table_meta \<Rightarrow> bool" where
  "is_counter_table table \<longleftrightarrow> (\<exists>(c, cql_type) \<in> set (columns table). cql_type = ''counter'')"

definition counter_findings :: "bool \<Rightarrow> ks_meta \<Rightarrow> finding list" where
  "counter_findings counters_ok meta =
     (let counters = sort (map fst (filter (\<lambda>(name, table). is_counter_table table) (tables meta)))
      in if counters = [] then []
         else if counters_ok then [Counters_migrate counters] else [Counters_blocked counters])"

definition cdc_findings :: "ks_meta \<Rightarrow> finding list" where
  "cdc_findings meta =
     (let cdc = sort (filter (\<lambda>name. ends_with name ''_scylla_cdc_log'') (map fst (tables meta)))
      in if cdc = [] then [] else [Cdc_tables cdc])"

definition is_incremental :: "table_meta \<Rightarrow> bool" where
  "is_incremental table \<longleftrightarrow>
     contains (class_of (case compaction table of None \<Rightarrow> [] | Some c \<Rightarrow> c)) ''IncrementalCompactionStrategy''"

definition gc_is_repair :: "table_meta \<Rightarrow> bool" where
  "gc_is_repair table \<longleftrightarrow>
     (let exts = (case extensions table of None \<Rightarrow> [] | Some e \<Rightarrow> e);
          blob = (case map_of exts ''tombstone_gc'' of None \<Rightarrow> [] | Some b \<Rightarrow> b)
      in map_of (decode_extension blob) ''mode'' = Some ''repair'')"

definition table_findings :: "ks_meta \<Rightarrow> finding list" where
  "table_findings meta =
     (let non_ics = sort (map fst (filter (\<lambda>(name, table). \<not> is_incremental table) (tables meta)));
          no_repair = sort (map fst (filter (\<lambda>(name, table). \<not> gc_is_repair table) (tables meta)))
      in (if non_ics = [] then [] else [Not_incremental non_ics]) @
         (if no_repair = [] then [] else [Tombstone_gc_not_repair no_repair]))"

text \<open>Whether a finding sets \<open>ok = False\<close> (or returns False at once).\<close>

fun blocks :: "finding \<Rightarrow> bool" where
  "blocks (Rf_not_racks_warning _ _ _) = False"
| "blocks (Views_and_indexes _) = False"
| "blocks (Counters_migrate _) = False"
| "blocks (Tombstone_gc_not_repair _) = False"
| "blocks _ = True"

definition prevents :: "finding list \<Rightarrow> bool" where
  "prevents fs \<longleftrightarrow> (\<exists>f \<in> set fs. blocks f)"

lemma prevents_simps [simp]:
  "prevents [] = False" "prevents (f # fs) \<longleftrightarrow> blocks f \<or> prevents fs"
  "prevents (fs @ gs) \<longleftrightarrow> prevents fs \<or> prevents gs"
  by (auto simp: prevents_def)

definition schema_findings ::
    "(string \<Rightarrow> nat) \<Rightarrow> (string \<times> string) list option \<Rightarrow> ks_meta \<Rightarrow> bool \<Rightarrow> bool \<Rightarrow> finding list" where
  "schema_findings racks row meta counters_ok enforced =
     replication_findings racks enforced row @ view_findings meta @ counter_findings counters_ok meta @
     (if tables meta = [] then [No_tables] else cdc_findings meta @ table_findings meta)"

definition cql_replication :: "'w env \<Rightarrow> string \<Rightarrow> ('w, (string \<times> string) list option) prog" where
  "cql_replication E ks =
     bind (perform E (Cql_replication ks)) (\<lambda>a.
     case a of Row row \<Rightarrow> ret row | _ \<Rightarrow> raise DriverError)"

definition preflight_findings ::
    "'w env \<Rightarrow> cluster_meta \<Rightarrow> ref list \<Rightarrow> string \<Rightarrow> bool \<Rightarrow> bool \<Rightarrow> ('w, finding list) prog" where
  "preflight_findings E meta refs ks counters_ok enforced =
     (if starts_with ks ''alternator_'' then ret [Alternator_keyspace]
      else case map_of (ks_metas meta) ks of
             None \<Rightarrow> ret [No_such_keyspace]
           | Some m \<Rightarrow>
               bind (cql_replication E ks) (\<lambda>row.
               bind (gets (\<lambda>s. racks_in s refs)) (\<lambda>racks.
               ret (schema_findings racks row m counters_ok enforced))))"

definition preflight ::
    "'w env \<Rightarrow> cluster_meta \<Rightarrow> ref list \<Rightarrow> string \<Rightarrow> bool \<Rightarrow> bool \<Rightarrow> ('w, bool) prog" where
  "preflight E meta refs ks counters_ok enforced =
     bind (preflight_findings E meta refs ks counters_ok enforced) (\<lambda>fs.
     ret (\<not> prevents fs))"

subsection \<open>The contract\<close>

locale preflighting = node_reading \<Phi> E R for \<Phi> :: "'w effect" and E :: "'w env" and R :: "ref set" +
  assumes cql: "obeys \<Phi> (perform E (Cql_replication ks))"
begin

lemma obeys_counter_migration_supported [intro!]: "obeys \<Phi> (counter_migration_supported E c)"
  unfolding counter_migration_supported_def scylla_version_def by auto

lemma obeys_rack_list_enforced [intro!]: "obeys \<Phi> (rack_list_enforced E c)"
  unfolding rack_list_enforced_def by auto

lemma obeys_check_cluster_up [intro!]: "obeys \<Phi> (check_cluster_up E c refs)"
  unfolding check_cluster_up_def cluster_view_def by (auto intro!: obeys_bind split: option.split)

lemma obeys_preflight [intro!]: "obeys \<Phi> (preflight E meta refs ks ok enf)"
  unfolding preflight_def preflight_findings_def cql_replication_def
  by (auto intro!: obeys_bind cql split: option.split answer.split)

end

interpretation steady_preflighting: preflighting steady E R for E R
  by unfold_locales (rule steady_perform)

interpretation quiet_preflighting: preflighting "calls_in read_only" E R for E R
  by unfold_locales (simp add: calls_in_perform)

end
