(* ===== verification/Phases.thy ===== *)
theory Phases
  imports Identity Preflight
begin

text \<open>
  The phases of a migration and of its rollback: \<open>print_status\<close>, \<open>confirm\<close>, \<open>rollback\<close> and
  \<open>migrate\<close> of \<open>sample_app/convert_to_tablets.py\<close>. The two long functions are split where the code
  has its own headings: \<open>migrate\<close> into preflight, consent, preparation, upgrade and finalization, each
  loop body a definition; \<open>rollback\<close> into its check, the loop over the nodes and the finalization.
\<close>

subsection \<open>print_status\<close>

text \<open>The lines \<open>print_status\<close> prints, one constructor per \<open>print\<close> with the values it shows.\<close>

datatype status_line =
    Unreadable string api_error
  | Keyspace_line string json
  | Node_line string phrase
  | Outside_line json phrase
  | Layout_line json json json
  | Converging_line json json json

text \<open>
  \<open>sorted\<close> of dictionary keys taken from JSON. Python orders strings among each other and numbers among
  each other; comparing across these, or with None, is a TypeError.
\<close>

fun str_key :: "json \<Rightarrow> string option" where
  "str_key (JStr s) = Some s"
| "str_key _ = None"

fun num_key :: "json \<Rightarrow> int option" where
  "num_key (JNum i) = Some i"
| "num_key (JBool b) = Some (if b then 1 else 0)"
| "num_key _ = None"

definition sorted_keys :: "json list \<Rightarrow> json list py" where
  "sorted_keys ks =
     (if length ks \<le> 1 then Inr ks
      else if \<forall>k \<in> set ks. str_key k \<noteq> None then Inr (sort_key (\<lambda>k. the (str_key k)) ks)
      else if \<forall>k \<in> set ks. num_key k \<noteq> None then Inr (sort_key (\<lambda>k. the (num_key k)) ks)
      else Inl TypeError)"

definition converging_lines :: "json \<Rightarrow> status_line list py" where
  "converging_lines table =
     ebind (jget table ''converging'') (\<lambda>c.
     if truthy c then
       ebind (jget table ''table'') (\<lambda>name.
       ebind (jget table ''current_tablet_count'') (\<lambda>current.
       ebind (jget table ''target_pow2_tablet_count'') (\<lambda>target.
       Inr [Converging_line name current target])))
     else Inr [])"

definition layout_lines :: "json \<Rightarrow> status_line list py" where
  "layout_lines status =
     ebind (jget status ''tablets'') (\<lambda>tablets.
     ebind (jget (or_else tablets (JObj [])) ''pow2_convergence'') (\<lambda>p.
     let pow2 = or_else p (JObj []) in
     if truthy pow2 then
       ebind (jget pow2 ''status'') (\<lambda>st.
       ebind (jget pow2 ''tables_converging'') (\<lambda>n.
       ebind (jget pow2 ''tables_total'') (\<lambda>total.
       ebind (jget pow2 ''tables'') (\<lambda>tables.
       ebind (jiter (or_else tables (JArr []))) (\<lambda>tables.
       ebind (emap converging_lines tables) (\<lambda>ls.
       Inr (Layout_line st n total # concat ls)))))))
     else Inr []))"

definition status_lines :: "(ref \<times> string) list \<Rightarrow> string \<Rightarrow> json \<Rightarrow> status_line list py" where
  "status_lines labels ks status =
     ebind (jget status ''status'') (\<lambda>ks_mode.
     ebind (modes_in status) (\<lambda>modes.
     ebind (sorted_keys (filter (\<lambda>h. h \<notin> JStr ` fst ` set labels) (map fst modes))) (\<lambda>outside.
     ebind (layout_lines status) (\<lambda>layout.
     Inr ([Keyspace_line ks ks_mode] @
          map (\<lambda>(r, l). Node_line l (node_phrase modes r ks_mode)) labels @
          map (\<lambda>h. Outside_line h (case map_of modes h of
                 None \<Rightarrow> Unknown
               | Some (current, intended) \<Rightarrow>
                   (if \<not> truthy current \<or> \<not> truthy intended then Unknown
                    else if current = intended then Uses current else Migrating_to intended))) outside @
          layout)))))"

definition status_of_keyspace ::
    "'w env \<Rightarrow> ref \<Rightarrow> ref list \<Rightarrow> string \<Rightarrow> ('w, status_line list) prog" where
  "status_of_keyspace E control refs ks =
     bind (catch api_exn
             (bind (ks_status E control ks (Some ''tablet_status'')) (\<lambda>status. ret (Inr status)))
             (\<lambda>e. ret (Inl e))) (\<lambda>read.
     case read of
       Inl e \<Rightarrow> ret (case e of ApiError x \<Rightarrow> [Unreadable ks x] | _ \<Rightarrow> [])
     | Inr status \<Rightarrow>
         bind (gets (\<lambda>s. map (\<lambda>r. (r, label r (store s r))) refs)) (\<lambda>labels.
         lift (status_lines labels ks status)))"

definition print_status ::
    "'w env \<Rightarrow> ref \<Rightarrow> ref list \<Rightarrow> string list \<Rightarrow> ('w, status_line list) prog" where
  "print_status E control refs kss =
     bind (map_m (status_of_keyspace E control refs) kss) (\<lambda>ls. ret (concat ls))"

subsection \<open>confirm\<close>

text \<open>An answer of \<open>input\<close> that is no line is the end of the input, an EOFError.\<close>

definition says_yes :: "string \<Rightarrow> bool" where
  "says_yes line \<longleftrightarrow> lower (strip line) \<in> {''y'', ''yes''}"

definition confirm :: "'w env \<Rightarrow> bool \<Rightarrow> ('w, bool) prog" where
  "confirm E agreed =
     (if agreed then ret True
      else bind (gets tty) (\<lambda>terminal.
           if \<not> terminal then fatal No_terminal
           else bind (perform E Ask) (\<lambda>a.
                case a of Line line \<Rightarrow> ret (says_yes line) | _ \<Rightarrow> raise (PyError EOFError))))"

text \<open>\<open>if not confirm(...): raise Fatal(...)\<close>\<close>

definition consent :: "'w env \<Rightarrow> opts \<Rightarrow> fatal \<Rightarrow> ('w, unit) prog" where
  "consent E opts f =
     bind (confirm E (assume_yes opts)) (\<lambda>yes. if \<not> yes then fatal f else ret ())"

subsection \<open>rollback\<close>

definition check_rollbackable :: "'w env \<Rightarrow> ref \<Rightarrow> string \<Rightarrow> ('w, unit) prog" where
  "check_rollbackable E control ks =
     bind (ks_state E control ks) (\<lambda>state.
     if state \<noteq> JStr ''migrating_to_tablets'' then fatal (Not_rollbackable ks state) else ret ())"

text \<open>The loop that computes \<open>needs_restart\<close>.\<close>

definition needs_restart :: "'w env \<Rightarrow> ref \<Rightarrow> ref \<Rightarrow> string list \<Rightarrow> ('w, bool) prog" where
  "needs_restart E peer r kss =
     fold_m (\<lambda>needs ks.
       bind (node_modes E peer ks) (\<lambda>(ks_mode, modes).
       ret (needs \<or> node_phrase modes r ks_mode = Migrating_to (JStr ''vnodes'')))) False kss"

definition rollback_node ::
    "'w env \<Rightarrow> ref \<Rightarrow> ref list \<Rightarrow> opts \<Rightarrow> k8s \<Rightarrow> ref \<Rightarrow> ('w, unit) prog" where
  "rollback_node E control refs opts k r =
     bind (pick_control E refs (Some r)) (\<lambda>other.
     let peer = (case other of None \<Rightarrow> control | Some p \<Rightarrow> p) in
     seq (set_storage_mode E r ''vnodes'')
    (bind (needs_restart E peer r (keyspaces opts)) (\<lambda>needs.
     seq (if needs then restart_node E r peer opts k else ret ())
    (bind (wait_node_mode E peer r (keyspaces opts) ''vnodes'' (state_timeout opts)) (\<lambda>back.
     if \<not> back then bind (gets (\<lambda>s. label r (store s r))) (\<lambda>l. fatal (Not_back_to_vnodes l))
     else ret ())))))"

text \<open>The finalization POST, the same call in both directions.\<close>

definition post_finalization :: "'w env \<Rightarrow> ref \<Rightarrow> opts \<Rightarrow> string \<Rightarrow> ('w, unit) prog" where
  "post_finalization E control opts ks =
     bind (host_of control) (\<lambda>h.
     bind (api E ''POST'' h (fin_path ks) [] (state_timeout opts)) (\<lambda>_. ret ()))"

definition finalize_rollback :: "'w env \<Rightarrow> ref \<Rightarrow> opts \<Rightarrow> string \<Rightarrow> ('w, unit) prog" where
  "finalize_rollback E control opts ks =
     seq (post_finalization E control opts ks)
    (bind (ks_state E control ks) (\<lambda>state.
     if state \<noteq> JStr ''vnodes'' then fatal (Rollback_not_vnodes ks state) else ret ()))"

definition rollback_gate ::
    "'w env \<Rightarrow> ref \<Rightarrow> ref list \<Rightarrow> opts \<Rightarrow> k8s \<Rightarrow> ('w, unit) prog" where
  "rollback_gate E control refs opts k =
     seq (for_each (check_rollbackable E control) (keyspaces opts))
    (seq (check_restart_capability E refs opts k)
         (consent E opts Aborted))"

definition rollback_finish ::
    "'w env \<Rightarrow> ref \<Rightarrow> ref list \<Rightarrow> opts \<Rightarrow> ('w, status_line list) prog" where
  "rollback_finish E control refs opts =
     bind (pick_control E refs None) (\<lambda>other.
     let control = (case other of None \<Rightarrow> control | Some c \<Rightarrow> c) in
     seq (for_each (finalize_rollback E control opts) (keyspaces opts))
         (print_status E control refs (keyspaces opts)))"

definition rollback ::
    "'w env \<Rightarrow> ref \<Rightarrow> ref list \<Rightarrow> opts \<Rightarrow> k8s \<Rightarrow> ('w, status_line list) prog" where
  "rollback E control refs opts k =
     seq (rollback_gate E control refs opts k)
    (seq (for_each (rollback_node E control refs opts k) refs)
         (rollback_finish E control refs opts))"

subsection \<open>migrate\<close>

text \<open>Phase 0. The body of the loop over the keyspaces; the accumulator is \<open>(blocked, to_prepare)\<close>.\<close>

definition read_state :: "'w env \<Rightarrow> ref \<Rightarrow> string \<Rightarrow> ('w, json) prog" where
  "read_state E control ks =
     catch api_exn (ks_state E control ks)
       (\<lambda>e. case e of ApiError x \<Rightarrow> fatal (Status_unreadable ks x) | _ \<Rightarrow> raise e)"

definition classify_keyspace ::
    "'w env \<Rightarrow> cluster_meta \<Rightarrow> ref \<Rightarrow> ref list \<Rightarrow> bool \<Rightarrow> bool \<Rightarrow>
     bool \<times> string list \<Rightarrow> string \<Rightarrow> ('w, bool \<times> string list) prog" where
  "classify_keyspace E meta control refs counters_ok enforced acc ks =
     (case acc of (blocked, to_prepare) \<Rightarrow>
        bind (read_state E control ks) (\<lambda>state.
        if state = JStr ''vnodes'' then
          bind (preflight E meta refs ks counters_ok enforced) (\<lambda>ok.
          ret (blocked \<or> \<not> ok, to_prepare @ [ks]))
        else if state = JStr ''migrating_to_tablets'' then ret (blocked, to_prepare)
        else if state = JStr ''tablets'' then fatal (Already_tablets ks)
        else fatal (Unexpected_state ks state)))"

definition preflight_phase ::
    "'w env \<Rightarrow> cluster_meta \<Rightarrow> ref \<Rightarrow> ref list \<Rightarrow> opts \<Rightarrow> k8s \<Rightarrow> ('w, string list) prog" where
  "preflight_phase E meta control refs opts k =
     bind (check_cluster_up E control refs) (\<lambda>up.
     if \<not> up \<and> \<not> force opts then fatal Cluster_not_up
     else
       seq (check_restart_capability E refs opts k)
      (bind (counter_migration_supported E control) (\<lambda>counters_ok.
       bind (rack_list_enforced E control) (\<lambda>enforced.
       bind (fold_m (classify_keyspace E meta control refs counters_ok enforced)
               (\<not> up, []) (keyspaces opts)) (\<lambda>(blocked, to_prepare).
       if blocked \<and> \<not> force opts then fatal Preflight_failed else ret to_prepare)))))"

text \<open>Phase 1.\<close>

definition start_migration :: "'w env \<Rightarrow> ref \<Rightarrow> opts \<Rightarrow> string \<Rightarrow> ('w, unit) prog" where
  "start_migration E control opts ks =
     catch api_exn
       (bind (host_of control) (\<lambda>h.
        bind (api E ''POST'' h (ks_path ks) [] (state_timeout opts)) (\<lambda>_. ret ())))
       (\<lambda>_. fatal (Could_not_start ks))"

definition prepare_keyspace :: "'w env \<Rightarrow> ref \<Rightarrow> opts \<Rightarrow> string \<Rightarrow> ('w, unit) prog" where
  "prepare_keyspace E control opts ks =
     seq (start_migration E control opts ks)
    (bind (ks_state E control ks) (\<lambda>state.
     if state \<noteq> JStr ''migrating_to_tablets'' then fatal (Not_migrating ks state) else ret ()))"

text \<open>Phase 2. \<open>on_tablets\<close> is the loop that computes \<open>done\<close>.\<close>

definition on_tablets :: "'w env \<Rightarrow> ref \<Rightarrow> ref \<Rightarrow> string list \<Rightarrow> ('w, bool) prog" where
  "on_tablets E peer r kss =
     fold_m (\<lambda>ok ks.
       bind (node_modes E peer ks) (\<lambda>(ks_mode, modes).
       ret (ok \<and> node_phrase modes r ks_mode = Uses (JStr ''tablets'')))) True kss"

definition upgrade_node :: "'w env \<Rightarrow> ref list \<Rightarrow> opts \<Rightarrow> k8s \<Rightarrow> ref \<Rightarrow> ('w, unit) prog" where
  "upgrade_node E refs opts k r =
     bind (pick_control E refs (Some r)) (\<lambda>other.
     case other of
       None \<Rightarrow> fatal No_other_node
     | Some peer \<Rightarrow>
         bind (on_tablets E peer r (keyspaces opts)) (\<lambda>ok.
         if ok then ret ()
         else
           seq (set_storage_mode E r ''tablets'')
          (seq (restart_node E r peer opts k)
          (bind (wait_node_mode E peer r (keyspaces opts) ''tablets'' (state_timeout opts)) (\<lambda>reached.
           if \<not> reached then bind (gets (\<lambda>s. label r (store s r))) (\<lambda>l. fatal (Not_on_tablets l))
           else ret ())))))"

definition upgrade_phase :: "'w env \<Rightarrow> ref list \<Rightarrow> opts \<Rightarrow> k8s \<Rightarrow> ('w, unit) prog" where
  "upgrade_phase E refs opts k = for_each (upgrade_node E refs opts k) refs"

text \<open>Phase 3.\<close>

definition finalize_keyspace :: "'w env \<Rightarrow> ref \<Rightarrow> opts \<Rightarrow> string \<Rightarrow> ('w, unit) prog" where
  "finalize_keyspace E control opts ks =
     seq (post_finalization E control opts ks)
    (bind (ks_state E control ks) (\<lambda>state.
     if state \<noteq> JStr ''tablets'' then fatal (Not_finalized ks state) else ret ()))"

definition finalize_phase ::
    "'w env \<Rightarrow> ref \<Rightarrow> ref list \<Rightarrow> opts \<Rightarrow> ('w, status_line list) prog" where
  "finalize_phase E control refs opts =
     seq (consent E opts Aborted_before_finalization)
    (bind (pick_control E refs None) (\<lambda>other.
     let control = (case other of None \<Rightarrow> control | Some c \<Rightarrow> c) in
     seq (for_each (finalize_keyspace E control opts) (keyspaces opts))
         (print_status E control refs (keyspaces opts))))"

definition migrate ::
    "'w env \<Rightarrow> cluster_meta \<Rightarrow> ref \<Rightarrow> ref list \<Rightarrow> opts \<Rightarrow> k8s \<Rightarrow> ('w, status_line list) prog" where
  "migrate E meta control refs opts k =
     bind (preflight_phase E meta control refs opts k) (\<lambda>to_prepare.
     seq (consent E opts Aborted)
    (seq (for_each (prepare_keyspace E control opts) to_prepare)
    (seq (upgrade_phase E refs opts k)
         (finalize_phase E control refs opts))))"

subsection \<open>The contracts\<close>

text \<open>
  Three contracts, each adding what the next group of phases needs: \<open>consulting\<close> for everything up to
  the operator's consent and for the status report, \<open>upgrading\<close> for the phases that change nodes of
  \<open>R\<close> and start keyspaces of \<open>K\<close>, \<open>converting\<close> for finalization.
\<close>

locale consulting = preflighting \<Phi> E R for \<Phi> :: "'w effect" and E :: "'w env" and R :: "ref set" +
  assumes asking: "obeys \<Phi> (perform E Ask)"
begin

lemma obeys_print_status [intro!]: "obeys \<Phi> (print_status E c refs kss)"
  unfolding print_status_def status_of_keyspace_def
  by (auto intro!: obeys_bind obeys_map_m obeys_catch split: sum.split)

lemma obeys_confirm [intro!]: "obeys \<Phi> (confirm E b)"
  unfolding confirm_def by (auto intro!: obeys_bind asking split: answer.split)

lemma obeys_consent [intro!]: "obeys \<Phi> (consent E opts f)"
  unfolding consent_def by auto

lemma obeys_rollback_gate [intro!]: "obeys \<Phi> (rollback_gate E c refs opts k)"
  unfolding rollback_gate_def check_rollbackable_def by auto

lemma obeys_classify_keyspace [intro!]: "obeys \<Phi> (classify_keyspace E meta c refs ok enf acc ks)"
  unfolding classify_keyspace_def read_state_def
  by (auto intro!: obeys_bind obeys_catch split: prod.split exn.split)

lemma obeys_preflight_phase [intro!]: "obeys \<Phi> (preflight_phase E meta c refs opts k)"
  unfolding preflight_phase_def by (auto split: prod.split)

end

lemma pick_control_Some:
  assumes "pick_control E refs x s = (t, s', Inr (Some r))"
  shows "r \<in> set refs \<and> x \<noteq> Some r"
  using assms
  by (induction refs arbitrary: s t) (auto simp: bind_Inr_iff bind_gets split: if_splits)

locale upgrading = consulting \<Phi> E R + restarting \<Phi> E R k
  for \<Phi> :: "'w effect" and E :: "'w env" and R :: "ref set" and k :: k8s +
  fixes K :: "string set"
  assumes marking: "r \<in> R \<Longrightarrow> obeys \<Phi> (set_storage_mode E r mode)"
    and starting: "r \<in> R \<Longrightarrow> ks \<in> K \<Longrightarrow> obeys \<Phi> (start_migration E r opts ks)"
begin

lemma obeys_prepare_keyspace: "c \<in> R \<Longrightarrow> ks \<in> K \<Longrightarrow> obeys \<Phi> (prepare_keyspace E c opts ks)"
  unfolding prepare_keyspace_def by (auto intro!: obeys_seq starting)

lemma obeys_upgrade_node: "r \<in> R \<Longrightarrow> obeys \<Phi> (upgrade_node E refs opts k r)"
  unfolding upgrade_node_def on_tablets_def
  by (auto intro!: obeys_bind obeys_seq obeys_fold_m marking obeys_restart_node split: option.split)

lemma obeys_upgrade_phase: "set refs \<subseteq> R \<Longrightarrow> obeys \<Phi> (upgrade_phase E refs opts k)"
  unfolding upgrade_phase_def by (auto intro!: obeys_for_each_in obeys_upgrade_node)

lemma obeys_rollback_node: "r \<in> R \<Longrightarrow> obeys \<Phi> (rollback_node E c refs opts k r)"
  unfolding rollback_node_def needs_restart_def Let_def
  by (auto intro!: obeys_bind obeys_seq obeys_fold_m marking obeys_restart_node)

end

lemma classified_subset:
  assumes "fold_m (classify_keyspace E meta c refs ok enf) (b, []) kss s = (t, s', Inr (b', ps))"
  shows "set ps \<subseteq> set kss"
proof -
  have "set (snd (b', ps)) \<subseteq> set kss"
    by (rule fold_m_Inr_induct [OF assms, where P = "\<lambda>acc pre. set (snd acc) \<subseteq> set pre"])
      (auto simp: classify_keyspace_def bind_Inr_iff split: prod.splits if_splits)
  then show ?thesis by simp
qed

lemma to_prepare_subset:
  "preflight_phase E meta c refs opts k s = (t, s', Inr ps) \<Longrightarrow> set ps \<subseteq> set (keyspaces opts)"
  by (auto simp: preflight_phase_def bind_Inr_iff seq_Inr_iff split: if_splits prod.splits
      dest: classified_subset)

locale converting = upgrading \<Phi> E R k K
  for \<Phi> :: "'w effect" and E :: "'w env" and R :: "ref set" and k :: k8s and K :: "string set" +
  assumes finalizing: "r \<in> R \<Longrightarrow> obeys \<Phi> (post_finalization E r opts ks)"
begin

lemma obeys_finalize_keyspace: "c \<in> R \<Longrightarrow> obeys \<Phi> (finalize_keyspace E c opts ks)"
  unfolding finalize_keyspace_def by (auto intro!: obeys_seq finalizing)

lemma obeys_finalize_rollback: "c \<in> R \<Longrightarrow> obeys \<Phi> (finalize_rollback E c opts ks)"
  unfolding finalize_rollback_def by (auto intro!: obeys_seq finalizing)

lemma obeys_finalize_phase:
  assumes "c \<in> R" and "set refs \<subseteq> R"
  shows "obeys \<Phi> (finalize_phase E c refs opts)"
  unfolding finalize_phase_def Let_def
  by (intro obeys_seq obeys_consent obeys_bind_value obeys_pick_control obeys_for_each
      obeys_finalize_keyspace obeys_print_status)
    (use assms in \<open>auto split: option.split dest: pick_control_Some\<close>)

lemma obeys_rollback_finish:
  assumes "c \<in> R" and "set refs \<subseteq> R"
  shows "obeys \<Phi> (rollback_finish E c refs opts)"
  unfolding rollback_finish_def Let_def
  by (intro obeys_seq obeys_bind_value obeys_pick_control obeys_for_each
      obeys_finalize_rollback obeys_print_status)
    (use assms in \<open>auto split: option.split dest: pick_control_Some\<close>)

lemma obeys_migrate:
  assumes "c \<in> R" and "set refs \<subseteq> R" and "set (keyspaces opts) \<subseteq> K"
  shows "obeys \<Phi> (migrate E meta c refs opts k)"
  unfolding migrate_def
proof (rule obeys_bind_value [OF obeys_preflight_phase])
  fix s :: "'w st" and t s' ps
  assume "preflight_phase E meta c refs opts k s = (t, s', Inr ps)"
  from to_prepare_subset [OF this] assms(3) have "set ps \<subseteq> K" by blast
  with assms show "obeys \<Phi> (seq (consent E opts Aborted) (seq (for_each (prepare_keyspace E c opts) ps)
      (seq (upgrade_phase E refs opts k) (finalize_phase E c refs opts))))"
    by (intro obeys_seq obeys_consent obeys_for_each_in obeys_prepare_keyspace obeys_upgrade_phase
        obeys_finalize_phase) auto
qed

lemma obeys_rollback:
  assumes "c \<in> R" and "set refs \<subseteq> R"
  shows "obeys \<Phi> (rollback E c refs opts k)"
  unfolding rollback_def
  by (intro obeys_seq obeys_rollback_gate obeys_for_each_in obeys_rollback_node obeys_rollback_finish)
    (use assms in auto)

end

end
