(* ===== verification/Safety.thy ===== *)
theory Safety
  imports Phases
begin

text \<open>
  The phases satisfy the contracts: time and fuel, confirmed addresses, the node objects a phase may
  change, which calls are finalizations, and at whom the calls that change something are aimed.
\<close>

lemmas api_unfolds = drain_node_def delete_pod_of_def delete_pod_def k8s_request_def api_def host_of_def
  set_storage_mode_def start_migration_def post_finalization_def

subsection \<open>Time, fuel and confirmed addresses\<close>

interpretation steady_converting: converting steady E R k K for E R k K
  by unfold_locales
    (auto simp: api_unfolds intro!: steady_perform split: sum.split exn.split)

interpretation quiet_consulting: consulting "calls_in read_only" E R for E R
  by unfold_locales (simp_all add: calls_in_perform)

interpretation identifying_converting: converting identifying E R k K for E R k K
  by unfold_locales
    (auto simp: api_unfolds intro!: identifying_perform identifying.obeys_bind identifying.obeys_catch
      split: sum.split exn.split)

interpretation touching_converting: converting "touches R" E R k K for E R k K
  by unfold_locales
    (auto simp: api_unfolds intro!: touches_perform touching.obeys_bind touching.obeys_catch
      split: sum.split exn.split)

subsection \<open>Finalization calls\<close>

text \<open>A POST to the finalization path of some keyspace.\<close>

definition finalization_path :: "string \<Rightarrow> bool" where
  "finalization_path path \<longleftrightarrow>
     (let root = MIGRATIONS @ ''/keyspaces/''
      in starts_with path root \<and> ends_with (drop (length root) path) ''/finalization'')"

fun finalizes :: "call \<Rightarrow> bool" where
  "finalizes (Rest meth h port path ps tm) = (meth = ''POST'' \<and> finalization_path path)"
| "finalizes _ = False"

definition not_finalizing :: "call \<times> answer \<Rightarrow> bool" where
  "not_finalizing ca \<longleftrightarrow> \<not> finalizes (fst ca)"

lemma finalization_path_iff: "finalization_path path \<longleftrightarrow> (\<exists>ks. path = fin_path ks)"
  by (auto simp: finalization_path_def fin_path_def Let_def starts_with_prefix ends_with_suffix
      prefix_def suffix_def)

lemma drain_not_finalization [simp]: "\<not> finalization_path drain_path"
  by (simp add: finalization_path_def Let_def starts_with_def MIGRATIONS_def)

text \<open>The request that starts a keyspace without a slash in its name finalizes nothing.\<close>

lemma ks_path_not_finalization: "CHR ''/'' \<notin> set ks \<Longrightarrow> \<not> finalization_path (ks_path ks)"
  by (auto simp: finalization_path_iff ks_path_def fin_path_def)

lemma read_only_not_finalizing: "read_only ca \<Longrightarrow> not_finalizing ca"
  by (cases ca rule: read_only.cases) (auto simp: not_finalizing_def)

interpretation unfinal_upgrading:
  upgrading "calls_in not_finalizing" E R k "{ks. CHR ''/'' \<notin> set ks}" for E R k
  by unfold_locales
    (auto simp: api_unfolds not_finalizing_def ks_path_not_finalization drain_not_finalization
      intro!: calls_in_perform obeys_modify_calls calls_in_mono [OF quiet_assign read_only_not_finalizing]
      split: sum.split exn.split)

subsection \<open>At whom a changing call is aimed\<close>

text \<open>
  \<open>acts_on k r s c\<close>: if call \<open>c\<close> changes something, it goes to the address node \<open>r\<close> holds in state \<open>s\<close>,
  or deletes its pod. \<open>acting\<close> is the contract of runs that do nothing else and leave every node object
  alone; \<open>aims\<close> only relates the calls to the state the run starts in, so it holds of a run that is
  \<open>acting\<close> first and only reads afterwards.
\<close>

fun acts_on :: "k8s \<Rightarrow> ref \<Rightarrow> 'w st \<Rightarrow> call \<Rightarrow> bool" where
  "acts_on k r s (Rest meth h port path ps tm) \<longleftrightarrow>
     meth = ''GET'' \<or> (h = text_of (api_host (store s r)) \<and> port = api_port s)"
| "acts_on k r s (Kube meth u) \<longleftrightarrow>
     meth = ''GET'' \<or> u = base k @ pod_path k (text_of (pod (store s r)))"
| "acts_on k r s _ \<longleftrightarrow> True"

definition acting :: "k8s \<Rightarrow> ref \<Rightarrow> 'w effect" where
  "acting k r s t s' x \<longleftrightarrow>
     store s' = store s \<and> api_port s' = api_port s \<and> (\<forall>ca \<in> set t. acts_on k r s (fst ca))"

definition aims :: "k8s \<Rightarrow> ref \<Rightarrow> 'w effect" where
  "aims k r s t s' x \<longleftrightarrow> (\<forall>ca \<in> set t. acts_on k r s (fst ca))"

lemma acts_on_cong:
  "store s' = store s \<Longrightarrow> api_port s' = api_port s \<Longrightarrow> acts_on k r s' c = acts_on k r s c"
  by (cases c) auto

lemma acts_on_read_only: "read_only (c, a) \<Longrightarrow> acts_on k r s c"
  by (cases c) auto

interpretation acting: contract "acting k r" for k r
proof unfold_locales
  fix s s1 s2 :: "'a st" and t t' x y
  assume 1: "acting k r s t s1 x" and 2: "acting k r s1 t' s2 y"
  from 1 have same: "store s1 = store s" "api_port s1 = api_port s" by (simp_all add: acting_def)
  from 1 2 show "acting k r s (t @ t') s2 y"
    by (auto simp: acting_def acts_on_cong [OF same])
qed (auto simp: acting_def)

lemma perform_acting:
  assumes "perform E c s = (t, s', x)" and "acts_on k r s c"
  shows "acting k r s t s' y"
  using assms perform_trace [OF assms(1)] perform_store [OF assms(1)] by (auto simp: acting_def)

lemma acting_perform: "(\<And>s :: 'w st. acts_on k r s c) \<Longrightarrow> obeys (acting k r :: 'w effect) (perform E c)"
  by (auto intro!: obeysI perform_acting)

lemma acting_own_call:
  "obeys (acting k r) (bind (host_of r) (\<lambda>h. bind (api E meth h path ps tm) (\<lambda>_. ret x)))"
proof (rule obeysI)
  fix s :: "'a st" and t s' and y :: "stop + 'b"
  let ?c = "Rest meth (text_of (api_host (store s r))) (api_port s) path ps tm"
  assume "bind (host_of r) (\<lambda>h. bind (api E meth h path ps tm) (\<lambda>_. ret x)) s = (t, s', y)"
  then have "bind (api E meth (text_of (api_host (store s r))) path ps tm) (\<lambda>_. ret x) s = (t, s', y)"
    by (simp add: host_of_def bind_gets)
  then obtain z where "api E meth (text_of (api_host (store s r))) path ps tm s = (t, s', z)"
    by (cases rule: bindE) auto
  with api_trace [OF this] api_port_store [OF this] show "acting k r s t s' (stopped y)"
    by (cases "0 < tm") (auto simp: acting_def api_refused)
qed

interpretation acting_consulting: consulting "acting k r" E "{}" for k r E
  by unfold_locales (auto intro!: acting_perform)

lemma acting_drain: "obeys (acting k r) (drain_node E r tm)"
  unfolding drain_node_def by (intro acting.obeys_catch acting_own_call acting.obeys_ret)

lemma acting_delete: "obeys (acting k r) (delete_pod_of E k r)"
proof (rule obeysI)
  fix s :: "'a st" and t s' x
  assume "delete_pod_of E k r s = (t, s', x)"
  then show "acting k r s t s' (stopped x)"
    by (auto simp: delete_pod_of_def delete_pod_def k8s_request_def bind_gets acting.raising
        elim!: bindE intro: perform_acting split: if_splits sum.splits)
qed

lemma acting_marking: "obeys (acting k r) (set_storage_mode E r mode)"
  unfolding set_storage_mode_def by (rule acting_own_call)

lemma acting_starting: "obeys (acting k r) (start_migration E r opts ks)"
  unfolding start_migration_def by (intro acting.obeys_catch acting_own_call acting.obeys_fatal)

lemma acting_finalizing: "obeys (acting k r) (post_finalization E r opts ks)"
  unfolding post_finalization_def by (rule acting_own_call)

subsection \<open>Acting first, reading afterwards\<close>

lemma aims_quiet: "obeys (calls_in read_only) m \<Longrightarrow> obeys (aims k r) m"
  by (fastforce simp: obeys_def calls_in_def aims_def intro: acts_on_read_only)

lemma aims_acting: "obeys (acting k r) m \<Longrightarrow> obeys (aims k r) m"
  by (auto simp: obeys_def acting_def aims_def)

lemma aims_bind:
  assumes m: "obeys (acting k r) m" and f: "\<And>x. obeys (aims k r) (f x)"
  shows "obeys (aims k r) (bind m f)"
proof (rule obeysI)
  fix s t s' x
  assume "bind m f s = (t, s', x)"
  then show "aims k r s t s' (stopped x)"
  proof (cases rule: bindE)
    case (stopped e)
    then show ?thesis using obeysD [OF m stopped(1)] by (auto simp: acting_def aims_def)
  next
    case (went_on t1 s1 y t2)
    from obeysD [OF m went_on(1)] have "\<forall>ca \<in> set t1. acts_on k r s (fst ca)"
      and same: "store s1 = store s" "api_port s1 = api_port s"
      by (auto simp: acting_def)
    moreover from obeysD [OF f went_on(2)] have "\<forall>ca \<in> set t2. acts_on k r s (fst ca)"
      by (simp add: aims_def acts_on_cong [OF same])
    ultimately show ?thesis using went_on(3) by (auto simp: aims_def)
  qed
qed

lemma aims_then_quiet:
  assumes m: "obeys (aims k r) m" and f: "\<And>x. obeys (calls_in read_only) (f x)"
  shows "obeys (aims k r) (bind m f)"
proof (rule obeysI)
  fix s t s' x
  assume "bind m f s = (t, s', x)"
  then show "aims k r s t s' (stopped x)"
  proof (cases rule: bindE)
    case (stopped e)
    then show ?thesis using obeysD [OF m stopped(1)] by simp
  next
    case (went_on t1 s1 y t2)
    with obeysD [OF m went_on(1)] obeysD [OF f went_on(2)] show ?thesis
      by (fastforce simp: aims_def calls_in_def intro: acts_on_read_only)
  qed
qed

lemma aims_seq:
  "obeys (acting k r) m \<Longrightarrow> obeys (aims k r) n \<Longrightarrow> obeys (aims k r) (seq m n)"
  "obeys (aims k r) m \<Longrightarrow> obeys (calls_in read_only) n \<Longrightarrow> obeys (aims k r) (seq m n)"
  unfolding seq_def by (auto intro: aims_bind aims_then_quiet)

lemma aims_restart_node: "obeys (aims k r) (restart_node E r c opts k)"
  unfolding restart_node_def
  by (intro aims_seq(1) acting_drain aims_quiet acting.obeys_if acting_delete acting.obeys_ret)
    (auto intro!: calls.obeys_bind quiet_nodes.obeys_node_back_up [where R = UNIV])

lemma aims_upgrade_node: "obeys (aims k r) (upgrade_node E refs opts k r)"
proof -
  have "obeys (aims k r) (seq (set_storage_mode E r ''tablets'')
          (seq (restart_node E r peer opts k)
          (bind (wait_node_mode E peer r (keyspaces opts) ''tablets'' (state_timeout opts)) (\<lambda>reached.
           if \<not> reached then bind (gets (\<lambda>s. label r (store s r))) (\<lambda>l. fatal (Not_on_tablets l))
           else ret ()))))" for peer
    by (intro aims_seq(1) [OF acting_marking] aims_seq(2) [OF aims_restart_node]) auto
  then show ?thesis
    unfolding upgrade_node_def on_tablets_def
    by (intro aims_bind acting_consulting.obeys_pick_control)
      (auto intro!: aims_bind intro: aims_quiet [OF calls.obeys_fatal] aims_quiet [OF calls.obeys_ret]
        split: option.split)
qed

lemma aims_rollback_node: "obeys (aims k r) (rollback_node E c refs opts k r)"
proof -
  have "obeys (aims k r) (bind (needs_restart E peer r (keyspaces opts)) (\<lambda>needs.
     seq (if needs then restart_node E r peer opts k else ret ())
    (bind (wait_node_mode E peer r (keyspaces opts) ''vnodes'' (state_timeout opts)) (\<lambda>back.
     if \<not> back then bind (gets (\<lambda>s. label r (store s r))) (\<lambda>l. fatal (Not_back_to_vnodes l))
     else ret ()))))" for peer
    unfolding needs_restart_def
    by (intro aims_bind aims_seq(2))
      (auto simp: aims_restart_node intro: aims_quiet [OF calls.obeys_ret])
  then show ?thesis
    unfolding rollback_node_def Let_def
    by (intro aims_bind [OF acting_consulting.obeys_pick_control] aims_seq(1) [OF acting_marking])
qed

end
