(* ===== verification/Protocol.thy ===== *)
theory Protocol
  imports Safety
begin

text \<open>
  The migration protocol over whole phases: what a node that was restarted successfully looks like,
  what has been observed when a step succeeds, the loops over nodes and keyspaces as phases that act on
  one target at a time, and from these the order of the whole migration and of the rollback.
\<close>

subsection \<open>Successful steps\<close>

definition resolved :: "ref set \<Rightarrow> 'w st \<Rightarrow> bool" where
  "resolved R s \<longleftrightarrow> (\<forall>r \<in> R. api_host (store s r) \<noteq> None)"

text \<open>Runs that touch no node leave the node objects as they are.\<close>

lemma untouched: "obeys (touches {}) m \<Longrightarrow> m s = (t, s', x) \<Longrightarrow> store s' = store s"
  by (auto simp: obeys_def touches_def)

lemmas unchanged_by =
  touching_restarting.obeys_wait_node_mode [where R = "{}", THEN untouched]
  touching_restarting.obeys_own_api_alive [where R = "{}", THEN untouched]
  touching_restarting.obeys_node_modes [where R = "{}", THEN untouched]
  touching_restarting.obeys_pick_control [where R = "{}", THEN untouched]

lemma refresh_api_host_True:
  assumes "refresh_api_host E r c k s = (t, s', Inr True)"
  shows "api_host (store s' r) \<noteq> None"
proof -
  have alive: "api_host (store s1 r) \<noteq> None" if "own_api_alive E r s = (t1, s1, Inr True)" for t1 s1
    using that unchanged_by(2) [OF that]
    by (auto simp: own_api_alive_def bind_gets given_def split: if_splits)
  from assms show ?thesis
    by (auto simp: refresh_api_host_def bind_Inr_iff seq_Inr_iff split: if_splits dest: alive)
qed

lemma node_back_up_True:
  assumes "node_back_up E c r k s = (t, s', Inr True)"
  shows "api_host (store s' r) \<noteq> None"
proof -
  from assms obtain t1 s1 t2 live where up: "refresh_api_host E r c k s = (t1, s1, Inr True)"
    and n: "native_and_live E c r s1 = (t2, s', Inr (Some live))"
    by (auto simp: node_back_up_def bind_Inr_iff host_of_def lift_Inr_iff split: if_splits option.splits)
  have "obeys (touches {}) (native_and_live E c r)"
    unfolding native_and_live_def by auto
  from refresh_api_host_True [OF up] untouched [OF this n] show ?thesis by simp
qed

lemma restart_node_Inr:
  assumes "restart_node E r c opts k s = (t, s', Inr ())"
  shows "api_host (store s' r) \<noteq> None"
  using assms
  by (auto simp: restart_node_def seq_Inr_iff bind_Inr_iff wait_for_def split: if_splits
      dest!: poll_until_True node_back_up_True)

lemma on_tablets_True:
  assumes "on_tablets E peer r kss s = (t, s', Inr True)" and "ks \<in> set kss"
  shows "observed ks r (Uses (JStr ''tablets'')) t"
proof -
  have "True \<longrightarrow> (\<forall>ks \<in> set kss. observed ks r (Uses (JStr ''tablets'')) t)"
  proof (rule fold_m_Inr_induct [OF assms(1) [unfolded on_tablets_def],
        where P = "\<lambda>ok pre. ok \<longrightarrow> (\<forall>ks \<in> set pre. observed ks r (Uses (JStr ''tablets'')) t)"])
    fix pre ks ok ok' s1 t1 s2
    assume *: "ok \<longrightarrow> (\<forall>ks \<in> set pre. observed ks r (Uses (JStr ''tablets'')) t)"
      "bind (node_modes E peer ks) (\<lambda>(ks_mode, modes).
         ret (ok \<and> node_phrase modes r ks_mode = Uses (JStr ''tablets''))) s1 = (t1, s2, Inr ok')"
      "set t1 \<subseteq> set t"
    then obtain ks_mode modes where "node_modes E peer ks s1 = (t1, s2, Inr (ks_mode, modes))"
      "ok' = (ok \<and> node_phrase modes r ks_mode = Uses (JStr ''tablets''))"
      by (auto simp: bind_Inr_iff)
    with * node_modes_observed [OF this(1), of r]
    show "ok' \<longrightarrow> (\<forall>ks \<in> set (pre @ [ks]). observed ks r (Uses (JStr ''tablets'')) t)"
      by (auto intro: observed_mono)
  qed simp
  with assms(2) show ?thesis by simp
qed

lemma upgrade_node_Inr:
  assumes "upgrade_node E refs opts k r s = (t, s', Inr ())"
  shows "\<forall>ks \<in> set (keyspaces opts). observed ks r (Uses (JStr ''tablets'')) t"
    and "\<exists>peer \<in> set refs. peer \<noteq> r"
    and "api_host (store s r) \<noteq> None \<Longrightarrow> api_host (store s' r) \<noteq> None"
proof -
  from assms obtain t1 s1 peer t2 where pick: "pick_control E refs (Some r) s = (t1, s1, Inr (Some peer))"
    and rest: "bind (on_tablets E peer r (keyspaces opts)) (\<lambda>ok. if ok then ret () else
           seq (set_storage_mode E r ''tablets'') (seq (restart_node E r peer opts k)
          (bind (wait_node_mode E peer r (keyspaces opts) ''tablets'' (state_timeout opts)) (\<lambda>reached.
           if \<not> reached then bind (gets (\<lambda>s. label r (store s r))) (\<lambda>l. fatal (Not_on_tablets l))
           else ret ())))) s1 = (t2, s', Inr ())"
    and t: "t = t1 @ t2"
    by (auto simp: upgrade_node_def bind_Inr_iff split: option.splits)
  from pick_control_Some [OF pick] show "\<exists>peer \<in> set refs. peer \<noteq> r" by auto
  from rest obtain t3 s3 ok t4 where ok: "on_tablets E peer r (keyspaces opts) s1 = (t3, s3, Inr ok)"
    and t2: "t2 = t3 @ t4"
    and cont: "ok \<and> s' = s3 \<or> \<not> ok \<and> (\<exists>s4 s5 t5 t6. restart_node E r peer opts k s4 = (t5, s5, Inr ()) \<and>
       wait_node_mode E peer r (keyspaces opts) ''tablets'' (state_timeout opts) s5 = (t6, s', Inr True) \<and>
       set t6 \<subseteq> set t4)"
    by (fastforce simp: bind_Inr_iff seq_Inr_iff split: if_splits)
  show "\<forall>ks \<in> set (keyspaces opts). observed ks r (Uses (JStr ''tablets'')) t"
  proof
    fix ks
    assume ks: "ks \<in> set (keyspaces opts)"
    show "observed ks r (Uses (JStr ''tablets'')) t"
    proof (cases ok)
      case True
      with ok have "on_tablets E peer r (keyspaces opts) s1 = (t3, s3, Inr True)" by simp
      from on_tablets_True [OF this ks] t t2 show ?thesis by (auto intro: observed_mono)
    next
      case False
      with cont obtain s5 t6 where
        "wait_node_mode E peer r (keyspaces opts) ''tablets'' (state_timeout opts) s5 = (t6, s', Inr True)"
        "set t6 \<subseteq> set t4" by auto
      from wait_node_mode_observed [OF this(1) ks] this(2) t t2 show ?thesis
        by (simp add: observed_mono)
    qed
  qed
  assume host: "api_host (store s r) \<noteq> None"
  have "obeys (touches {}) (on_tablets E peer r (keyspaces opts))"
    unfolding on_tablets_def by (auto intro!: touching.obeys_fold_m)
  from untouched [OF this ok] unchanged_by(4) [OF pick] have "store s3 = store s" by simp
  with host cont show "api_host (store s' r) \<noteq> None"
    by (auto dest!: restart_node_Inr dest: unchanged_by(1))
qed

subsection \<open>Phases\<close>

text \<open>
  A run of a loop, cut at its steps: one trace per step that was begun, all but the last of them of
  steps that succeeded, and all of them if the loop did.
\<close>

inductive loop_run ::
    "('a \<Rightarrow> ('w, unit) prog) \<Rightarrow> 'a list \<Rightarrow> 'w st \<Rightarrow> trace list \<Rightarrow> 'w st \<Rightarrow> stop + unit \<Rightarrow> bool"
  for f :: "'a \<Rightarrow> ('w, unit) prog" where
  finished: "loop_run f [] s [] s (Inr ())"
| stopped: "f x s = (t, s', Inl e) \<Longrightarrow> loop_run f (x # xs) s [t] s' (Inl e)"
| went_on: "f x s = (t, s1, Inr ()) \<Longrightarrow> loop_run f xs s1 ts s' r \<Longrightarrow> loop_run f (x # xs) s (t # ts) s' r"

inductive_cases loop_run_NilE: "loop_run f [] s ts s' r"
inductive_cases loop_run_ConsE: "loop_run f (x # xs) s ts s' r"

lemma for_each_loop_run:
  assumes "for_each f xs s = (t, s', r)"
  shows "\<exists>ts. t = concat ts \<and> loop_run f xs s ts s' r"
  using assms
proof (induction xs arbitrary: s t)
  case Nil
  then show ?case by (intro exI [of _ "[]"]) (auto intro: loop_run.intros)
next
  case (Cons x xs)
  from Cons.prems have "bind (f x) (\<lambda>_. for_each f xs) s = (t, s', r)" by (simp add: seq_def)
  then show ?case
  proof (cases rule: bindE)
    case (stopped e)
    with loop_run.stopped [of f x s t s' e xs] show ?thesis by (intro exI [of _ "[t]"]) auto
  next
    case (went_on t1 s1 u t2)
    from Cons.IH [OF went_on(2)] obtain ts where "t2 = concat ts" "loop_run f xs s1 ts s' r" by blast
    with went_on loop_run.went_on [of f x s t1 s1 xs ts s' r] show ?thesis
      by (intro exI [of _ "t1 # ts"]) auto
  qed
qed

lemma loop_run_length:
  "loop_run f xs s ts s' r \<Longrightarrow> length ts \<le> length xs \<and> (r = Inr () \<longrightarrow> length ts = length xs)"
  by (induction rule: loop_run.induct) auto

text \<open>
  A phase: a loop whose step acts on the target of the item it is at, keeps addresses confirmed and,
  when it succeeds, leaves every node of \<open>R\<close> with an address. \<open>shows x t\<close> is what the trace of a
  successful step for \<open>x\<close> has shown.
\<close>

fun aimed_at :: "ref set \<Rightarrow> k8s \<Rightarrow> (ref \<Rightarrow> string option) \<Rightarrow> trace \<Rightarrow> call \<Rightarrow> bool" where
  "aimed_at R k pods past (Rest meth h port path ps tm) \<longleftrightarrow>
     meth = ''GET'' \<or> (\<exists>r \<in> R. confirmed port r h past)"
| "aimed_at R k pods past (Kube meth u) \<longleftrightarrow>
     meth = ''GET'' \<or> (\<exists>r \<in> R. u = base k @ pod_path k (text_of (pods r)))"
| "aimed_at R k pods past _ \<longleftrightarrow> True"

definition pods_of :: "'w st \<Rightarrow> ref \<Rightarrow> string option" where
  "pods_of s r = pod (store s r)"

lemma aims_aimed:
  assumes "aims k r s t s' x" and "r \<in> R" and "resolved R s" and "api_hosts_confirmed t0 s"
  shows "each_call (aimed_at R k (pods_of s)) t0 t"
proof (rule each_callI)
  fix pre c a
  assume "(c, a) \<in> set t"
  with assms(1) have acts: "acts_on k r s c" by (force simp: aims_def)
  obtain h where "api_host (store s r) = Some h" using assms(2,3) by (auto simp: resolved_def)
  with assms(4) have "confirmed (api_port s) r h t0" by (simp add: api_hosts_confirmed_def)
  with acts assms(2) \<open>api_host (store s r) = Some h\<close> show "aimed_at R k (pods_of s) (t0 @ pre) c"
    by (cases c) (auto simp: text_of_def pods_of_def)
qed

lemma aimed_quiet: "(\<forall>ca \<in> set t. read_only ca) \<Longrightarrow> each_call (aimed_at R k pods) t0 t"
proof (rule each_callI)
  fix pre c a
  assume "\<forall>ca \<in> set t. read_only ca" and "(c, a) \<in> set t"
  then show "aimed_at R k pods (t0 @ pre) c" by (cases c) auto
qed

locale phase =
  fixes k :: k8s and step :: "'a \<Rightarrow> ('w, unit) prog" and target :: "'a \<Rightarrow> ref"
    and shown :: "'a \<Rightarrow> trace \<Rightarrow> bool"
  assumes aiming: "obeys (aims k (target x)) (step x)"
    and identifying: "obeys identifying (step x)"
    and touching: "obeys (touches {target x}) (step x)"
    and resolving: "step x s = (t, s', Inr ()) \<Longrightarrow> api_host (store s (target x)) \<noteq> None
          \<Longrightarrow> api_host (store s' (target x)) \<noteq> None"
    and showing: "step x s = (t, s', Inr ()) \<Longrightarrow> shown x t"
begin

lemma step_resolved: "step x s = (t, s', Inr ()) \<Longrightarrow> resolved R s \<Longrightarrow> resolved R s'"
  unfolding resolved_def
  using resolving [of x s t s'] obeysD [OF touching, of x s t s' "Inr ()"]
  by (metis touches_def singletonD)

lemma step_pods: "step x s = (t, s', r) \<Longrightarrow> pods_of s' = pods_of s \<and> api_port s' = api_port s"
  by (drule obeysD [OF touching]) (auto simp: touches_def pods_of_def)

text \<open>The whole loop: every changing call is aimed at a node of \<open>R\<close> whose address was confirmed.\<close>

lemma loop_aimed:
  assumes "loop_run step xs s ts s' r" and "target ` set xs \<subseteq> R"
    and "resolved R s" and "api_hosts_confirmed t0 s"
  shows "each_call (aimed_at R k (pods_of s)) t0 (concat ts) \<and> api_hosts_confirmed (t0 @ concat ts) s' \<and>
    pods_of s' = pods_of s \<and> api_port s' = api_port s \<and> (r = Inr () \<longrightarrow> resolved R s')"
  using assms
proof (induction arbitrary: t0 rule: loop_run.induct)
  case (finished s)
  then show ?case by simp
next
  case (stopped x s t s' e xs)
  from stopped obeysD [OF aiming stopped(1)] aims_aimed [of k "target x" s t s' _ R t0]
    obeysD [OF identifying stopped(1)] step_pods [OF stopped(1)]
  show ?case by (auto intro: identifying_hosts_confirmed)
next
  case (went_on x s t s1 xs ts s' r)
  have "each_call (aimed_at R k (pods_of s)) t0 t"
    using went_on.prems aims_aimed [OF obeysD [OF aiming went_on.hyps(1)]] by simp
  moreover have "api_hosts_confirmed (t0 @ t) s1"
    using went_on.prems(3) obeysD [OF identifying went_on.hyps(1)] by (rule identifying_hosts_confirmed [rotated])
  ultimately show ?case
    using went_on.IH [of "t0 @ t"] went_on.prems step_resolved [OF went_on.hyps(1)]
      step_pods [OF went_on.hyps(1)] by simp
qed

text \<open>Cut at the steps, each part acts on its own target as the phase found it, and shows its step done.\<close>

lemma loop_one_at_a_time:
  assumes "loop_run step xs s ts s' r" and "distinct (map target xs)"
  shows "(\<forall>i < length ts. \<forall>ca \<in> set (ts ! i). acts_on k (target (xs ! i)) s (fst ca)) \<and>
    (\<forall>i < length ts. Suc i < length ts \<or> r = Inr () \<longrightarrow> shown (xs ! i) (ts ! i))"
  using assms
proof (induction rule: loop_run.induct)
  case (finished s)
  then show ?case by simp
next
  case (stopped x s t s' e xs)
  with obeysD [OF aiming stopped(1)] show ?case by (simp add: aims_def)
next
  case (went_on x s t s1 xs ts s' r)
  have same: "store s1 q = store s q \<and> api_port s1 = api_port s" if "q \<noteq> target x" for q
    using that obeysD [OF touching went_on.hyps(1)] by (simp add: touches_def)
  have cong: "acts_on k (target (xs ! i)) s1 c = acts_on k (target (xs ! i)) s c" if "i < length ts" for i c
  proof -
    from that loop_run_length [OF went_on.hyps(2)] have "xs ! i \<in> set xs" by simp
    with went_on.prems have "target (xs ! i) \<noteq> target x" by (metis distinct.simps(2) imageI list.simps(9) list.set_map)
    with same show ?thesis by (cases c) auto
  qed
  have first: "\<forall>ca \<in> set t. acts_on k (target x) s (fst ca)"
    using obeysD [OF aiming went_on.hyps(1)] by (simp add: aims_def)
  from went_on.prems went_on.IH
  have rest: "\<forall>i < length ts. \<forall>ca \<in> set (ts ! i). acts_on k (target (xs ! i)) s (fst ca)"
    "\<forall>i < length ts. Suc i < length ts \<or> r = Inr () \<longrightarrow> shown (xs ! i) (ts ! i)"
    by (auto simp: cong)
  from first rest(1) rest(2) showing [OF went_on.hyps(1)] show ?case
    by (simp add: All_less_Suc2)
qed

lemma loop_shown:
  assumes "loop_run step xs s ts s' (Inr ())" and "x \<in> set xs"
  shows "\<exists>t \<in> set ts. shown x t"
  using assms
  by (induction xs s ts s' "Inr () :: stop + unit" rule: loop_run.induct) (auto dest: showing)

end

subsection \<open>The five phases\<close>

lemma rollback_node_Inr:
  assumes "rollback_node E c refs opts k r s = (t, s', Inr ())"
  shows "\<forall>ks \<in> set (keyspaces opts). observed ks r (Uses (JStr ''vnodes'')) t"
    and "api_host (store s r) \<noteq> None \<Longrightarrow> api_host (store s' r) \<noteq> None"
proof -
  from assms obtain t1 s1 other where pick: "pick_control E refs (Some r) s = (t1, s1, Inr other)"
    and "\<exists>t2. (let peer = (case other of None \<Rightarrow> c | Some p \<Rightarrow> p) in
     seq (set_storage_mode E r ''vnodes'')
    (bind (needs_restart E peer r (keyspaces opts)) (\<lambda>needs.
     seq (if needs then restart_node E r peer opts k else ret ())
    (bind (wait_node_mode E peer r (keyspaces opts) ''vnodes'' (state_timeout opts)) (\<lambda>back.
     if \<not> back then bind (gets (\<lambda>s. label r (store s r))) (\<lambda>l. fatal (Not_back_to_vnodes l))
     else ret ()))))) s1 = (t2, s', Inr ()) \<and> t = t1 @ t2"
    by (auto simp: rollback_node_def bind_Inr_iff)
  then obtain peer t2 s2 t3 s3 t4 s4 needs t5 t6 where
    mark: "set_storage_mode E r ''vnodes'' s1 = (t2, s2, Inr ())"
    and needs: "needs_restart E peer r (keyspaces opts) s2 = (t3, s3, Inr needs)"
    and again: "(if needs then restart_node E r peer opts k else ret ()) s3 = (t4, s4, Inr ())"
    and wait: "wait_node_mode E peer r (keyspaces opts) ''vnodes'' (state_timeout opts) s4 = (t5, s', Inr True)"
    and t: "t = t1 @ t2 @ t3 @ t4 @ t5 @ t6"
    by (fastforce simp: Let_def bind_Inr_iff seq_Inr_iff split: if_splits)
  show "\<forall>ks \<in> set (keyspaces opts). observed ks r (Uses (JStr ''vnodes'')) t"
    by (intro ballI observed_mono [OF wait_node_mode_observed [OF wait]]) (auto simp: t)
  have marking: "obeys (touches {}) (set_storage_mode E r ''vnodes'')"
    by (auto simp: set_storage_mode_def host_of_def api_def intro!: touches_perform split: sum.split)
  have reading: "obeys (touches {}) (needs_restart E peer r (keyspaces opts))"
    unfolding needs_restart_def by (auto intro!: touching.obeys_fold_m)
  assume "api_host (store s r) \<noteq> None"
  with unchanged_by(4) [OF pick] untouched [OF marking, of s1] mark untouched [OF reading, of s2] needs
  have "api_host (store s3 r) \<noteq> None" by fastforce
  with again unchanged_by(1) [OF wait] show "api_host (store s' r) \<noteq> None"
    by (auto split: if_splits dest!: restart_node_Inr)
qed

lemma prepare_keyspace_Inr:
  "prepare_keyspace E c opts ks s = (t, s', Inr ()) \<Longrightarrow> observed_state ks (JStr ''migrating_to_tablets'') t"
  by (auto simp: prepare_keyspace_def seq_Inr_iff bind_Inr_iff split: if_splits
      dest: ks_state_observed)

lemma finalize_keyspace_Inr:
  "finalize_keyspace E c opts ks s = (t, s', Inr ()) \<Longrightarrow> observed_state ks (JStr ''tablets'') t"
  by (auto simp: finalize_keyspace_def seq_Inr_iff bind_Inr_iff split: if_splits
      dest: ks_state_observed)

lemma finalize_rollback_Inr:
  "finalize_rollback E c opts ks s = (t, s', Inr ()) \<Longrightarrow> observed_state ks (JStr ''vnodes'') t"
  by (auto simp: finalize_rollback_def seq_Inr_iff bind_Inr_iff split: if_splits
      dest: ks_state_observed)

text \<open>The steps with one control node leave every node object alone.\<close>

lemma acting_steps:
  "obeys (acting k c) (prepare_keyspace E c opts ks)"
  "obeys (acting k c) (finalize_keyspace E c opts ks)"
  "obeys (acting k c) (finalize_rollback E c opts ks)"
  unfolding prepare_keyspace_def finalize_keyspace_def finalize_rollback_def
  by (auto intro!: acting.obeys_seq acting_starting acting_finalizing)

lemma acting_touches: "obeys (acting k r) m \<Longrightarrow> obeys (touches R) m"
  by (fastforce simp: obeys_def acting_def touches_def)

lemma acting_resolved:
  "obeys (acting k r) m \<Longrightarrow> m s = (t, s', x) \<Longrightarrow> api_host (store s q) \<noteq> None \<Longrightarrow> api_host (store s' q) \<noteq> None"
  by (drule (1) obeysD) (simp add: acting_def)

interpretation preparing: phase k "prepare_keyspace E c opts" "\<lambda>_. c"
    "\<lambda>ks. observed_state ks (JStr ''migrating_to_tablets'')" for k E c opts
  by unfold_locales
    (erule prepare_keyspace_Inr | erule (1) acting_resolved [OF acting_steps(1), rotated]
     | blast intro: aims_acting acting_touches acting_steps
      identifying_converting.obeys_prepare_keyspace [where R = UNIV and K = UNIV] UNIV_I)+

interpretation upgrading_nodes: phase k "upgrade_node E refs opts k" "\<lambda>r. r"
    "\<lambda>r t. \<forall>ks \<in> set (keyspaces opts). observed ks r (Uses (JStr ''tablets'')) t" for k E refs opts
  by unfold_locales
    (erule upgrade_node_Inr(1) | erule (1) upgrade_node_Inr(3) | blast intro: aims_upgrade_node
      touching_converting.obeys_upgrade_node identifying_converting.obeys_upgrade_node [where R = UNIV])+

interpretation finalizing_keyspaces: phase k "finalize_keyspace E c opts" "\<lambda>_. c"
    "\<lambda>ks. observed_state ks (JStr ''tablets'')" for k E c opts
  by unfold_locales
    (erule finalize_keyspace_Inr | erule (1) acting_resolved [OF acting_steps(2), rotated]
     | blast intro: aims_acting acting_touches acting_steps
      identifying_converting.obeys_finalize_keyspace [where R = UNIV])+

interpretation rolling_back_nodes: phase k "rollback_node E c refs opts k" "\<lambda>r. r"
    "\<lambda>r t. \<forall>ks \<in> set (keyspaces opts). observed ks r (Uses (JStr ''vnodes'')) t" for k E c refs opts
  by unfold_locales
    (erule rollback_node_Inr(1) | erule (1) rollback_node_Inr(2) | blast intro: aims_rollback_node
      touching_converting.obeys_rollback_node identifying_converting.obeys_rollback_node [where R = UNIV])+

interpretation finalizing_rollback: phase k "finalize_rollback E c opts" "\<lambda>_. c"
    "\<lambda>ks. observed_state ks (JStr ''vnodes'')" for k E c opts
  by unfold_locales
    (erule finalize_rollback_Inr | erule (1) acting_resolved [OF acting_steps(3), rotated]
     | blast intro: aims_acting acting_touches acting_steps
      identifying_converting.obeys_finalize_rollback [where R = UNIV])+

end
