(* ===== verification/History.thy ===== *)
theory History
  imports Protocol
begin

text \<open>
  A small program logic over histories, and the two conversions in it. \<open>triple H P m Q\<close> says: started
  with a past and a state that satisfy \<open>H\<close>, every call of \<open>m\<close> is permitted by \<open>P\<close>, given all that
  happened before that call, and if \<open>m\<close> returns then \<open>Q\<close> holds of the whole past, the state and the
  value. The permissions are stated on the past alone, so the theorems that result say what must have
  been seen or agreed to before a call is made.
\<close>

definition triple ::
    "(trace \<Rightarrow> 'w st \<Rightarrow> bool) \<Rightarrow> (trace \<Rightarrow> call \<Rightarrow> bool) \<Rightarrow> ('w, 'a) prog \<Rightarrow>
     (trace \<Rightarrow> 'w st \<Rightarrow> 'a \<Rightarrow> bool) \<Rightarrow> bool" where
  "triple H P m Q \<longleftrightarrow>
     (\<forall>t0 s t s' x. H t0 s \<longrightarrow> m s = (t, s', x) \<longrightarrow>
        each_call P t0 t \<and> (\<forall>y. x = Inr y \<longrightarrow> Q (t0 @ t) s' y))"

lemma tripleI:
  assumes "\<And>t0 s t s' x. H t0 s \<Longrightarrow> m s = (t, s', x) \<Longrightarrow> each_call P t0 t"
    and "\<And>t0 s t s' y. H t0 s \<Longrightarrow> m s = (t, s', Inr y) \<Longrightarrow> Q (t0 @ t) s' y"
  shows "triple H P m Q"
  using assms unfolding triple_def by blast

lemma triple_calls: "triple H P m Q \<Longrightarrow> H t0 s \<Longrightarrow> m s = (t, s', x) \<Longrightarrow> each_call P t0 t"
  unfolding triple_def by blast

lemma triple_returns: "triple H P m Q \<Longrightarrow> H t0 s \<Longrightarrow> m s = (t, s', Inr y) \<Longrightarrow> Q (t0 @ t) s' y"
  unfolding triple_def by blast

lemma triple_bind:
  assumes m: "triple H P m Q" and f: "\<And>y. triple (\<lambda>t s. Q t s y) P (f y) Q'"
  shows "triple H P (bind m f) Q'"
proof (rule tripleI)
  fix t0 s t s' x
  assume H: "H t0 s" and "bind m f s = (t, s', x)"
  from this(2) show "each_call P t0 t"
  proof (cases rule: bindE)
    case (stopped e)
    with triple_calls [OF m H] show ?thesis by blast
  next
    case (went_on t1 s1 y t2)
    with triple_calls [OF m H went_on(1)] triple_calls [OF f triple_returns [OF m H went_on(1)] went_on(2)]
    show ?thesis by simp
  qed
next
  fix t0 s t s' y
  assume H: "H t0 s" and "bind m f s = (t, s', Inr y)"
  then obtain t1 s1 x t2 where "m s = (t1, s1, Inr x)" "f x s1 = (t2, s', Inr y)" "t = t1 @ t2"
    by (auto simp: bind_Inr_iff)
  with triple_returns [OF f triple_returns [OF m H]] show "Q' (t0 @ t) s' y" by fastforce
qed

lemma triple_seq:
  "triple H P m (\<lambda>t s _. Q t s) \<Longrightarrow> triple Q P n Q' \<Longrightarrow> triple H P (seq m n) Q'"
  unfolding seq_def by (rule triple_bind)

text \<open>A part whose calls are permitted whatever the past.\<close>

lemma triple_harmless:
  assumes "obeys (calls_in allow) m" and "\<And>past c a. allow (c, a) \<Longrightarrow> P past c"
    and "\<And>t0 s t s' y. H t0 s \<Longrightarrow> m s = (t, s', Inr y) \<Longrightarrow> Q (t0 @ t) s' y"
  shows "triple H P m Q"
  using assms by (auto intro!: tripleI each_callI dest: calls_inD)

text \<open>A part that starts once everything is permitted and stays so.\<close>

lemma triple_permitted:
  assumes "\<And>t0 s t c. H t0 s \<Longrightarrow> P (t0 @ t) c"
  shows "triple H P m (\<lambda>_ _ _. True)"
  using assms by (auto intro!: tripleI each_callI)

subsection \<open>What the past must show\<close>

text \<open>A call that changes something outside.\<close>

definition changes :: "call \<Rightarrow> bool" where
  "changes c \<longleftrightarrow> \<not> read_only (c, Done)"

lemma changes_iff: "changes c \<longleftrightarrow> \<not> read_only (c, a)"
  by (cases c) (simp_all add: changes_def)

text \<open>The operator said yes at least \<open>n\<close> times, or passed -y.\<close>

definition yes_answer :: "call \<times> answer \<Rightarrow> bool" where
  "yes_answer ca \<longleftrightarrow> (case ca of (Ask, Line line) \<Rightarrow> says_yes line | _ \<Rightarrow> False)"

definition agreed :: "opts \<Rightarrow> nat \<Rightarrow> trace \<Rightarrow> bool" where
  "agreed opts n t \<longleftrightarrow> assume_yes opts \<or> n \<le> length (filter yes_answer t)"

lemma agreed_twice: "agreed opts 1 t \<Longrightarrow> agreed opts 1 t' \<Longrightarrow> agreed opts 2 (t @ t')"
  by (auto simp: agreed_def)

lemma agreed_later: "agreed opts n t' \<Longrightarrow> agreed opts n (t @ t')"
  by (auto simp: agreed_def)

lemma agreed_more: "agreed opts n t \<Longrightarrow> agreed opts n (t @ t')"
  by (auto simp: agreed_def)

lemma confirm_True:
  assumes "confirm E b s = (t, s', Inr True)"
  shows "b \<or> (\<exists>line. t = [(Ask, Line line)] \<and> says_yes line)"
proof (cases b)
  case False
  with assms obtain a t1 s1 t2 where "perform E Ask s = (t1, s1, Inr a)"
    "(case a of Line line \<Rightarrow> ret (says_yes line) | _ \<Rightarrow> raise (PyError EOFError)) s1 = (t2, s', Inr True)"
    "t = t1 @ t2"
    by (auto simp: confirm_def bind_gets bind_Inr_iff split: if_splits)
  with perform_Inr [of E Ask s t1 s1 a] show ?thesis by (cases a) auto
qed simp

lemma consent_agreed: "consent E opts f s = (t, s', Inr ()) \<Longrightarrow> agreed opts 1 t"
  by (auto simp: consent_def bind_Inr_iff agreed_def yes_answer_def split: if_splits dest!: confirm_True)

text \<open>Restarting through Kubernetes was checked: every node has a pod, and deleting pods is allowed.\<close>

definition can_restart :: "opts \<Rightarrow> k8s \<Rightarrow> ref list \<Rightarrow> (ref \<Rightarrow> string option) \<Rightarrow> trace \<Rightarrow> bool" where
  "can_restart opts k refs pods t \<longleftrightarrow>
     restart opts \<noteq> ''k8s'' \<or>
     (available k \<and> (\<forall>r \<in> set refs. given (pods r)) \<and>
      (\<exists>(c, a) \<in> set t. c = Kube_review (base k @ review_path) (namespace k) \<and> review_result a = Inr True))"

lemma can_restart_mono: "can_restart opts k refs pods t \<Longrightarrow> set t \<subseteq> set t' \<Longrightarrow> can_restart opts k refs pods t'"
  unfolding can_restart_def by blast

lemma check_restart_capability_Inr:
  assumes "check_restart_capability E refs opts k s = (t, s', Inr ())"
  shows "can_restart opts k refs (pods_of s) t"
  using assms
  by (auto simp: check_restart_capability_def bind_gets bind_Inr_iff can_restart_def pods_of_def
      filter_empty_conv split: if_splits dest!: can_delete_pods_True)

text \<open>Every keyspace was read in one of the states a migration may start or resume from.\<close>

definition migratable :: "string list \<Rightarrow> trace \<Rightarrow> bool" where
  "migratable kss t \<longleftrightarrow>
     (\<forall>ks \<in> set kss. observed_state ks (JStr ''vnodes'') t \<or> observed_state ks (JStr ''migrating_to_tablets'') t)"

lemma migratable_mono: "migratable kss t \<Longrightarrow> set t \<subseteq> set t' \<Longrightarrow> migratable kss t'"
  unfolding migratable_def by (meson observed_state_mono)

lemma read_state_Inr: "read_state E c ks s = (t, s', Inr v) \<Longrightarrow> observed_state ks v t"
  by (auto simp: read_state_def elim!: catchE dest: ks_state_observed split: exn.splits)

lemma classified_migratable:
  assumes "fold_m (classify_keyspace E meta c refs ok enf) b kss s = (t, s', Inr b')"
  shows "migratable kss t"
proof (rule fold_m_Inr_induct [OF assms, where P = "\<lambda>_ pre. migratable pre t"])
  fix pre ks acc acc' s1 t1 s2
  assume *: "migratable pre t" "classify_keyspace E meta c refs ok enf acc ks s1 = (t1, s2, Inr acc')"
    "set t1 \<subseteq> set t"
  then obtain t2 s3 v t3 where "read_state E c ks s1 = (t2, s3, Inr v)" "t1 = t2 @ t3"
    "v = JStr ''vnodes'' \<or> v = JStr ''migrating_to_tablets''"
    by (auto simp: classify_keyspace_def bind_Inr_iff split: prod.splits if_splits)
  with read_state_Inr [of E c ks s1 t2 s3 v] * show "migratable (pre @ [ks]) t"
    by (auto simp: migratable_def intro: observed_state_mono)
qed (simp add: migratable_def)

subsection \<open>Before anything changes\<close>

lemma preflight_phase_Inr:
  assumes "preflight_phase E meta c refs opts k s = (t, s', Inr ps)"
  shows "can_restart opts k refs (pods_of s) t" and "migratable (keyspaces opts) t"
    and "store s' = store s"
proof -
  let ?rest = "\<lambda>b. bind (counter_migration_supported E c) (\<lambda>counters_ok.
       bind (rack_list_enforced E c) (\<lambda>enforced.
       bind (fold_m (classify_keyspace E meta c refs counters_ok enforced)
               (b, []) (keyspaces opts)) (\<lambda>(blocked, to_prepare).
       if blocked \<and> \<not> force opts then fatal Preflight_failed else ret to_prepare)))"
  have rest: "migratable (keyspaces opts) t3"
    if "?rest b s2 = (t3, s', Inr ps)" for b :: bool and s2 t3
  proof (rule bind_later [OF that])
    fix ok s3 t3
    assume "bind (rack_list_enforced E c) (\<lambda>enforced.
       bind (fold_m (classify_keyspace E meta c refs ok enforced)
               (b, []) (keyspaces opts)) (\<lambda>(blocked, to_prepare).
       if blocked \<and> \<not> force opts then fatal Preflight_failed else ret to_prepare)) s3 = (t3, s', Inr ps)"
    then show "migratable (keyspaces opts) t3"
    proof (rule bind_later)
      fix enf s4 t4
      assume "bind (fold_m (classify_keyspace E meta c refs ok enf) (b, []) (keyspaces opts))
        (\<lambda>(blocked, to_prepare). if blocked \<and> \<not> force opts then fatal Preflight_failed else ret to_prepare)
        s4 = (t4, s', Inr ps)"
      then show "migratable (keyspaces opts) t4"
        by (rule bind_earlier) (auto elim: migratable_mono dest: classified_migratable)
    qed (auto elim: migratable_mono)
  qed (auto elim: migratable_mono)
  from assms obtain t1 s1 up t2 s2 t3 and b :: bool where
    up: "check_cluster_up E c refs s = (t1, s1, Inr up)"
    and cap: "check_restart_capability E refs opts k s1 = (t2, s2, Inr ())"
    and run: "?rest b s2 = (t3, s', Inr ps)"
    and t: "t = t1 @ t2 @ t3"
    by (force simp: preflight_phase_def bind_Inr_iff [where m = "check_cluster_up E c refs"] seq_Inr_iff
        split: if_splits)
  have "store s1 = store s"
    by (rule untouched [OF touching_converting.obeys_check_cluster_up up])
  then have "pods_of s1 = pods_of s" by (simp add: pods_of_def fun_eq_iff)
  with check_restart_capability_Inr [OF cap] t show "can_restart opts k refs (pods_of s) t"
    by (auto elim!: can_restart_mono)
  from rest [OF run] t show "migratable (keyspaces opts) t" by (auto elim: migratable_mono)
  show "store s' = store s"
    by (rule untouched [OF touching_converting.obeys_preflight_phase assms])
qed

text \<open>What has to be in place before the first change.\<close>

definition cleared :: "opts \<Rightarrow> k8s \<Rightarrow> ref list \<Rightarrow> (ref \<Rightarrow> string option) \<Rightarrow> trace \<Rightarrow> bool" where
  "cleared opts k refs pods past \<longleftrightarrow>
     can_restart opts k refs pods past \<and> migratable (keyspaces opts) past \<and> agreed opts 1 past"

lemma cleared_more: "cleared opts k refs pods past \<Longrightarrow> cleared opts k refs pods (past @ t)"
  by (auto simp: cleared_def agreed_more elim: can_restart_mono migratable_mono)

lemma read_only_harmless: "read_only (c, a) \<Longrightarrow> \<not> changes c"
  by (cases c) (simp_all add: changes_def)

lemma migrate_cleared:
  fixes s0 :: "'w st"
  shows "triple (\<lambda>past s. s = s0) (\<lambda>past c. changes c \<longrightarrow> cleared opts k refs (pods_of s0) past)
     (migrate E meta control refs opts k) (\<lambda>_ _ _. True)"
  unfolding migrate_def
proof (rule triple_bind)
  show "triple (\<lambda>past s. s = s0) (\<lambda>past c. changes c \<longrightarrow> cleared opts k refs (pods_of s0) past)
     (preflight_phase E meta control refs opts k)
     (\<lambda>past s ps. can_restart opts k refs (pods_of s0) past \<and> migratable (keyspaces opts) past)"
    by (rule triple_harmless [OF quiet_consulting.obeys_preflight_phase])
      (auto simp: read_only_harmless dest: preflight_phase_Inr
        elim!: can_restart_mono migratable_mono)
next
  fix ps
  show "triple (\<lambda>past s. can_restart opts k refs (pods_of s0) past \<and> migratable (keyspaces opts) past)
     (\<lambda>past c. changes c \<longrightarrow> cleared opts k refs (pods_of s0) past)
     (seq (consent E opts Aborted) (seq (for_each (prepare_keyspace E control opts) ps)
       (seq (upgrade_phase E refs opts k) (finalize_phase E control refs opts)))) (\<lambda>_ _ _. True)"
  proof (rule triple_seq)
    show "triple (\<lambda>past s. can_restart opts k refs (pods_of s0) past \<and> migratable (keyspaces opts) past)
       (\<lambda>past c. changes c \<longrightarrow> cleared opts k refs (pods_of s0) past)
       (consent E opts Aborted) (\<lambda>past s _. cleared opts k refs (pods_of s0) past)"
      by (rule triple_harmless [OF quiet_consulting.obeys_consent])
        (auto simp: read_only_harmless cleared_def dest!: consent_agreed intro: agreed_later
          elim: can_restart_mono migratable_mono simp del: One_nat_def)
  qed (rule triple_permitted, simp add: cleared_more)
qed

subsection \<open>Before anything is finalized\<close>

definition all_use :: "string \<Rightarrow> ref list \<Rightarrow> string list \<Rightarrow> trace \<Rightarrow> bool" where
  "all_use mode refs kss past \<longleftrightarrow>
     (\<forall>r \<in> set refs. \<forall>ks \<in> set kss. observed ks r (Uses (JStr mode)) past)"

lemma all_use_mono: "all_use mode refs kss t \<Longrightarrow> set t \<subseteq> set t' \<Longrightarrow> all_use mode refs kss t'"
  unfolding all_use_def by (meson observed_mono)

lemma upgrade_phase_Inr:
  assumes "upgrade_phase E refs opts k s = (t, s', Inr ())"
  shows "all_use ''tablets'' refs (keyspaces opts) t"
proof -
  from for_each_loop_run [OF assms [unfolded upgrade_phase_def]] obtain ts where
    "t = concat ts" "loop_run (upgrade_node E refs opts k) refs s ts s' (Inr ())" by blast
  with upgrading_nodes.loop_shown [OF this(2)] show ?thesis
    unfolding all_use_def by (fastforce elim: observed_mono)
qed

lemma rollback_nodes_Inr:
  assumes "for_each (rollback_node E c refs opts k) refs s = (t, s', Inr ())"
  shows "all_use ''vnodes'' refs (keyspaces opts) t"
proof -
  from for_each_loop_run [OF assms] obtain ts where
    "t = concat ts" "loop_run (rollback_node E c refs opts k) refs s ts s' (Inr ())" by blast
  with rolling_back_nodes.loop_shown [OF this(2)] show ?thesis
    unfolding all_use_def by (fastforce elim: observed_mono)
qed

lemma not_finalizing_harmless: "not_finalizing (c, a) \<Longrightarrow> \<not> finalizes c"
  by (simp add: not_finalizing_def)

text \<open>Finalization, entered with the nodes observed and one yes, asks for another before its first POST.\<close>

lemma finalize_phase_permitted:
  "triple (\<lambda>past s. all_use ''tablets'' refs (keyspaces opts) past \<and> agreed opts 1 past)
     (\<lambda>past c. finalizes c \<longrightarrow> all_use ''tablets'' refs (keyspaces opts) past \<and> agreed opts 2 past)
     (finalize_phase E control refs opts) (\<lambda>_ _ _. True)"
  unfolding finalize_phase_def
proof (rule triple_seq)
  show "triple (\<lambda>past s. all_use ''tablets'' refs (keyspaces opts) past \<and> agreed opts 1 past)
     (\<lambda>past c. finalizes c \<longrightarrow> all_use ''tablets'' refs (keyspaces opts) past \<and> agreed opts 2 past)
     (consent E opts Aborted_before_finalization)
     (\<lambda>past s _. all_use ''tablets'' refs (keyspaces opts) past \<and> agreed opts 2 past)"
    by (rule triple_harmless [OF calls_in_mono [OF quiet_consulting.obeys_consent
            read_only_not_finalizing]])
      (auto simp: not_finalizing_harmless dest!: consent_agreed dest: agreed_twice
        elim: all_use_mono simp del: One_nat_def)
next
  show "triple (\<lambda>past s. all_use ''tablets'' refs (keyspaces opts) past \<and> agreed opts 2 past)
     (\<lambda>past c. finalizes c \<longrightarrow> all_use ''tablets'' refs (keyspaces opts) past \<and> agreed opts 2 past)
     (bind (pick_control E refs None) (\<lambda>other.
       let control = (case other of None \<Rightarrow> control | Some c \<Rightarrow> c) in
       seq (for_each (finalize_keyspace E control opts) (keyspaces opts))
         (print_status E control refs (keyspaces opts)))) (\<lambda>_ _ _. True)"
    by (rule triple_permitted) (auto simp: agreed_more elim: all_use_mono)
qed

lemma triple_assume: "(A \<Longrightarrow> triple H P m Q) \<Longrightarrow> triple (\<lambda>t s. A \<and> H t s) P m Q"
  unfolding triple_def by blast

lemma triple_post: "triple H P m Q \<Longrightarrow> (\<And>t s y. Q t s y \<Longrightarrow> Q' t s y) \<Longrightarrow> triple H P m Q'"
  unfolding triple_def by blast

lemma migrate_finalizes:
  assumes "\<forall>ks \<in> set (keyspaces opts). CHR ''/'' \<notin> set ks"
  shows "triple (\<lambda>past s. True)
     (\<lambda>past c. finalizes c \<longrightarrow> all_use ''tablets'' refs (keyspaces opts) past \<and> agreed opts 2 past)
     (migrate E meta control refs opts k) (\<lambda>_ _ _. True)"
    (is "triple _ ?P _ _")
  unfolding migrate_def
proof (rule triple_bind)
  show "triple (\<lambda>past s. True) ?P (preflight_phase E meta control refs opts k)
      (\<lambda>past s ps. set ps \<subseteq> set (keyspaces opts) \<and> True)"
    by (rule triple_harmless [OF calls_in_mono [OF quiet_consulting.obeys_preflight_phase read_only_not_finalizing]])
      (auto simp: not_finalizing_harmless dest: to_prepare_subset)
next
  fix ps
  have "obeys (calls_in not_finalizing) (for_each (prepare_keyspace E control opts) ps)"
    if "set ps \<subseteq> set (keyspaces opts)"
    by (rule calls.obeys_for_each_in)
      (use that assms in \<open>auto intro!: unfinal_upgrading.obeys_prepare_keyspace [where R = UNIV]\<close>)
  then show "triple (\<lambda>past s. set ps \<subseteq> set (keyspaces opts) \<and> True) ?P
     (seq (consent E opts Aborted) (seq (for_each (prepare_keyspace E control opts) ps)
       (seq (upgrade_phase E refs opts k) (finalize_phase E control refs opts)))) (\<lambda>_ _ _. True)"
    by (intro triple_assume triple_seq [where Q = "\<lambda>past s. agreed opts 1 past"]
        triple_seq [where m = "upgrade_phase E refs opts k", OF _ finalize_phase_permitted]
        triple_harmless [OF calls_in_mono [OF quiet_consulting.obeys_consent read_only_not_finalizing]]
        triple_harmless [where allow = not_finalizing] unfinal_upgrading.obeys_upgrade_phase [where R = UNIV])
      (auto simp: not_finalizing_harmless simp del: One_nat_def dest!: consent_agreed upgrade_phase_Inr
        intro: agreed_later agreed_more elim: all_use_mono)
qed

subsection \<open>Where the changes go\<close>

text \<open>What the phases keep: every node has an address, confirmed, and the pod it was discovered with.\<close>

definition in_order :: "ref set \<Rightarrow> (ref \<Rightarrow> string option) \<Rightarrow> trace \<Rightarrow> 'w st \<Rightarrow> bool" where
  "in_order R pods past s \<longleftrightarrow> resolved R s \<and> api_hosts_confirmed past s \<and> pods_of s = pods"

context phase
begin

lemma triple_loop:
  assumes "target ` set xs \<subseteq> R"
  shows "triple (in_order R pods) (aimed_at R k pods) (for_each step xs) (\<lambda>t s _. in_order R pods t s)"
proof (rule tripleI)
  fix t0 s t s' x
  assume H: "in_order R pods t0 s" and run: "for_each step xs s = (t, s', x)"
  from for_each_loop_run [OF run] obtain ts where "t = concat ts" "loop_run step xs s ts s' x" by blast
  with loop_aimed [OF this(2) assms] H show "each_call (aimed_at R k pods) t0 t"
    by (auto simp: in_order_def)
next
  fix t0 s t s' x
  assume H: "in_order R pods t0 s" and run: "for_each step xs s = (t, s', Inr x)"
  from for_each_loop_run [OF run] obtain ts where "t = concat ts" "loop_run step xs s ts s' (Inr x)" by blast
  with loop_aimed [OF this(2) assms] H show "in_order R pods (t0 @ t) s'"
    by (auto simp: in_order_def)
qed

end

lemma triple_reading:
  assumes "obeys (calls_in read_only) m" and "obeys (touches {}) m" and "obeys identifying m"
    and "\<And>s t s' y. m s = (t, s', Inr y) \<Longrightarrow> V y"
  shows "triple (in_order R pods) (aimed_at R k pods) m (\<lambda>t s y. V y \<and> in_order R pods t s)"
proof (rule tripleI)
  fix t0 s t s' x
  assume "m s = (t, s', x)"
  with assms(1) show "each_call (aimed_at R k pods) t0 t"
    by (intro aimed_quiet) (auto dest: calls_inD)
next
  fix t0 s t s' y
  assume "in_order R pods t0 s" and run: "m s = (t, s', Inr y)"
  with untouched [OF assms(2) run] identifying_hosts_confirmed [OF obeysD [OF assms(3) run]] assms(4) [OF run]
  show "V y \<and> in_order R pods (t0 @ t) s'"
    by (simp add: in_order_def resolved_def pods_of_def fun_eq_iff)
qed

lemma triple_reads:
  assumes "\<And>\<Phi> E R. consulting \<Phi> E R \<Longrightarrow> obeys \<Phi> (m E)"
    and "\<And>s t s' y. m E s = (t, s', Inr y) \<Longrightarrow> V y"
  shows "triple (in_order R pods) (aimed_at R k pods) (m E) (\<lambda>t s y. V y \<and> in_order R pods t s)"
  by (intro triple_reading assms
      assms(1) [OF quiet_consulting.consulting_axioms] assms(1) [OF touching_converting.consulting_axioms]
      assms(1) [OF identifying_converting.consulting_axioms])

lemma triple_drop: "triple H P m (\<lambda>t s y. True \<and> Q t s y) \<Longrightarrow> triple H P m (\<lambda>t s y. Q t s y)"
  by simp

lemmas in_order_preflight = triple_drop [OF triple_reads [where
      m = "\<lambda>E. preflight_phase E meta c refs opts k" and V = "\<lambda>_. True", OF consulting.obeys_preflight_phase TrueI]]
    for meta c refs opts k
lemmas in_order_consent = triple_drop [OF triple_reads [where
      m = "\<lambda>E. consent E opts f" and V = "\<lambda>_. True", OF consulting.obeys_consent TrueI]]
    for opts f
lemmas in_order_gate = triple_drop [OF triple_reads [where
      m = "\<lambda>E. rollback_gate E c refs opts k" and V = "\<lambda>_. True", OF consulting.obeys_rollback_gate TrueI]]
    for c refs opts k
lemmas in_order_status = triple_drop [OF triple_reads [where
      m = "\<lambda>E. print_status E c refs kss" and V = "\<lambda>_. True", OF consulting.obeys_print_status TrueI]]
    for c refs kss

lemma in_order_pick:
  "triple (in_order R pods) (aimed_at R k pods) (pick_control E refs x)
     (\<lambda>t s y. (\<forall>c. y = Some c \<longrightarrow> c \<in> set refs) \<and> in_order R pods t s)"
  by (rule triple_reads [where m = "\<lambda>E. pick_control E refs x" and V = "\<lambda>y. \<forall>c. y = Some c \<longrightarrow> c \<in> set refs"])
    (auto dest: pick_control_Some
      intro: node_reading.obeys_pick_control [OF preflighting.axioms(1) [OF consulting.axioms(1)]])

lemma in_order_finalize:
  assumes "control \<in> set refs"
  shows "triple (in_order (set refs) pods) (aimed_at (set refs) k pods) (finalize_phase E control refs opts)
     (\<lambda>t s _. in_order (set refs) pods t s)"
  unfolding finalize_phase_def Let_def
  by (intro triple_seq [OF in_order_consent] triple_bind [OF in_order_pick] triple_assume
      triple_seq [OF finalizing_keyspaces.triple_loop in_order_status])
    (use assms in \<open>auto split: option.split\<close>)

lemma in_order_rollback_finish:
  assumes "control \<in> set refs"
  shows "triple (in_order (set refs) pods) (aimed_at (set refs) k pods) (rollback_finish E control refs opts)
     (\<lambda>t s _. in_order (set refs) pods t s)"
  unfolding rollback_finish_def Let_def
  by (intro triple_bind [OF in_order_pick] triple_assume
      triple_seq [OF finalizing_rollback.triple_loop in_order_status])
    (use assms in \<open>auto split: option.split\<close>)

lemma migrate_aimed:
  assumes "control \<in> set refs"
  shows "triple (in_order (set refs) pods) (aimed_at (set refs) k pods)
     (migrate E meta control refs opts k) (\<lambda>t s _. in_order (set refs) pods t s)"
  unfolding migrate_def upgrade_phase_def
  by (intro triple_bind [OF in_order_preflight] triple_seq [OF in_order_consent]
      triple_seq [OF preparing.triple_loop]
      triple_seq [OF upgrading_nodes.triple_loop in_order_finalize])
    (use assms in auto)

lemma rollback_aimed:
  assumes "control \<in> set refs"
  shows "triple (in_order (set refs) pods) (aimed_at (set refs) k pods)
     (rollback E control refs opts k) (\<lambda>t s _. in_order (set refs) pods t s)"
  unfolding rollback_def
  by (intro triple_seq [OF in_order_gate]
      triple_seq [OF rolling_back_nodes.triple_loop in_order_rollback_finish])
    (use assms in auto)

subsection \<open>What success shows\<close>

lemma finalize_loop_Inr:
  assumes "for_each (finalize_keyspace E c opts) kss s = (t, s', Inr ())"
  shows "\<forall>ks \<in> set kss. observed_state ks (JStr ''tablets'') t"
proof -
  from for_each_loop_run [OF assms] obtain ts where
    "t = concat ts" "loop_run (finalize_keyspace E c opts) kss s ts s' (Inr ())" by blast
  with finalizing_keyspaces.loop_shown [OF this(2)] show ?thesis
    by (fastforce elim: observed_state_mono)
qed

lemma rollback_loop_Inr:
  assumes "for_each (finalize_rollback E c opts) kss s = (t, s', Inr ())"
  shows "\<forall>ks \<in> set kss. observed_state ks (JStr ''vnodes'') t"
proof -
  from for_each_loop_run [OF assms] obtain ts where
    "t = concat ts" "loop_run (finalize_rollback E c opts) kss s ts s' (Inr ())" by blast
  with finalizing_rollback.loop_shown [OF this(2)] show ?thesis
    by (fastforce elim: observed_state_mono)
qed

lemma migrate_Inr:
  assumes "migrate E meta control refs opts k s = (t, s', Inr ls)"
  shows "all_use ''tablets'' refs (keyspaces opts) t"
    and "\<forall>ks \<in> set (keyspaces opts). observed_state ks (JStr ''tablets'') t"
  using assms unfolding migrate_def finalize_phase_def Let_def
  by (fastforce elim!: bind_InrE seq_InrE dest!: upgrade_phase_Inr finalize_loop_Inr
      elim: all_use_mono observed_state_mono)+

lemma rollback_Inr:
  assumes "rollback E control refs opts k s = (t, s', Inr ls)"
  shows "all_use ''vnodes'' refs (keyspaces opts) t"
    and "\<forall>ks \<in> set (keyspaces opts). observed_state ks (JStr ''vnodes'') t"
  using assms unfolding rollback_def rollback_finish_def Let_def
  by (fastforce elim!: bind_InrE seq_InrE dest!: rollback_nodes_Inr rollback_loop_Inr
      elim: all_use_mono observed_state_mono)+

subsection \<open>The same for a rollback\<close>

definition all_in_state :: "json \<Rightarrow> string list \<Rightarrow> trace \<Rightarrow> bool" where
  "all_in_state v kss past \<longleftrightarrow> (\<forall>ks \<in> set kss. observed_state ks v past)"

lemma all_in_state_mono: "all_in_state v kss t \<Longrightarrow> set t \<subseteq> set t' \<Longrightarrow> all_in_state v kss t'"
  unfolding all_in_state_def by (meson observed_state_mono)

lemma check_rollbackable_loop:
  "for_each (check_rollbackable E c) kss s = (t, s', Inr ()) \<Longrightarrow>
     all_in_state (JStr ''migrating_to_tablets'') kss t \<and> store s' = store s"
proof (induction kss arbitrary: s t)
  case Nil
  then show ?case by (simp add: all_in_state_def)
next
  case (Cons ks kss)
  then obtain t1 s1 t2 where one: "check_rollbackable E c ks s = (t1, s1, Inr ())"
    and rest: "for_each (check_rollbackable E c) kss s1 = (t2, s', Inr ())" and t: "t = t1 @ t2"
    by (auto simp: seq_Inr_iff)
  have "obeys (touches {}) (check_rollbackable E c ks)"
    unfolding check_rollbackable_def by auto
  from untouched [OF this one] have "store s1 = store s" .
  moreover from one have "observed_state ks (JStr ''migrating_to_tablets'') t1"
    by (auto simp: check_rollbackable_def bind_Inr_iff split: if_splits dest: ks_state_observed)
  ultimately show ?case using Cons.IH [OF rest] t
    by (auto simp: all_in_state_def elim: observed_state_mono)
qed

lemma rollback_gate_Inr:
  assumes "rollback_gate E c refs opts k s = (t, s', Inr ())"
  shows "can_restart opts k refs (pods_of s) t \<and>
    all_in_state (JStr ''migrating_to_tablets'') (keyspaces opts) t \<and> agreed opts 1 t"
proof -
  from assms obtain t1 s1 t2 s2 t3 where
    states: "for_each (check_rollbackable E c) (keyspaces opts) s = (t1, s1, Inr ())"
    and cap: "check_restart_capability E refs opts k s1 = (t2, s2, Inr ())"
    and yes: "consent E opts Aborted s2 = (t3, s', Inr ())" and t: "t = t1 @ t2 @ t3"
    unfolding rollback_gate_def by (auto elim!: seq_InrE)
  from check_rollbackable_loop [OF states] have "pods_of s1 = pods_of s"
    by (simp add: pods_of_def fun_eq_iff)
  with check_rollbackable_loop [OF states] check_restart_capability_Inr [OF cap] consent_agreed [OF yes] t
  show ?thesis by (auto intro: agreed_later elim: can_restart_mono all_in_state_mono)
qed

text \<open>What has to be in place before a rollback changes anything.\<close>

definition rollback_cleared :: "opts \<Rightarrow> k8s \<Rightarrow> ref list \<Rightarrow> (ref \<Rightarrow> string option) \<Rightarrow> trace \<Rightarrow> bool" where
  "rollback_cleared opts k refs pods past \<longleftrightarrow>
     can_restart opts k refs pods past \<and>
     all_in_state (JStr ''migrating_to_tablets'') (keyspaces opts) past \<and> agreed opts 1 past"

lemma rollback_cleared_more:
  "rollback_cleared opts k refs pods past \<Longrightarrow> rollback_cleared opts k refs pods (past @ t)"
  by (auto simp: rollback_cleared_def agreed_more elim: can_restart_mono all_in_state_mono)

lemma rollback_clears:
  fixes s0 :: "'w st"
  shows "triple (\<lambda>past s. s = s0)
     (\<lambda>past c. changes c \<longrightarrow> rollback_cleared opts k refs (pods_of s0) past)
     (rollback E control refs opts k) (\<lambda>_ _ _. True)"
  unfolding rollback_def
proof (rule triple_seq)
  have "rollback_cleared opts k refs (pods_of s0) (past @ t)"
    if "rollback_gate E control refs opts k s0 = (t, s', Inr u)" for past t s' u
    using rollback_gate_Inr [of E control refs opts k s0 t s'] that
    by (auto simp: rollback_cleared_def intro: agreed_later elim: can_restart_mono all_in_state_mono)
  then show "triple (\<lambda>past s. s = s0)
     (\<lambda>past c. changes c \<longrightarrow> rollback_cleared opts k refs (pods_of s0) past)
     (rollback_gate E control refs opts k) (\<lambda>past s _. rollback_cleared opts k refs (pods_of s0) past)"
    by (intro triple_harmless [OF quiet_consulting.obeys_rollback_gate])
      (auto simp: read_only_harmless)
qed (rule triple_permitted, simp add: rollback_cleared_more)

lemma rollback_finalizes:
  "triple (\<lambda>past s. True)
     (\<lambda>past c. finalizes c \<longrightarrow> all_use ''vnodes'' refs (keyspaces opts) past)
     (rollback E control refs opts k) (\<lambda>_ _ _. True)"
  unfolding rollback_def
  by (intro triple_seq [where Q = "\<lambda>past s. True"]
      triple_seq [where m = "for_each f refs" and Q = "\<lambda>past s. all_use ''vnodes'' refs (keyspaces opts) past" for f]
      triple_harmless [OF calls_in_mono [OF quiet_consulting.obeys_rollback_gate read_only_not_finalizing]]
      triple_harmless [where allow = not_finalizing] triple_permitted
      calls.obeys_for_each_in unfinal_upgrading.obeys_rollback_node [where R = UNIV])
    (auto simp: not_finalizing_harmless dest!: rollback_nodes_Inr elim: all_use_mono)

end
