(* ===== verification/Tool_Options.thy ===== *)
theory Tool_Options
  imports Restart Arguments
begin

text \<open>
  The command line of \<open>sample_app/convert_to_tablets.py\<close> (\<open>parse_args\<close>): its declaration, what it
  accepts, and the words that stand for given options.
\<close>

subsection \<open>\<open>parse_args\<close>\<close>

definition tool_cli :: "opts cli" where
  "tool_cli =
     \<lparr>cli_options =
        [help_option,
         ([''-s'', ''--hosts''], text_value opt_hosts_update),
         ([''-u'', ''--username''], text_value opt_username_update),
         ([''-p'', ''--password''], text_value opt_password_update),
         ([''--dc''], text_value opt_dc_update),
         ([''-e'', ''--tls''], switch opt_tls_update),
         ([''-m'', ''--mtls''], switch opt_mtls_update),
         ([''-S'', ''--status''], switch status_only_update),
         ([''-r'', ''--rollback''], switch rollback_flag_update),
         ([''--restart''], choice [''k8s'', ''manual''] restart_update),
         ([''--api-port''], int_value opt_api_port_update),
         ([''-t'', ''--state-timeout''], int_value state_timeout_update),
         ([''-w'', ''--node-timeout''], int_value node_timeout_update),
         ([''-F'', ''--force''], switch force_update),
         ([''-y'', ''--yes''], switch assume_yes_update)],
      positional = Many_positional (\<lambda>kss. keyspaces_update (\<lambda>_. kss)),
      complete = (\<lambda>_. True)\<rparr>"

definition parse_tool_args :: "(string \<Rightarrow> string option) \<Rightarrow> string list \<Rightarrow> exn + opts" where
  "parse_tool_args environ argv = parse_command_line tool_cli (default_opts environ []) argv"

subsection \<open>What is accepted\<close>

interpretation status_kept: respected tool_cli status_only
  by unfold_locales (simp add: tool_cli_def help_option_def keeps_int_value)

interpretation choice_kept: respected tool_cli "\<lambda>opts. restart opts \<in> {''k8s'', ''manual''}"
  by unfold_locales (simp add: tool_cli_def help_option_def keeps_int_value)

interpretation keyspaces_kept: respected tool_cli "\<lambda>opts. keyspaces opts \<noteq> []"
  by unfold_locales (simp add: tool_cli_def help_option_def keeps_int_value)

lemma tool_positional [simp]: "positional tool_cli = Many_positional (\<lambda>kss. keyspaces_update (\<lambda>_. kss))"
  by (simp add: tool_cli_def)

lemma accepted_tool_args:
  assumes "parse_tool_args environ argv = Inr opts"
  shows "keyspaces opts \<noteq> []" and "restart opts \<in> {''k8s'', ''manual''}"
proof -
  note parsed = assms [unfolded parse_tool_args_def]
  show "keyspaces opts \<noteq> []" by (rule keyspaces_kept.accepted [OF parsed]) simp_all
  show "restart opts \<in> {''k8s'', ''manual''}"
    by (rule choice_kept.accepted [OF parsed]) (simp_all add: default_opts_def)
qed

lemma tool_actions [simp]:
  "action_of tool_cli ''-S'' = Some (switch status_only_update)"
  "action_of tool_cli ''--status'' = Some (switch status_only_update)"
  "action_of tool_cli ''--hosts'' = Some (text_value opt_hosts_update)"
  "action_of tool_cli ''--username'' = Some (text_value opt_username_update)"
  "action_of tool_cli ''--password'' = Some (text_value opt_password_update)"
  "action_of tool_cli ''--dc'' = Some (text_value opt_dc_update)"
  "action_of tool_cli ''--tls'' = Some (switch opt_tls_update)"
  "action_of tool_cli ''--mtls'' = Some (switch opt_mtls_update)"
  "action_of tool_cli ''--rollback'' = Some (switch rollback_flag_update)"
  "action_of tool_cli ''--restart'' = Some (choice [''k8s'', ''manual''] restart_update)"
  "action_of tool_cli ''--api-port'' = Some (int_value opt_api_port_update)"
  "action_of tool_cli ''--state-timeout'' = Some (int_value state_timeout_update)"
  "action_of tool_cli ''--node-timeout'' = Some (int_value node_timeout_update)"
  "action_of tool_cli ''--force'' = Some (switch force_update)"
  "action_of tool_cli ''--yes'' = Some (switch assume_yes_update)"
  by (simp_all add: action_of_def tool_cli_def help_option_def)

lemma status_word:
  assumes "parse_tool_args environ argv = Inr opts"
    and "s \<in> set (takeWhile (\<lambda>s. s \<noteq> ''--'') argv)" "s \<in> {''-S'', ''--status''}"
  shows "status_only opts"
proof (rule status_kept.accepted_with [OF assms(1) [unfolded parse_tool_args_def] _ assms(2)])
  show "action_of tool_cli s = Some (Flag (status_only_update (\<lambda>_. True)))"
    using assms(3) by (auto simp: switch_def)
  show "starts_with s ''-''" using assms(3) by (auto simp: starts_with_def)
qed simp_all

subsection \<open>The words for given options\<close>

text \<open>One command line for every record of options: values with an equals sign, keyspaces after \<open>--\<close>.\<close>

definition words_of :: "opts \<Rightarrow> string list" where
  "words_of opts =
     [assigned ''--hosts'' (opt_hosts opts), assigned ''--username'' (opt_username opts),
      assigned ''--password'' (opt_password opts), assigned ''--dc'' (opt_dc opts),
      assigned ''--restart'' (restart opts), assigned ''--api-port'' (dec_int (opt_api_port opts)),
      assigned ''--state-timeout'' (dec_int (state_timeout opts)),
      assigned ''--node-timeout'' (dec_int (node_timeout opts))] @
     concat (map (\<lambda>(given, s). if given then [s] else [])
       [(opt_tls opts, ''--tls''), (opt_mtls opts, ''--mtls''), (status_only opts, ''--status''),
        (rollback_flag opts, ''--rollback''), (force opts, ''--force''), (assume_yes opts, ''--yes'')]) @
     ''--'' # keyspaces opts"

lemma tool_option_strings: "\<forall>opt \<in> set (option_strings tool_cli). CHR ''='' \<notin> set opt"
  by (simp add: option_strings_def tool_cli_def help_option_def)

lemma assigned_not_dashes: "length opt > 1 \<Longrightarrow> assigned opt v \<noteq> ''--''"
  by (auto simp: assigned_def append_eq_Cons_conv)

lemma tokens_assigned:
  assumes "action_of tool_cli opt = Some a" "starts_with opt ''--''"
  shows "tokens tool_cli (assigned opt v # ss) = map_option ((#) (Option (Some a) opt (Some (True, v)))) (tokens tool_cli ss)"
proof -
  from assms(2) have "length opt > 1" "starts_with opt ''-''"
    by (auto simp: starts_with_prefix prefix_def)
  then show ?thesis
    using classify_assigned [OF tool_option_strings assms(1), of v] assigned_not_dashes by simp
qed

lemma tokens_switch:
  "action_of tool_cli s = Some a \<Longrightarrow> starts_with s ''-'' \<Longrightarrow> s \<noteq> ''--'' \<Longrightarrow>
     tokens tool_cli ((if b then [s] else []) @ ss) =
       map_option ((@) (if b then [Option (Some a) s None] else [])) (tokens tool_cli ss)"
  by (cases "tokens tool_cli ss") (simp_all add: classify_exact)

lemma consume_switch:
  "consume tool_cli pos extra ((if b then [Option (Some (switch upd)) s None] else []) @ ts) st =
     consume tool_cli pos extra ts (if b then upd (\<lambda>_. True) st else st)"
  by (simp add: switch_def)

lemma tokens_words:
  "tokens tool_cli (words_of opts) = Some (
     [Option (Some (text_value opt_hosts_update)) ''--hosts'' (Some (True, opt_hosts opts)),
      Option (Some (text_value opt_username_update)) ''--username'' (Some (True, opt_username opts)),
      Option (Some (text_value opt_password_update)) ''--password'' (Some (True, opt_password opts)),
      Option (Some (text_value opt_dc_update)) ''--dc'' (Some (True, opt_dc opts)),
      Option (Some (choice [''k8s'', ''manual''] restart_update)) ''--restart'' (Some (True, restart opts)),
      Option (Some (int_value opt_api_port_update)) ''--api-port'' (Some (True, dec_int (opt_api_port opts))),
      Option (Some (int_value state_timeout_update)) ''--state-timeout'' (Some (True, dec_int (state_timeout opts))),
      Option (Some (int_value node_timeout_update)) ''--node-timeout'' (Some (True, dec_int (node_timeout opts)))] @
     concat (map (\<lambda>(given, s, upd). if given then [Option (Some (switch upd)) s None] else [])
       [(opt_tls opts, ''--tls'', opt_tls_update), (opt_mtls opts, ''--mtls'', opt_mtls_update),
        (status_only opts, ''--status'', status_only_update),
        (rollback_flag opts, ''--rollback'', rollback_flag_update),
        (force opts, ''--force'', force_update), (assume_yes opts, ''--yes'', assume_yes_update)]) @
     Double_dash # map Plain (keyspaces opts))"
  by (simp add: words_of_def tokens_assigned tokens_switch starts_with_def
      del: tokens.simps(2) split del: if_split)

lemma words_understood:
  assumes "keyspaces opts \<noteq> []" "restart opts \<in> {''k8s'', ''manual''}"
  shows "parse_tool_args environ (words_of opts) = Inr opts"
proof -
  have complete: "complete tool_cli st" for st by (simp add: tool_cli_def)
  have restart: "(if restart opts \<in> set [''k8s'', ''manual''] then Some (restart_update (\<lambda>_. restart opts)) else None) =
      Some (restart_update (\<lambda>_. restart opts))"
    using assms(2) by simp
  show ?thesis
    unfolding parse_tool_args_def parse_command_line_def tokens_words
    using assms(1)
    by (simp add: text_value_def choice_def restart int_value_def take_value_def consume_switch
        consume_after_dashes complete del: set_simps consume.simps(5) split del: if_split)
      (cases opts, simp add: default_opts_def)
qed

subsection \<open>Which options there can be\<close>

text \<open>
  C37. A record of options comes from some command line exactly when it names a keyspace and one of the
  two ways to restart a node; such a record is the parse of the words written for it, whatever the
  process environment, the names, passwords and numbers in it.
\<close>

theorem accepted_options:
  "((\<exists>argv. parse_tool_args environ argv = Inr opts) \<longleftrightarrow>
      keyspaces opts \<noteq> [] \<and> restart opts \<in> {''k8s'', ''manual''}) \<and>
   (parse_tool_args environ (words_of opts) = Inr opts \<longleftrightarrow>
      keyspaces opts \<noteq> [] \<and> restart opts \<in> {''k8s'', ''manual''})"
  using accepted_tool_args [of environ _ opts] words_understood [of opts environ] by blast

end
