(* ===== verification/Cli.thy ===== *)
theory Cli
  imports History Tool_Options
begin

text \<open>
  The program around the phases: \<open>connect\<close>, \<open>main\<close> and the exit codes of
  \<open>sample_app/convert_to_tablets.py\<close>. What \<open>main\<close> takes from its process (files and environment
  variables) is the record \<open>process\<close>; what the driver's metadata holds once connected are the
  arguments \<open>hosts\<close> and \<open>meta\<close>.
\<close>

subsection \<open>connect\<close>

text \<open>
  The process: which files exist, which of them \<open>ssl\<close> can load (else it raises an OSError), the two
  environment variables and the two ServiceAccount files of \<open>K8s.__init__\<close>.
\<close>

record process =
  file_exists :: "string \<Rightarrow> bool"
  file_loads :: "string \<Rightarrow> bool"
  service_host :: "string option"
  service_port :: "string option"
  token_file :: "string option"
  namespace_file :: "string option"

definition CA_CERT :: string where
  "CA_CERT = ''./config/ca.crt''"

definition CLIENT_CERT :: string where
  "CLIENT_CERT = ''./config/tls.crt''"

definition CLIENT_KEY :: string where
  "CLIENT_KEY = ''./config/tls.key''"

definition host_list :: "string \<Rightarrow> string list" where
  "host_list text =
     map strip (filter (\<lambda>h. strip h \<noteq> [])
       (words (map (\<lambda>c. if c = CHR '','' then CHR '' '' else c) text)))"

definition ssl_context_of :: "process \<Rightarrow> bool \<Rightarrow> ssl_context py" where
  "ssl_context_of p mtls =
     ebind (load_verify_locations (file_loads p) CA_CERT
              ((SSLContext PROTOCOL_TLS_CLIENT)\<lparr>minimum_version := TLSv1_2\<rparr>)) (\<lambda>c.
     ebind (set_verify_mode CERT_REQUIRED c) (\<lambda>c.
     if mtls \<or> (file_exists p CLIENT_CERT \<and> file_exists p CLIENT_KEY)
     then load_cert_chain (file_loads p) CLIENT_CERT CLIENT_KEY c else Inr c))"

definition connection_of :: "process \<Rightarrow> opts \<Rightarrow> exn + connection" where
  "connection_of p opts =
     (let hosts = host_list (opt_hosts opts); secure = opt_tls opts \<or> opt_mtls opts;
          conn = (\<lambda>context.
            \<lparr>contact_points = hosts, cql_port = (if secure then 9142 else 9042), tls = context,
             server_name = (if secure then Some (hd hosts) else None), local_dc = opt_dc opts,
             credentials = (if opt_mtls opts then None else Some (opt_username opts, opt_password opts))\<rparr>)
      in if hosts = [] then Inl (Fatal No_contact_points)
         else if secure then
           (case ssl_context_of p (opt_mtls opts) of
              Inl e \<Rightarrow> Inl (PyError e)
            | Inr context \<Rightarrow> Inr (conn (Some context)))
         else Inr (conn None))"

text \<open>
  With TLS the driver only talks to a peer whose certificate comes from \<open>CA_CERT\<close> and names the first
  contact point.
\<close>

lemma connection_of_verifies:
  assumes "connection_of p opts = Inr c" and "opt_tls opts \<or> opt_mtls opts"
  shows "\<exists>t. tls c = Some t \<and> minimum_version t = TLSv1_2 \<and>
    (\<forall>cert. admits t (server_name c) cert \<longleftrightarrow> issuer cert = CA_CERT \<and> hd (contact_points c) \<in> set (issued_for cert))"
  using assms
  by (auto simp: connection_of_def ssl_context_of_def load_verify_locations_def set_verify_mode_def load_cert_chain_def
      SSLContext_def admits_def Let_def split: if_splits sum.splits)

text \<open>Connecting fails with an exception of the driver.\<close>

definition connect :: "'w env \<Rightarrow> process \<Rightarrow> opts \<Rightarrow> ('w, unit) prog" where
  "connect E p opts =
     (case connection_of p opts of
        Inl e \<Rightarrow> raise e
      | Inr conn \<Rightarrow>
          bind (perform E (Cql_connect conn)) (\<lambda>a.
          case a of Done \<Rightarrow> ret () | _ \<Rightarrow> raise DriverError))"

subsection \<open>main\<close>

definition set_api_port :: "int \<Rightarrow> ('w, unit) prog" where
  "set_api_port p s = ([], s\<lparr>api_port := p\<rparr>, Inr ())"

definition unreachable :: "ref list \<Rightarrow> ('w, ref list) prog" where
  "unreachable refs = gets (\<lambda>s. filter (\<lambda>r. \<not> given (api_host (store s r))) refs)"

text \<open>The \<open>try\<close> block of \<open>main\<close>, once the nodes are known, and whole.\<close>

definition dispatch ::
    "'w env \<Rightarrow> cluster_meta \<Rightarrow> ref \<Rightarrow> ref list \<Rightarrow> opts \<Rightarrow> k8s \<Rightarrow> ('w, status_line list) prog" where
  "dispatch E meta control refs opts k =
     (if status_only opts then print_status E control refs (keyspaces opts)
      else if rollback_flag opts then rollback E control refs opts k
      else migrate E meta control refs opts k)"

definition session ::
    "'w env \<Rightarrow> host list \<Rightarrow> cluster_meta \<Rightarrow> opts \<Rightarrow> k8s \<Rightarrow> ('w, status_line list) prog" where
  "session E hosts meta opts k =
     bind (discover_nodes E hosts k) (\<lambda>refs.
     if refs = [] then fatal Topology_empty
     else bind (unreachable refs) (\<lambda>un.
          if un \<noteq> [] then fatal Unreachable_nodes
          else bind (pick_control E refs None) (\<lambda>control.
               case control of
                 None \<Rightarrow> fatal No_node_answering
               | Some control \<Rightarrow> dispatch E meta control refs opts k)))"

definition shutdown :: "'w env \<Rightarrow> ('w, unit) prog" where
  "shutdown E = bind (perform E Cql_shutdown) (\<lambda>_. ret ())"

definition main ::
    "'w env \<Rightarrow> process \<Rightarrow> host list \<Rightarrow> cluster_meta \<Rightarrow> opts \<Rightarrow> ('w, status_line list) prog" where
  "main E p hosts meta opts =
     seq (set_api_port (opt_api_port opts))
    (seq (connect E p opts)
         (finally_do
           (session E hosts meta opts
              (k8s_init (service_host p) (service_port p) (token_file p) (namespace_file p)))
           (shutdown E)))"

text \<open>
  The process exit code: 1 for the exceptions the last \<open>except\<close> names, 130 for Ctrl-C, and Python's 1
  for any other exception (\<open>main\<close> itself never calls \<open>sys.exit\<close>). A run out of fuel has none.
\<close>

definition exit_code :: "stop + 'a \<Rightarrow> int option" where
  "exit_code r =
     (case r of
        Inr x \<Rightarrow> Some 0
      | Inl Out_of_fuel \<Rightarrow> None
      | Inl (Exn e) \<Rightarrow> Some (if e = KeyboardInterrupt then 130 else 1))"

text \<open>
  The whole process, from the words of its command line: \<open>main\<close> parses them first, and a command line
  that \<open>argparse\<close> rejects, or that asks for the help, ends it before any call.
\<close>

definition tool_process ::
    "'w env \<Rightarrow> process \<Rightarrow> host list \<Rightarrow> cluster_meta \<Rightarrow> (string \<Rightarrow> string option) \<Rightarrow> string list \<Rightarrow>
     'w st \<Rightarrow> trace \<times> int option" where
  "tool_process E p hosts meta environ argv s =
     (case parse_tool_args environ argv of
        Inl e \<Rightarrow> ([], case e of SystemExit n \<Rightarrow> Some n | _ \<Rightarrow> exit_code (Inl (Exn e) :: stop + status_line list))
      | Inr opts \<Rightarrow> (trace_of (main E p hosts meta opts) s, exit_code (result (main E p hosts meta opts) s)))"

subsection \<open>The contract of a session\<close>

locale tool = converting \<Phi> E UNIV k UNIV + discovering \<Phi> E for \<Phi> :: "'w effect" and E :: "'w env" and k :: k8s
begin

lemma obeys_dispatch [intro!]: "obeys \<Phi> (dispatch E meta c refs opts k)"
  unfolding dispatch_def by (auto intro!: obeys_migrate obeys_rollback)

lemma obeys_session: "obeys \<Phi> (session E hosts meta opts k)"
  unfolding session_def unreachable_def by (auto split: option.split)

end

interpretation steady_tool: tool steady E k for E k
  by unfold_locales

interpretation identifying_tool: tool identifying E k for E k
  by unfold_locales

text \<open>No call of a session opens or closes the CQL connection.\<close>

definition inside :: "call \<times> answer \<Rightarrow> bool" where
  "inside ca \<longleftrightarrow> fst ca \<noteq> Cql_shutdown \<and> (\<forall>conn. fst ca \<noteq> Cql_connect conn)"

interpretation inside_reading: reading "calls_in inside" E for E
  by unfold_locales (simp_all add: calls_in_perform inside_def)

interpretation inside_tool: tool "calls_in inside" E k for E k
  by unfold_locales
    (auto simp: api_unfolds inside_def assign_api_host_def
      intro!: calls_in_perform obeys_modify_calls split: sum.split exn.split)

lemma shutdown_run:
  "shutdown E s = (t, s', x) \<Longrightarrow> (\<exists>a. t = [(Cql_shutdown, a)]) \<and> store s' = store s \<and> api_port s' = api_port s"
  by (auto simp: shutdown_def elim!: bindE dest: perform_trace perform_Inr perform_store)

lemma steady_shutdown: "obeys steady (shutdown E)"
  unfolding shutdown_def by (auto intro!: steady_perform)

text \<open>A connection attempt is one call, or none when the options do not yield a configuration.\<close>

lemma connect_run:
  assumes "connect E p opts s = (t, s', x)"
  shows "(t = [] \<or> (\<exists>conn a. connection_of p opts = Inr conn \<and> t = [(Cql_connect conn, a)])) \<and>
    (x = Inr () \<longrightarrow> (\<exists>conn. connection_of p opts = Inr conn \<and> t = [(Cql_connect conn, Done)])) \<and>
    store s' = store s \<and> api_port s' = api_port s \<and> x \<noteq> Inl Out_of_fuel"
proof (cases "connection_of p opts")
  case (Inl e)
  with assms show ?thesis by (auto simp: connect_def)
next
  case (Inr conn)
  with assms have "bind (perform E (Cql_connect conn))
      (\<lambda>a. case a of Done \<Rightarrow> ret () | _ \<Rightarrow> raise DriverError) s = (t, s', x)"
    by (simp add: connect_def)
  then show ?thesis
  proof (cases rule: bindE)
    case (stopped e)
    with perform_trace [OF stopped(1)] perform_store [OF stopped(1)] Inr steadyD [OF steady_perform stopped(1)]
    show ?thesis by auto
  next
    case (went_on t1 s1 a t2)
    with perform_Inr [OF went_on(1)] perform_store [OF went_on(1)] Inr show ?thesis
      by (cases a) auto
  qed
qed

text \<open>How a run of \<open>main\<close> decomposes: no session, or one followed by the shutdown.\<close>

lemma main_cases:
  assumes "main E p hosts meta opts s = (t, s', r)"
  obtains (unconnected) e where "r = Inl e" "e \<noteq> Out_of_fuel"
      "t = [] \<or> (\<exists>conn a. t = [(Cql_connect conn, a)])" "store s' = store s"
    | (connected) conn k s1 t1 s2 r1 a where
      "connection_of p opts = Inr conn"
      "k = k8s_init (service_host p) (service_port p) (token_file p) (namespace_file p)"
      "store s1 = store s" "api_port s1 = opt_api_port opts"
      "session E hosts meta opts k s1 = (t1, s2, r1)" "r1 \<noteq> Inl Out_of_fuel"
      "t = (Cql_connect conn, Done) # t1 @ [(Cql_shutdown, a)]" "store s' = store s2"
      "api_port s' = api_port s2" "r = r1 \<or> (\<exists>e. r = Inl e \<and> e \<noteq> Out_of_fuel)" "\<forall>l. r = Inr l \<longrightarrow> r1 = Inr l"
proof -
  let ?k = "k8s_init (service_host p) (service_port p) (token_file p) (namespace_file p)"
  let ?s = "s\<lparr>api_port := opt_api_port opts\<rparr>"
  have "bind (connect E p opts) (\<lambda>_. finally_do (session E hosts meta opts ?k) (shutdown E)) ?s = (t, s', r)"
    using assms by (auto simp: main_def seq_def set_api_port_def bind_def split: prod.splits sum.splits)
  then show thesis
  proof (cases rule: bindE)
    case (stopped e)
    from connect_run [OF stopped(1)] have "e \<noteq> Out_of_fuel"
      "t = [] \<or> (\<exists>conn a. t = [(Cql_connect conn, a)])" "store s' = store s" by auto
    from unconnected [OF stopped(2) this] show thesis .
  next
    case (went_on t0 s1 u t3)
    from connect_run [OF went_on(1)] obtain conn where conn: "connection_of p opts = Inr conn"
      "t0 = [(Cql_connect conn, Done)]" "store s1 = store s" "api_port s1 = opt_api_port opts" by auto
    from went_on(2) show thesis
    proof (cases rule: finally_doE)
      case endless
      with steadyD [OF steady_tool.obeys_session] show thesis by blast
    next
      case (cleaned t1 s2 r1 t2 x)
      from shutdown_run [OF cleaned(3)] obtain a where
        sd: "t2 = [(Cql_shutdown, a)]" "store s' = store s2" "api_port s' = api_port s2" by blast
      have "x \<noteq> Inl Out_of_fuel" using steadyD [OF steady_shutdown cleaned(3)] by simp
      with cleaned(5) have "r = r1 \<or> (\<exists>e. r = Inl e \<and> e \<noteq> Out_of_fuel)" "\<forall>l. r = Inr l \<longrightarrow> r1 = Inr l"
        by (auto split: sum.splits)
      with connected [OF conn(1) refl conn(3,4) cleaned(1,2) _ sd(2,3)] conn(2) sd(1) went_on(3) cleaned(4)
      show thesis by auto
    qed
  qed
qed

subsection \<open>Discovery, then one of three commands\<close>

lemma discover_nodes_Inr:
  assumes "discover_nodes E hosts k s = (t, s', Inr refs)"
  shows "refs = sort_key (node_key s') (first_occurrences (map host_id hosts))"
  using assms by (auto simp: discover_nodes_def Let_def bind_Inr_iff seq_Inr_iff)

lemma dispatch_pods:
  assumes "dispatch E meta c refs opts k s = (t, s', x)"
  shows "pods_of s' = pods_of s"
proof -
  have "obeys (touches UNIV) (dispatch E meta c refs opts k)"
    unfolding dispatch_def
    by (auto intro!: touching_converting.obeys_migrate [where K = UNIV] touching_converting.obeys_rollback)
  from obeysD [OF this assms] show ?thesis by (simp add: touches_def pods_of_def fun_eq_iff)
qed

text \<open>
  To show that every call of a session is permitted, show it of the command that is dispatched, on
  nodes that are in order; all before it only reads.
\<close>

text \<open>
  A session either ends while it still only reads, or has a discovered topology whose nodes all have
  an address, picks a control node in it and hands over to its command.
\<close>

lemma sessionE:
  assumes run: "session E hosts meta opts k s = (t, s', x)"
  obtains (reading) "\<forall>ca \<in> set t. read_only ca"
  | (commanded) t1 s1 refs t2 s2 control t3 where
      "discover_nodes E hosts k s = (t1, s1, Inr refs)" "resolved (set refs) s1"
      "pick_control E refs None s1 = (t2, s2, Inr (Some control))"
      "dispatch E meta control refs opts k s2 = (t3, s', x)" "t = t1 @ t2 @ t3"
proof -
  from run show thesis unfolding session_def
  proof (cases rule: bindE)
    case (stopped e)
    then show ?thesis by (intro reading) (auto dest: calls_inD [OF quiet_discovering.obeys_discover_nodes])
  next
    case (went_on t1 s1 refs t2)
    let ?pick = "bind (pick_control E refs None) (\<lambda>control. case control of None \<Rightarrow> fatal No_node_answering
        | Some control \<Rightarrow> dispatch E meta control refs opts k)"
    have first: "\<forall>ca \<in> set t1. read_only ca"
      by (auto dest: calls_inD [OF quiet_discovering.obeys_discover_nodes went_on(1)])
    from went_on(2) consider "t2 = []" | "resolved (set refs) s1" "?pick s1 = (t2, s', x)"
      by (auto simp: unreachable_def bind_gets resolved_def filter_empty_conv given_def split: if_splits)
    then show ?thesis
    proof cases
      case 1
      with first went_on(3) show ?thesis by (intro reading) simp
    next
      case 2
      from 2(2) show ?thesis
      proof (cases rule: bindE)
        case (stopped e)
        with first went_on(3) show ?thesis
          by (intro reading) (auto dest: calls_inD [OF quiet_nodes.obeys_pick_control])
      next
        case (went_on t3 s3 other t4)
        have read: "\<forall>ca \<in> set (t1 @ t3). read_only ca"
          using first by (auto dest: calls_inD [OF quiet_nodes.obeys_pick_control went_on(1)])
        show ?thesis
        proof (cases other)
          case None
          with went_on(2,3) read \<open>t = t1 @ t2\<close> show ?thesis by (intro reading) simp
        next
          case (Some control)
          with went_on 2(1) \<open>t = t1 @ t2\<close> \<open>discover_nodes E hosts k s = (t1, s1, Inr refs)\<close>
          show ?thesis by (intro commanded) auto
        qed
      qed
    qed
  qed
qed

lemma session_calls:
  assumes run: "session E hosts meta opts k s = (t, s', x)"
    and past: "api_hosts_confirmed t0 s"
    and harmless: "\<And>past c a. read_only (c, a) \<Longrightarrow> P past c"
    and command: "\<And>control refs past s1 t1.
        control \<in> set refs \<Longrightarrow> set refs = host_id ` set hosts \<Longrightarrow>
        in_order (set refs) (pods_of s1) past s1 \<Longrightarrow> pods_of s1 = pods_of s' \<Longrightarrow>
        dispatch E meta control refs opts k s1 = (t1, s', x) \<Longrightarrow> each_call P past t1"
  shows "each_call P t0 t"
proof -
  have quiet: "each_call P past u" if "\<forall>ca \<in> set u. read_only ca" for past u
    using that harmless by (auto intro!: each_callI)
  from run show ?thesis
  proof (cases rule: sessionE)
    case reading
    then show ?thesis by (rule quiet)
  next
    case (commanded t1 s1 refs t2 s2 control t3)
    have "api_hosts_confirmed ((t0 @ t1) @ t2) s2"
      by (rule identifying_hosts_confirmed
          [OF obeysD [OF identifying_restarting.obeys_pick_control commanded(3)]
            identifying_hosts_confirmed [OF obeysD [OF identifying_discovering.obeys_discover_nodes commanded(1)] past]])
    moreover have "store s2 = store s1" using unchanged_by(4) [OF commanded(3)] .
    ultimately have "in_order (set refs) (pods_of s2) (t0 @ t1 @ t2) s2"
      using commanded(2) by (simp add: in_order_def resolved_def)
    moreover have "control \<in> set refs" using pick_control_Some [OF commanded(3)] by simp
    moreover have "set refs = host_id ` set hosts" using discover_nodes_Inr [OF commanded(1)] by simp
    ultimately have "each_call P (t0 @ t1 @ t2) t3"
      using command commanded(4) dispatch_pods by metis
    moreover have "each_call P t0 t1" "each_call P (t0 @ t1) t2"
      by (rule quiet; auto dest: calls_inD [OF quiet_discovering.obeys_discover_nodes commanded(1)]
          calls_inD [OF quiet_nodes.obeys_pick_control commanded(3)])+
    ultimately show ?thesis by (simp add: commanded(5))
  qed
qed

lemma main_calls:
  assumes run: "main E p hosts meta opts s = (t, s', x)"
    and start: "\<forall>r. api_host (store s r) = None"
    and harmless: "\<And>past c a. read_only (c, a) \<Longrightarrow> P past c"
    and command: "\<And>k control refs past s1 t1 s2 y.
        k = k8s_init (service_host p) (service_port p) (token_file p) (namespace_file p) \<Longrightarrow>
        control \<in> set refs \<Longrightarrow> set refs = host_id ` set hosts \<Longrightarrow>
        in_order (set refs) (pods_of s1) past s1 \<Longrightarrow> pods_of s1 = pods_of s' \<Longrightarrow>
        dispatch E meta control refs opts k s1 = (t1, s2, y) \<Longrightarrow> each_call P past t1"
  shows "each_call P [] t"
  using run
proof (cases rule: main_cases)
  case (unconnected e)
  then show ?thesis using harmless [of "(Cql_connect conn)" for conn] by auto
next
  case (connected conn k s1 t1 s2 r1 a)
  from start connected(3) have "api_hosts_confirmed [(Cql_connect conn, Done)] s1"
    by (simp add: api_hosts_confirmed_def)
  moreover from connected(8) have "pods_of s' = pods_of s2" by (simp add: pods_of_def fun_eq_iff)
  ultimately have "each_call P [(Cql_connect conn, Done)] t1"
    using session_calls [OF connected(5), where P = P] harmless command [OF connected(2)] by metis
  with connected(7) harmless [of "Cql_connect conn" Done] harmless [of Cql_shutdown a] show ?thesis by simp
qed

subsection \<open>The commands\<close>

text \<open>Only the set of nodes matters to what the past must show.\<close>

lemma same_nodes:
  assumes "set refs = host_id ` set hosts"
  shows "all_use mode refs kss past = all_use mode (map host_id hosts) kss past"
    and "can_restart opts k refs pods past = can_restart opts k (map host_id hosts) pods past"
    and "cleared opts k refs pods past = cleared opts k (map host_id hosts) pods past"
    and "rollback_cleared opts k refs pods past = rollback_cleared opts k (map host_id hosts) pods past"
  by (simp_all add: all_use_def can_restart_def cleared_def rollback_cleared_def assms)

lemma status_only_calls:
  assumes "status_only opts" and "dispatch E meta c refs opts k s = (t, s', x)"
    and "\<And>past c a. read_only (c, a) \<Longrightarrow> P past c"
  shows "each_call P t0 t"
  using assms
  by (auto simp: dispatch_def intro!: each_callI dest: calls_inD [OF quiet_consulting.obeys_print_status])

lemma dispatch_finalizes:
  assumes "\<forall>ks \<in> set (keyspaces opts). CHR ''/'' \<notin> set ks"
    and "dispatch E meta c refs opts k s = (t, s', x)"
  shows "each_call (\<lambda>past call. finalizes call \<longrightarrow>
           (if rollback_flag opts then all_use ''vnodes'' refs (keyspaces opts) past
            else all_use ''tablets'' refs (keyspaces opts) past \<and> agreed opts 2 past)) t0 t"
proof (cases "status_only opts")
  case True
  from this assms(2) show ?thesis
    by (rule status_only_calls) (metis not_finalizing_harmless read_only_not_finalizing)
next
  case False
  with assms(2) triple_calls [OF rollback_finalizes] triple_calls [OF migrate_finalizes [OF assms(1)]]
  show ?thesis by (auto simp: dispatch_def split: if_splits)
qed

lemma dispatch_cleared:
  assumes "dispatch E meta c refs opts k s = (t, s', x)"
  shows "each_call (\<lambda>past call. changes call \<longrightarrow>
           (if rollback_flag opts then rollback_cleared opts k refs (pods_of s) past
            else cleared opts k refs (pods_of s) past)) t0 t"
proof (cases "status_only opts")
  case True
  from this assms show ?thesis
    by (rule status_only_calls) (metis read_only_harmless)
next
  case False
  with assms triple_calls [OF rollback_clears refl] triple_calls [OF migrate_cleared refl]
  show ?thesis by (auto simp: dispatch_def split: if_splits)
qed

lemma dispatch_aimed:
  assumes "c \<in> set refs" and "in_order (set refs) pods t0 s"
    and "dispatch E meta c refs opts k s = (t, s', x)"
  shows "each_call (aimed_at (set refs) k pods) t0 t"
proof (cases "status_only opts")
  case True
  with assms(3) show ?thesis
    by (auto simp: dispatch_def dest: calls_inD [OF quiet_consulting.obeys_print_status] intro: aimed_quiet)
next
  case False
  with assms triple_calls [OF rollback_aimed [OF assms(1)] assms(2)]
    triple_calls [OF migrate_aimed [OF assms(1)] assms(2)]
  show ?thesis by (auto simp: dispatch_def split: if_splits)
qed

subsection \<open>What success of the whole program shows\<close>

lemma session_Inr:
  assumes "session E hosts meta opts k s = (t, s', Inr ls)"
  obtains control refs s1 t1 where "set refs = host_id ` set hosts" "set t1 \<subseteq> set t"
    "dispatch E meta control refs opts k s1 = (t1, s', Inr ls)"
proof -
  from assms obtain t1 s1 refs t2 where d: "discover_nodes E hosts k s = (t1, s1, Inr refs)"
    and rest: "(if refs = [] then fatal Topology_empty
     else bind (unreachable refs) (\<lambda>un.
          if un \<noteq> [] then fatal Unreachable_nodes
          else bind (pick_control E refs None) (\<lambda>control.
               case control of
                 None \<Rightarrow> fatal No_node_answering
               | Some control \<Rightarrow> dispatch E meta control refs opts k))) s1 = (t2, s', Inr ls)"
    and t: "t = t1 @ t2"
    unfolding session_def by (rule bind_InrE)
  from rest obtain s3 t3 control t4 where "t2 = t3 @ t4"
    "dispatch E meta control refs opts k s3 = (t4, s', Inr ls)"
    by (auto simp: unreachable_def bind_gets bind_Inr_iff split: if_splits option.splits)
  moreover from discover_nodes_Inr [OF d] have "set refs = host_id ` set hosts" by simp
  ultimately show thesis using that [of refs t4 control s3] t by auto
qed

definition target_mode :: "opts \<Rightarrow> string" where
  "target_mode opts = (if rollback_flag opts then ''vnodes'' else ''tablets'')"

lemma main_Inr:
  assumes "main E p hosts meta opts s = (t, s', Inr ls)" and "\<not> status_only opts"
  shows "all_use (target_mode opts) (map host_id hosts) (keyspaces opts) t \<and>
    all_in_state (JStr (target_mode opts)) (keyspaces opts) t"
  using assms(1)
proof (cases rule: main_cases)
  case (connected conn k s1 t1 s2 r1 a)
  then have "session E hosts meta opts k s1 = (t1, s2, Inr ls)" by simp
  then obtain control refs s3 t2 where refs: "set refs = host_id ` set hosts" "set t2 \<subseteq> set t1"
    "dispatch E meta control refs opts k s3 = (t2, s2, Inr ls)" by (rule session_Inr)
  have "all_use (target_mode opts) refs (keyspaces opts) t2 \<and>
      all_in_state (JStr (target_mode opts)) (keyspaces opts) t2"
    using refs(3) assms(2) migrate_Inr rollback_Inr
    by (fastforce simp: dispatch_def target_mode_def all_in_state_def split: if_splits)
  moreover have "set t2 \<subseteq> set t" using refs(2) connected(7) by auto
  ultimately show ?thesis
    by (auto simp: same_nodes(1) [OF refs(1)] elim: all_use_mono all_in_state_mono)
qed simp

end
