(* ===== verification/Checks.thy ===== *)
theory Checks
  imports Cli
begin

text \<open>
  What the checks before a migration decide: the verdict on a schema against a specification, the
  verdict of the whole preflight, when restarting is considered possible, the decoding of schema
  extensions against an encoder, and the version test against the order of releases.
\<close>

subsection \<open>The schema verdict\<close>

text \<open>
  The specification of a keyspace that may be migrated: NetworkTopologyStrategy; a replication factor
  equal to the rack count in every datacenter, unless rack lists are not enforced; no counters, unless
  this version migrates them; at least one table, none of them a CDC log, all of them using Incremental
  Compaction Strategy.
\<close>

definition may_migrate ::
    "(string \<Rightarrow> nat) \<Rightarrow> (string \<times> string) list \<Rightarrow> ks_meta \<Rightarrow> bool \<Rightarrow> bool \<Rightarrow> bool" where
  "may_migrate racks replication m counters_ok enforced \<longleftrightarrow>
     contains (class_of replication) ''NetworkTopologyStrategy'' \<and>
     (enforced \<longrightarrow> (\<forall>(d, rf) \<in> set replication. d \<noteq> ''class'' \<longrightarrow> rf = dec (racks d))) \<and>
     (counters_ok \<or> (\<forall>(name, table) \<in> set (tables m). \<not> is_counter_table table)) \<and>
     tables m \<noteq> [] \<and>
     (\<forall>(name, table) \<in> set (tables m). \<not> ends_with name ''_scylla_cdc_log'' \<and> is_incremental table)"

lemma replication_blocks:
  "prevents (replication_findings racks enforced row) \<longleftrightarrow>
     (let replication = (case row of None \<Rightarrow> [] | Some r \<Rightarrow> r) in
      \<not> contains (class_of replication) ''NetworkTopologyStrategy'' \<or>
      enforced \<and> (\<exists>(d, rf) \<in> set replication. d \<noteq> ''class'' \<and> rf \<noteq> dec (racks d)))"
  by (force simp: replication_findings_def rf_findings_def prevents_def Let_def split: if_splits)

lemma view_blocks: "\<not> prevents (view_findings m)"
  by (simp add: view_findings_def Let_def)

lemma sorted_nil [simp]: "sort xs = [] \<longleftrightarrow> xs = []"
  by (metis length_0_conv length_sort)

lemma counter_blocks:
  "prevents (counter_findings ok m) \<longleftrightarrow>
     \<not> ok \<and> (\<exists>(name, table) \<in> set (tables m). is_counter_table table)"
  by (auto simp: counter_findings_def Let_def filter_empty_conv)

lemma cdc_blocks:
  "prevents (cdc_findings m) \<longleftrightarrow>
     (\<exists>(name, table) \<in> set (tables m). ends_with name ''_scylla_cdc_log'')"
  by (auto simp: cdc_findings_def Let_def filter_empty_conv)

lemma table_blocks:
  "prevents (table_findings m) \<longleftrightarrow>
     (\<exists>(name, table) \<in> set (tables m). \<not> is_incremental table)"
  by (auto simp: table_findings_def Let_def filter_empty_conv)

lemma schema_verdict:
  "prevents (schema_findings racks row m counters_ok enforced) \<longleftrightarrow>
     \<not> may_migrate racks (case row of None \<Rightarrow> [] | Some r \<Rightarrow> r) m counters_ok enforced"
proof (cases "tables m = []")
  case True
  then show ?thesis by (simp add: schema_findings_def may_migrate_def)
next
  case False
  then show ?thesis
    by (fastforce simp: schema_findings_def may_migrate_def replication_blocks view_blocks
        counter_blocks cdc_blocks table_blocks Let_def)
qed

subsection \<open>The whole preflight\<close>

text \<open>
  What a passed preflight has seen of a keyspace: its metadata and replication make it fit, with
  counters only if a server answered with a release that migrates them, and unequal replication factors
  only if a server answered that rack lists are not enforced.
\<close>

definition answered :: "string \<Rightarrow> (json \<Rightarrow> bool) \<Rightarrow> trace \<Rightarrow> bool" where
  "answered path Q t \<longleftrightarrow>
     (\<exists>h port a j. (Rest ''GET'' h port path [] 30, a) \<in> set t \<and> api_result ''GET'' path a = Inr j \<and> Q j)"

definition seen_fit :: "cluster_meta \<Rightarrow> (string \<Rightarrow> nat) \<Rightarrow> trace \<Rightarrow> string \<Rightarrow> bool" where
  "seen_fit meta racks t ks \<longleftrightarrow>
     \<not> starts_with ks ''alternator_'' \<and>
     (\<exists>m row counters_ok enforced.
        map_of (ks_metas meta) ks = Some m \<and> (Cql_replication ks, Row row) \<in> set t \<and>
        may_migrate racks (case row of None \<Rightarrow> [] | Some r \<Rightarrow> r) m counters_ok enforced \<and>
        (counters_ok \<longrightarrow> answered ''/storage_service/scylla_release_version''
           (\<lambda>j. counters_migrate (parse_version j)) t) \<and>
        (\<not> enforced \<longrightarrow> answered ''/v2/config/enforce_rack_list'' (\<lambda>j. \<not> enforced_value j) t))"

lemma answered_mono: "answered path Q t \<Longrightarrow> set t \<subseteq> set t' \<Longrightarrow> answered path Q t'"
  unfolding answered_def by blast

lemma api_get_answered:
  "api E ''GET'' h path [] 30 s = (t, s', Inr j) \<Longrightarrow> Q j \<Longrightarrow> answered path Q t"
  unfolding answered_def by (erule api_Inr) fastforce

lemma counters_migrate_None [simp]: "\<not> counters_migrate None"
  by (simp add: counters_migrate_def)

lemma counter_migration_supported_True:
  assumes "counter_migration_supported E c s = (t, s', Inr True)"
  shows "answered ''/storage_service/scylla_release_version'' (\<lambda>j. counters_migrate (parse_version j)) t"
proof -
  from assms obtain h j where
    "api E ''GET'' h ''/storage_service/scylla_release_version'' [] 30 s = (t, s', Inr j)"
    and "counters_migrate (parse_version j)"
    by (auto simp: counter_migration_supported_def scylla_version_def host_of_def
        bind_gets bind_Inr_iff elim!: catchE split: option.splits)
  then show ?thesis by (rule api_get_answered)
qed

lemma rack_list_enforced_False:
  assumes "rack_list_enforced E c s = (t, s', Inr False)"
  shows "answered ''/v2/config/enforce_rack_list'' (\<lambda>j. \<not> enforced_value j) t"
  using assms
  by (auto simp: rack_list_enforced_def host_of_def bind_gets bind_Inr_iff elim!: catchE
      intro: api_get_answered)

lemma cql_replication_Inr:
  assumes "cql_replication E ks s = (t, s', Inr row)"
  shows "t = [(Cql_replication ks, Row row)] \<and> store s' = store s"
proof -
  from assms obtain t1 s1 a t2 where p: "perform E (Cql_replication ks) s = (t1, s1, Inr a)"
    and r: "(case a of Row row \<Rightarrow> ret row | _ \<Rightarrow> raise DriverError) s1 = (t2, s', Inr row)" "t = t1 @ t2"
    unfolding cql_replication_def by (rule bind_InrE)
  with perform_Inr [OF p] perform_store [OF p] show ?thesis by (cases a) auto
qed

lemma preflight_True:
  assumes "preflight E meta refs ks ok enf s = (t, s', Inr True)"
  shows "\<not> starts_with ks ''alternator_'' \<and>
    (\<exists>m row. map_of (ks_metas meta) ks = Some m \<and> (Cql_replication ks, Row row) \<in> set t \<and>
       may_migrate (racks_in s refs) (case row of None \<Rightarrow> [] | Some r \<Rightarrow> r) m ok enf)"
proof -
  from assms obtain fs where fs: "preflight_findings E meta refs ks ok enf s = (t, s', Inr fs)"
    "\<not> prevents fs"
    by (auto simp: preflight_def bind_Inr_iff)
  show ?thesis
  proof (cases "starts_with ks ''alternator_'' \<or> map_of (ks_metas meta) ks = None")
    case True
    with fs show ?thesis by (auto simp: preflight_findings_def split: if_splits)
  next
    case False
    then obtain m where m: "map_of (ks_metas meta) ks = Some m" by auto
    with False fs(1) obtain t1 s1 row where row: "cql_replication E ks s = (t1, s1, Inr row)"
      and v: "fs = schema_findings (racks_in s1 refs) row m ok enf" "t = t1"
      by (auto simp: preflight_findings_def bind_Inr_iff)
    from cql_replication_Inr [OF row] have "racks_in s1 refs = racks_in s refs"
      by (simp add: racks_in_def fun_eq_iff)
    with v fs(2) schema_verdict [of "racks_in s refs" row m ok enf] cql_replication_Inr [OF row] m False
    show ?thesis by auto
  qed
qed

text \<open>
  The verdict of a preflight: an Alternator keyspace or one that does not exist is turned down with no
  request, any other by the specification, from the replication that was read.
\<close>

lemma preflight_verdict:
  "result (preflight E meta refs ks ok enf) s =
     (if starts_with ks ''alternator_'' then Inr False
      else case map_of (ks_metas meta) ks of
             None \<Rightarrow> Inr False
           | Some m \<Rightarrow>
               (case result (cql_replication E ks) s of
                  Inl e \<Rightarrow> Inl e
                | Inr row \<Rightarrow>
                    Inr (may_migrate (racks_in s refs) (case row of None \<Rightarrow> [] | Some r \<Rightarrow> r) m ok enf))) \<and>
   trace_of (preflight E meta refs ks ok enf) s =
     (if starts_with ks ''alternator_'' \<or> map_of (ks_metas meta) ks = None then []
      else trace_of (cql_replication E ks) s)"
proof (cases "starts_with ks ''alternator_'' \<or> map_of (ks_metas meta) ks = None")
  case True
  then show ?thesis
    by (auto simp: result_def trace_of_def preflight_def preflight_findings_def)
next
  case False
  then obtain m where m: "map_of (ks_metas meta) ks = Some m" by auto
  obtain t s1 x where run: "cql_replication E ks s = (t, s1, x)" by (cases "cql_replication E ks s") auto
  show ?thesis
  proof (cases x)
    case (Inl e)
    with False m run show ?thesis
      by (simp add: result_def trace_of_def preflight_def preflight_findings_def bind_def)
  next
    case (Inr row)
    with cql_replication_Inr [of E ks s t s1 row] run have "racks_in s1 refs = racks_in s refs"
      by (simp add: racks_in_def fun_eq_iff)
    with False m run Inr schema_verdict [of "racks_in s refs" row m ok enf] show ?thesis
      by (simp add: result_def trace_of_def preflight_def preflight_findings_def bind_def gets_def ret_def)
  qed
qed

text \<open>The loop over the keyspaces, from a state with the nodes as in \<open>s0\<close>.\<close>

lemma classify_keyspace_cases:
  assumes "classify_keyspace E meta c refs ok enf (b1, ps1) ks s1 = (t1, s2, Inr acc')"
  obtains (kept) "acc' = (b1, ps1)"
    | (checked) t2 s3 good t3 where "store s3 = store s1" "preflight E meta refs ks ok enf s3 = (t3, s2, Inr good)"
        "acc' = (b1 \<or> \<not> good, ps1 @ [ks])" "t1 = t2 @ t3"
proof -
  from assms obtain t2 s3 v t3 where st: "read_state E c ks s1 = (t2, s3, Inr v)"
    and rest: "(if v = JStr ''vnodes'' then bind (preflight E meta refs ks ok enf) (\<lambda>good. ret (b1 \<or> \<not> good, ps1 @ [ks]))
      else if v = JStr ''migrating_to_tablets'' then ret (b1, ps1)
      else if v = JStr ''tablets'' then fatal (Already_tablets ks)
      else fatal (Unexpected_state ks v)) s3 = (t3, s2, Inr acc')" and t1: "t1 = t2 @ t3"
    unfolding classify_keyspace_def prod.case by (rule bind_InrE)
  show thesis
  proof (cases "v = JStr ''vnodes''")
    case False
    with rest show thesis by (intro kept) (auto split: if_splits)
  next
    case True
    with rest obtain good where "preflight E meta refs ks ok enf s3 = (t3, s2, Inr good)"
      "acc' = (b1 \<or> \<not> good, ps1 @ [ks])" by (auto simp: bind_Inr_iff)
    moreover have "obeys (touches {}) (read_state E c ks)"
      unfolding read_state_def by (auto split: exn.split)
    from untouched [OF this st] have "store s3 = store s1" .
    ultimately show thesis using t1 by (intro checked)
  qed
qed

lemma classify_fit:
  assumes run: "fold_m (classify_keyspace E meta c refs ok enf) (b, []) kss s = (t, s', Inr (b', ps))"
    and "\<not> b'" and "store s = store s0"
    and "ok \<Longrightarrow> answered ''/storage_service/scylla_release_version'' (\<lambda>j. counters_migrate (parse_version j)) u"
    and "\<not> enf \<Longrightarrow> answered ''/v2/config/enforce_rack_list'' (\<lambda>j. \<not> enforced_value j) u"
  shows "\<not> b" and "\<forall>ks \<in> set ps. seen_fit meta (racks_in s0 refs) (u @ t) ks"
proof -
  define P where "P = (\<lambda>(acc :: bool \<times> string list) (pre :: string list) (s :: 'a st). store s = store s0 \<and>
    (\<not> fst acc \<longrightarrow> \<not> b \<and> (\<forall>ks \<in> set (snd acc). seen_fit meta (racks_in s0 refs) (u @ t) ks)))"
  have "P (b', ps) kss s'"
  proof (rule fold_m_Inr_state [OF run])
    show "P (b, []) [] s" using assms(3) by (simp add: P_def)
  next
    fix pre ks acc acc' s1 t1 s2
    assume prev: "P acc pre s1" and step: "classify_keyspace E meta c refs ok enf acc ks s1 = (t1, s2, Inr acc')"
      and sub: "set t1 \<subseteq> set t"
    have same: "store s2 = store s1"
      by (rule untouched [OF touching_converting.obeys_classify_keyspace step])
    obtain b1 ps1 where acc: "acc = (b1, ps1)" by force
    from step [unfolded acc] show "P acc' (pre @ [ks]) s2"
    proof (cases rule: classify_keyspace_cases)
      case kept
      with prev same show ?thesis by (simp add: P_def acc)
    next
      case (checked t2 s3 good t3)
      have "seen_fit meta (racks_in s0 refs) (u @ t) ks" if good
      proof -
        from checked(1) prev have "racks_in s3 refs = racks_in s0 refs"
          by (simp add: P_def racks_in_def fun_eq_iff)
        with preflight_True [of E meta refs ks ok enf s3 t3 s2] checked(2) that obtain m row where
          "\<not> starts_with ks ''alternator_''" "map_of (ks_metas meta) ks = Some m"
          "(Cql_replication ks, Row row) \<in> set t3"
          "may_migrate (racks_in s0 refs) (case row of None \<Rightarrow> [] | Some r \<Rightarrow> r) m ok enf" by auto
        moreover have "ok \<longrightarrow> answered ''/storage_service/scylla_release_version''
            (\<lambda>j. counters_migrate (parse_version j)) (u @ t)"
          using answered_mono [OF assms(4), of "u @ t"] by simp
        moreover have "\<not> enf \<longrightarrow> answered ''/v2/config/enforce_rack_list'' (\<lambda>j. \<not> enforced_value j) (u @ t)"
          using answered_mono [OF assms(5), of "u @ t"] by simp
        moreover have "set t3 \<subseteq> set (u @ t)" using checked(4) sub by auto
        ultimately show ?thesis unfolding seen_fit_def by blast
      qed
      with prev acc checked(3) same show ?thesis by (auto simp: P_def)
    qed
  qed
  with \<open>\<not> b'\<close> show "\<not> b" "\<forall>ks \<in> set ps. seen_fit meta (racks_in s0 refs) (u @ t) ks"
    by (simp_all add: P_def)
qed

text \<open>The steps of a preflight phase that returned without -F.\<close>

lemma preflight_phase_InrE:
  assumes "preflight_phase E meta c refs opts k s = (t, s', Inr ps)" and "\<not> force opts"
  obtains t1 s1 t3 s3 t5 s5 ok t7 s7 enf t8 where
    "check_cluster_up E c refs s = (t1, s1, Inr True)"
    "check_restart_capability E refs opts k s1 = (t3, s3, Inr ())"
    "counter_migration_supported E c s3 = (t5, s5, Inr ok)"
    "rack_list_enforced E c s5 = (t7, s7, Inr enf)"
    "fold_m (classify_keyspace E meta c refs ok enf) (False, []) (keyspaces opts) s7 = (t8, s', Inr (False, ps))"
    "t = t1 @ t3 @ t5 @ t7 @ t8"
proof -
  from assms(1) obtain t1 s1 up t2 where up: "check_cluster_up E c refs s = (t1, s1, Inr up)"
    and r1: "(if \<not> up \<and> \<not> force opts then fatal Cluster_not_up
     else
       seq (check_restart_capability E refs opts k)
      (bind (counter_migration_supported E c) (\<lambda>counters_ok.
       bind (rack_list_enforced E c) (\<lambda>enforced.
       bind (fold_m (classify_keyspace E meta c refs counters_ok enforced)
               (\<not> up, []) (keyspaces opts)) (\<lambda>(blocked, to_prepare).
       if blocked \<and> \<not> force opts then fatal Preflight_failed else ret to_prepare))))) s1 = (t2, s', Inr ps)"
    and t: "t = t1 @ t2"
    unfolding preflight_phase_def by (rule bind_InrE)
  from r1 assms(2) have up_True: "up" by (auto split: if_splits)
  with r1 obtain t3 s3 t4 where cap: "check_restart_capability E refs opts k s1 = (t3, s3, Inr ())"
    and r2: "(bind (counter_migration_supported E c) (\<lambda>counters_ok.
       bind (rack_list_enforced E c) (\<lambda>enforced.
       bind (fold_m (classify_keyspace E meta c refs counters_ok enforced)
               (False, []) (keyspaces opts)) (\<lambda>(blocked, to_prepare).
       if blocked \<and> \<not> force opts then fatal Preflight_failed else ret to_prepare)))) s3 = (t4, s', Inr ps)"
    and t2: "t2 = t3 @ t4"
    by (auto elim: seq_InrE)
  from r2 obtain t5 s5 ok t6 where ok: "counter_migration_supported E c s3 = (t5, s5, Inr ok)"
    and r3: "bind (rack_list_enforced E c) (\<lambda>enforced.
       bind (fold_m (classify_keyspace E meta c refs ok enforced)
               (False, []) (keyspaces opts)) (\<lambda>(blocked, to_prepare).
       if blocked \<and> \<not> force opts then fatal Preflight_failed else ret to_prepare)) s5 = (t6, s', Inr ps)"
    and t4: "t4 = t5 @ t6" by (rule bind_InrE)
  from r3 obtain t7 s7 enf t8 where enf: "rack_list_enforced E c s5 = (t7, s7, Inr enf)"
    and r4: "bind (fold_m (classify_keyspace E meta c refs ok enf)
               (False, []) (keyspaces opts)) (\<lambda>(blocked, to_prepare).
       if blocked \<and> \<not> force opts then fatal Preflight_failed else ret to_prepare) s7 = (t8, s', Inr ps)"
    and t6: "t6 = t7 @ t8" by (rule bind_InrE)
  from r4 assms(2) have fold: "fold_m (classify_keyspace E meta c refs ok enf) (False, []) (keyspaces opts) s7
      = (t8, s', Inr (False, ps))"
    by (auto simp: bind_Inr_iff split: if_splits)
  from that [OF _ cap ok enf fold] up up_True show thesis by (simp add: t t2 t4 t6)
qed

lemma unforced_preflight_phase:
  assumes "preflight_phase E meta c refs opts k s = (t, s', Inr ps)" and "\<not> force opts"
  shows "result (check_cluster_up E c refs) s = Inr True \<and>
    (\<forall>ks \<in> set ps. seen_fit meta (racks_in s refs) t ks)"
proof -
  from assms obtain t1 s1 t3 s3 t5 s5 ok t7 s7 enf t8 where
    up: "check_cluster_up E c refs s = (t1, s1, Inr True)"
    and cap: "check_restart_capability E refs opts k s1 = (t3, s3, Inr ())"
    and ok: "counter_migration_supported E c s3 = (t5, s5, Inr ok)"
    and enf: "rack_list_enforced E c s5 = (t7, s7, Inr enf)"
    and fold: "fold_m (classify_keyspace E meta c refs ok enf) (False, []) (keyspaces opts) s7 = (t8, s', Inr (False, ps))"
    and t: "t = t1 @ t3 @ t5 @ t7 @ t8"
    by (rule preflight_phase_InrE)
  have "store s1 = store s" by (rule untouched [OF touching_converting.obeys_check_cluster_up up])
  also have "store s3 = store s1"
    by (rule untouched [OF touching_restarting.obeys_check_restart_capability cap])
  finally (trans [rotated]) have "store s3 = store s" .
  moreover have "store s5 = store s3"
    by (rule untouched [OF touching_converting.obeys_counter_migration_supported ok])
  moreover have "store s7 = store s5"
    by (rule untouched [OF touching_converting.obeys_rack_list_enforced enf])
  ultimately have same: "store s7 = store s" by simp
  have "\<forall>ks \<in> set ps. seen_fit meta (racks_in s refs) ((t1 @ t3 @ t5 @ t7) @ t8) ks"
  proof (rule classify_fit(2) [OF fold _ same])
    assume ok_True: "ok"
    with ok have "counter_migration_supported E c s3 = (t5, s5, Inr True)" by simp
    from counter_migration_supported_True [OF this]
    show "answered ''/storage_service/scylla_release_version'' (\<lambda>j. counters_migrate (parse_version j))
        (t1 @ t3 @ t5 @ t7)" by (rule answered_mono) auto
  next
    assume "\<not> enf"
    with enf have "rack_list_enforced E c s5 = (t7, s7, Inr False)" by simp
    from rack_list_enforced_False [OF this]
    show "answered ''/v2/config/enforce_rack_list'' (\<lambda>j. \<not> enforced_value j) (t1 @ t3 @ t5 @ t7)"
      by (rule answered_mono) auto
  qed simp
  with up t show ?thesis by (simp add: result_def)
qed

subsection \<open>Schema extensions\<close>

text \<open>The encoding the decoder's documentation describes: the count, then length-prefixed strings.\<close>

definition encode_string :: "string \<Rightarrow> byte list" where
  "encode_string s = le_bytes 4 (length s) @ utf8_bytes s"

definition encode_extension :: "(string \<times> string) list \<Rightarrow> byte list" where
  "encode_extension kvs =
     le_bytes 4 (length kvs) @ concat (map (\<lambda>(k, v). encode_string k @ encode_string v) kvs)"

definition encodable :: "string \<Rightarrow> bool" where
  "encodable s \<longleftrightarrow> length s < 256 ^ 4 \<and> well_formed (utf8_bytes s)"

lemma length_utf8_bytes [simp]: "length (utf8_bytes s) = length s"
  by (simp add: utf8_bytes_def)

lemma read_strings_encoded:
  assumes "\<forall>s \<in> set ss. encodable s" and "length pre = offset"
  shows "read_strings (length ss) (pre @ concat (map encode_string ss) @ post) offset = ss"
  using assms
proof (induction ss arbitrary: pre offset)
  case Nil
  then show ?case by simp
next
  case (Cons s ss)
  let ?rest = "concat (map encode_string ss) @ post"
  let ?blob = "pre @ encode_string s @ ?rest"
  have size: "from_le (slice ?blob offset (offset + 4)) = length s"
  proof -
    have "slice (pre @ le_bytes 4 (length s) @ utf8_bytes s @ ?rest) offset (offset + length (le_bytes 4 (length s)))
        = le_bytes 4 (length s)"
      using Cons.prems(2) by (rule slice_at)
    with Cons.prems(1) from_le_bytes [of "length s" 4] show ?thesis
      by (simp add: encode_string_def encodable_def)
  qed
  have body: "slice ?blob (offset + 4) (offset + 4 + length s) = utf8_bytes s"
    using slice_at [of "pre @ le_bytes 4 (length s)" "offset + 4" "utf8_bytes s" ?rest] Cons.prems(2)
    by (simp add: encode_string_def)
  have next_offset: "length (pre @ encode_string s) = offset + 4 + length s"
    using Cons.prems(2) by (simp add: encode_string_def)
  from Cons.prems(1) Cons.IH [OF _ next_offset]
  have "read_strings (length ss) ?blob (offset + 4 + length s) = ss" by simp
  moreover from Cons.prems(1) have "decode_replace (utf8_bytes s) = s"
    by (simp add: encodable_def decode_replace_well_formed)
  ultimately show ?case using size body by (simp add: Let_def)
qed

lemma every_second_pairs:
  "zip (every_second (concat (map (\<lambda>(k, v). [k, v]) kvs)))
       (every_second (drop 1 (concat (map (\<lambda>(k, v). [k, v]) kvs)))) = kvs"
proof (induction kvs)
  case Nil
  then show ?case by simp
next
  case (Cons kv kvs)
  then show ?case by (cases kv; cases kvs) auto
qed

lemma decode_encode_extension:
  assumes "length kvs < 256 ^ 4" and "\<forall>(k, v) \<in> set kvs. encodable k \<and> encodable v"
    and "distinct (map fst kvs)"
  shows "decode_extension (encode_extension kvs @ post) = kvs"
proof -
  let ?ss = "concat (map (\<lambda>(k, v). [k, v]) kvs)"
  have bytes: "encode_extension kvs = le_bytes 4 (length kvs) @ concat (map encode_string ?ss)"
    by (induction kvs) (auto simp: encode_extension_def)
  have length: "length ?ss = length kvs * 2"
    by (induction kvs) auto
  have "from_le (slice (encode_extension kvs @ post) 0 4) = length kvs"
    using from_le_bytes [OF assms(1)] by (simp add: bytes slice_def)
  moreover have "read_strings (length ?ss) (le_bytes 4 (length kvs) @ concat (map encode_string ?ss) @ post) 4 = ?ss"
    by (rule read_strings_encoded) (use assms(2) in auto)
  then have "read_strings (length kvs * 2) (encode_extension kvs @ post) 4 = ?ss"
    by (simp add: bytes length)
  ultimately show ?thesis
    using every_second_pairs [of kvs] by (simp add: decode_extension_def Let_def dict_of_distinct [OF assms(3)])
qed

subsection \<open>Releases\<close>

text \<open>A release prints as \<open>major.minor\<close>, then possibly more after another dot.\<close>

lemma parse_version_text:
  assumes "rest = [] \<or> hd rest = CHR ''.''"
  shows "parse_version (JStr (dec a @ CHR ''.'' # dec b @ rest)) = Some (Version (int a) (int b))"
proof -
  obtain ws where "split_on CHR ''.'' (dec b @ rest) = dec b # ws"
  proof (cases rest)
    case Nil
    with that [of "[]"] show thesis by (simp add: split_on_single dec_no_dot)
  next
    case (Cons c r)
    with assms that show thesis by (simp add: split_on_append dec_no_dot)
  qed
  then have "split_on CHR ''.'' (dec a @ CHR ''.'' # dec b @ rest) = dec a # dec b # ws"
    by (simp add: split_on_append dec_no_dot)
  then show ?thesis by (simp add: parse_version_def py_int_dec)
qed

lemma counters_migrate_order: "counters_migrate (Some v) \<longleftrightarrow> Version 2026 3 \<le> v"
  by (cases v) (auto simp: counters_migrate_def less_eq_version_def)

end
