(* ===== verification/Behaviour.thy ===== *)
theory Behaviour
  imports Checks
begin

text \<open>
  What the single operations do: which addresses are asked and which one is taken, which control node
  is picked, when a wait gives up, and the order of events in a restart that succeeded.
\<close>

subsection \<open>Resolving an address\<close>

definition ask_id :: "int \<Rightarrow> string \<Rightarrow> call" where
  "ask_id port a = Rest ''GET'' a port hostid_path [] 5"

definition says :: "ref \<Rightarrow> call \<times> answer \<Rightarrow> bool" where
  "says r ca \<longleftrightarrow> api_result ''GET'' hostid_path (snd ca) = Inr (JStr r)"

lemma ask_run:
  assumes "catch net_exn (bind (api E ''GET'' a hostid_path [] 5) (\<lambda>j. ret (j = JStr r))) (\<lambda>_. ret False) s
    = (t, s', Inr found)"
  shows "\<exists>x. t = [(ask_id (api_port s) a, x)] \<and> found = says r (ask_id (api_port s) a, x)"
proof -
  let ?ask = "bind (perform E (ask_id (api_port s) a)) (\<lambda>x.
      case api_result ''GET'' hostid_path x of Inl e \<Rightarrow> raise e | Inr j \<Rightarrow> ret j)"
  have run: "api E ''GET'' a hostid_path [] 5 s = ?ask s"
    by (simp add: api_def bind_gets ask_id_def)
  from assms show ?thesis
  proof (cases rule: catchE)
    case passed
    then obtain j where "api E ''GET'' a hostid_path [] 5 s = (t, s', Inr j)" "found = (j = JStr r)"
      by (auto simp: bind_Inr_iff)
    then show ?thesis by (auto simp: says_def ask_id_def elim!: api_Inr)
  next
    case (caught t1 s1 e t2)
    then have fail: "?ask s = (t1, s1, Inl (Exn e))" "net_exn e" "found = False" "t = t1"
      by (auto simp: bind_Inl_iff run)
    then obtain x where "perform E (ask_id (api_port s) a) s = (t1, s1, Inr x)"
      "api_result ''GET'' hostid_path x = Inl e"
      by (auto simp: bind_Inl_iff perform_def split: prod.splits if_splits sum.splits)
    with fail perform_Inr [OF this(1)] show ?thesis by (auto simp: says_def)
  qed
qed

lemma ask_port:
  "catch net_exn (bind (api E ''GET'' a hostid_path [] 5) (\<lambda>j. ret (j = JStr r))) (\<lambda>_. ret False) s
    = (t, s', x) \<Longrightarrow> api_port s' = api_port s"
  by (auto elim!: catchE bindE dest: api_port_store)

lemma resolve_among_run:
  assumes "resolve_among E r as s = (t, s', Inr found)"
  shows "map fst t = map (ask_id (api_port s)) (take (length t) as) \<and>
    (case found of
       None \<Rightarrow> length t = length as \<and> (\<forall>ca \<in> set t. \<not> says r ca)
     | Some a \<Rightarrow> t \<noteq> [] \<and> length t \<le> length as \<and> a = as ! (length t - 1) \<and> says r (last t) \<and>
                (\<forall>ca \<in> set (butlast t). \<not> says r ca))"
  using assms
proof (induction as arbitrary: s t)
  case Nil
  then show ?case by simp
next
  case (Cons a as)
  from Cons.prems obtain t1 s1 up t2 where
    ask: "catch net_exn (bind (api E ''GET'' a hostid_path [] 5) (\<lambda>j. ret (j = JStr r))) (\<lambda>_. ret False) s
      = (t1, s1, Inr up)"
    and rest: "(if up then ret (Some a) else resolve_among E r as) s1 = (t2, s', Inr found)"
    and t: "t = t1 @ t2"
    by (auto simp: bind_Inr_iff)
  from ask_run [OF ask] obtain x where x: "t1 = [(ask_id (api_port s) a, x)]"
    "up = says r (ask_id (api_port s) a, x)" by blast
  show ?case
  proof (cases up)
    case True
    with rest have "found = Some a" "t2 = []" by auto
    with True t x show ?thesis by simp
  next
    case False
    with rest have "resolve_among E r as s1 = (t2, s', Inr found)" by simp
    from Cons.IH [OF this] False t x ask_port [OF ask] show ?thesis
      by (auto split: option.splits simp: nth_Cons')
  qed
qed

subsection \<open>Picking a control node\<close>

text \<open>The address \<open>h\<close> has answered \<open>api_alive\<close> in \<open>t\<close>, or has failed to.\<close>

definition answers :: "int \<Rightarrow> string \<Rightarrow> trace \<Rightarrow> bool" where
  "answers port h t \<longleftrightarrow>
     (\<exists>(c, a) \<in> set t. c = ask_id port h \<and> (case api_result ''GET'' hostid_path a of Inr j \<Rightarrow> True | Inl e \<Rightarrow> False))"

definition fails :: "int \<Rightarrow> string \<Rightarrow> trace \<Rightarrow> bool" where
  "fails port h t \<longleftrightarrow>
     (\<exists>(c, a) \<in> set t. c = ask_id port h \<and> (case api_result ''GET'' hostid_path a of Inr j \<Rightarrow> False | Inl e \<Rightarrow> True))"

lemma answers_append [simp]: "answers port h (t @ t') \<longleftrightarrow> answers port h t \<or> answers port h t'"
  unfolding answers_def set_append by blast

lemma fails_append [simp]: "fails port h (t @ t') \<longleftrightarrow> fails port h t \<or> fails port h t'"
  unfolding fails_def set_append by blast

lemma api_alive_run:
  assumes "api_alive E h s = (t, s', Inr up)"
  shows "(if up then answers (api_port s) h t else fails (api_port s) h t) \<and>
    store s' = store s \<and> api_port s' = api_port s"
proof -
  from assms have "if up then answers (api_port s) h t else fails (api_port s) h t"
    unfolding api_alive_def
  proof (cases rule: catchE)
    case passed
    then obtain j where "api E ''GET'' h hostid_path [] 5 s = (t, s', Inr j)" "up"
      by (auto simp: bind_Inr_iff)
    then show ?thesis by (auto simp: answers_def ask_id_def elim!: api_Inr)
  next
    case (caught t1 s1 e t2)
    then have fail: "api E ''GET'' h hostid_path [] 5 s = (t1, s1, Inl (Exn e))" "\<not> up" "t = t1" "net_exn e"
      by (auto simp: bind_Inl_iff)
    then obtain x where "perform E (ask_id (api_port s) h) s = (t1, s1, Inr x)"
      "api_result ''GET'' hostid_path x = Inl e"
      by (auto simp: api_def bind_gets bind_Inl_iff ask_id_def perform_def
          split: prod.splits if_splits sum.splits)
    with fail perform_Inr [OF this(1)] show ?thesis by (auto simp: fails_def)
  qed
  with api_alive_store [OF assms] show ?thesis by simp
qed

definition passed_over :: "'w st \<Rightarrow> ref option \<Rightarrow> trace \<Rightarrow> ref \<Rightarrow> bool" where
  "passed_over s x t q \<longleftrightarrow>
     x = Some q \<or> \<not> given (api_host (store s q)) \<or> fails (api_port s) (the (api_host (store s q))) t"

lemma passed_over_more: "passed_over s x t q \<or> passed_over s x t' q \<Longrightarrow> passed_over s x (t @ t') q"
  by (auto simp: passed_over_def)

lemma passed_over_cong:
  "store s1 = store s \<Longrightarrow> api_port s1 = api_port s \<Longrightarrow> passed_over s1 = (passed_over s :: ref option \<Rightarrow> trace \<Rightarrow> ref \<Rightarrow> bool)"
  by (simp add: passed_over_def fun_eq_iff)

definition picked :: "ref list \<Rightarrow> 'w st \<Rightarrow> ref option \<Rightarrow> trace \<Rightarrow> ref option \<Rightarrow> bool" where
  "picked refs s x t found \<longleftrightarrow>
     (case found of
        None \<Rightarrow> \<forall>q \<in> set refs. passed_over s x t q
      | Some r \<Rightarrow> \<exists>pre post. refs = pre @ r # post \<and> x \<noteq> Some r \<and>
          answers (api_port s) (the (api_host (store s r))) t \<and> (\<forall>q \<in> set pre. passed_over s x t q))"

lemma picked_here: "x \<noteq> Some r \<Longrightarrow> answers (api_port s) (the (api_host (store s r))) t \<Longrightarrow> picked (r # rs) s x t (Some r)"
  unfolding picked_def option.case by (rule exI [of _ "[]"], rule exI [of _ rs]) simp

lemma picked_later:
  assumes "picked rs s1 x t2 found" and "passed_over s x t1 r"
    and "store s1 = store s" and "api_port s1 = api_port s"
  shows "picked (r # rs) s x (t1 @ t2) found"
proof (cases found)
  case None
  with assms show ?thesis
    by (auto simp: picked_def passed_over_cong [OF assms(3,4)] intro: passed_over_more)
next
  case (Some q)
  with assms(1) obtain pre post where "rs = pre @ q # post" "x \<noteq> Some q"
    "answers (api_port s1) (the (api_host (store s1 q))) t2" "\<forall>q \<in> set pre. passed_over s1 x t2 q"
    by (auto simp: picked_def)
  with assms show ?thesis unfolding picked_def Some option.case
    by (intro exI [of _ "r # pre"] exI [of _ post])
      (auto simp: passed_over_cong [OF assms(3,4)] intro: passed_over_more)
qed

lemma pick_control_run:
  "pick_control E refs x s = (t, s', Inr found) \<Longrightarrow> picked refs s x t found"
proof (induction refs arbitrary: s t)
  case Nil
  then show ?case by (simp add: picked_def)
next
  case (Cons r rs)
  show ?case
  proof (cases "x = Some r \<or> \<not> given (api_host (store s r))")
    case True
    with Cons.prems have "pick_control E rs x s = (t, s', Inr found)"
      by (auto simp: bind_gets split: if_splits)
    note rest = Cons.IH [OF this]
    from True have "passed_over s x [] r" by (auto simp: passed_over_def)
    from picked_later [OF rest this refl refl] show ?thesis by simp
  next
    case False
    with Cons.prems obtain t1 s1 up t2 where alive: "api_alive E (the (api_host (store s r))) s = (t1, s1, Inr up)"
      and rest: "(if up then ret (Some r) else pick_control E rs x) s1 = (t2, s', Inr found)"
      and t: "t = t1 @ t2"
      by (auto simp: bind_gets bind_Inr_iff)
    from api_alive_run [OF alive] have same: "store s1 = store s" "api_port s1 = api_port s"
      and hd: "if up then answers (api_port s) (the (api_host (store s r))) t1
               else fails (api_port s) (the (api_host (store s r))) t1" by simp_all
    show ?thesis
    proof (cases up)
      case True
      with rest have "found = Some r" "t2 = []" by auto
      with True hd False t show ?thesis by (simp add: picked_here)
    next
      case nup: False
      with rest have "pick_control E rs x s1 = (t2, s', Inr found)" by simp
      from picked_later [OF Cons.IH [OF this] _ same] hd nup t show ?thesis
        by (simp add: passed_over_def)
    qed
  qed
qed

subsection \<open>Waiting\<close>

lemma wait_node_mode_result:
  assumes "wait_node_mode E c r kss want timeout s = (t, s', Inr reached)"
  shows "(reached \<longrightarrow> (\<forall>ks \<in> set kss. observed ks r (Uses (JStr want)) t)) \<and>
    (\<not> reached \<longrightarrow> clock s + timeout * second \<le> clock s')"
  using assms wait_node_mode_observed [of E c r kss want timeout s t s']
    poll_until_False [of E "uses_everywhere E c r kss want" timeout POLL_INTERVAL s t s']
  by (cases reached) (auto simp: wait_node_mode_def)

subsection \<open>A restart, step by step\<close>

text \<open>
  The run \<open>t\<close> from \<open>s\<close> to \<open>s'\<close> ended with the node serving: the address \<open>h\<close> the node now has is one it
  had before or one that has given its host ID meanwhile, and in the last two requests the node at \<open>h\<close>
  itself answered that it accepts clients, and the control node that \<open>h\<close> is live.
\<close>

definition serving :: "ref \<Rightarrow> ref \<Rightarrow> 'w st \<Rightarrow> trace \<Rightarrow> 'w st \<Rightarrow> bool" where
  "serving r c s t s' \<longleftrightarrow>
     (\<exists>h pre native a live.
        api_host (store s' r) = Some h \<and>
        (api_host (store s r) = Some h \<or> confirmed (api_port s) r h t) \<and>
        t = pre @
          [(Rest ''GET'' h (api_port s) ''/storage_service/native_transport'' [] 30, native),
           (Rest ''GET'' (text_of (api_host (store s' c))) (api_port s) ''/gossiper/endpoint/live'' [] 30, a)] \<and>
        api_result ''GET'' ''/storage_service/native_transport'' native = Inr (JBool True) \<and>
        api_result ''GET'' ''/gossiper/endpoint/live'' a = Inr live \<and> jcontains live h = Inr True)"

text \<open>What came before may have found the address.\<close>

lemma serving_later:
  assumes "identifying s t1 s1 x" and "serving r c s1 t2 s'"
  shows "serving r c s (t1 @ t2) s'"
proof -
  from assms(1) have port: "api_port s1 = api_port s"
    and hosts: "\<And>r h. api_host (store s1 r) = Some h \<Longrightarrow> api_host (store s r) = Some h \<or> confirmed (api_port s) r h t1"
    by (simp_all add: identifying_def)
  from assms(2) obtain h pre native a live where
    h: "api_host (store s' r) = Some h" "api_host (store s1 r) = Some h \<or> confirmed (api_port s1) r h t2"
    and t2: "t2 = pre @
          [(Rest ''GET'' h (api_port s1) ''/storage_service/native_transport'' [] 30, native),
           (Rest ''GET'' (text_of (api_host (store s' c))) (api_port s1) ''/gossiper/endpoint/live'' [] 30, a)]"
    and said: "api_result ''GET'' ''/storage_service/native_transport'' native = Inr (JBool True)"
      "api_result ''GET'' ''/gossiper/endpoint/live'' a = Inr live" "jcontains live h = Inr True"
    unfolding serving_def by blast
  have "api_host (store s r) = Some h \<or> confirmed (api_port s) r h (t1 @ t2)"
    using h(2) hosts [of r h] port by auto
  moreover have "t1 @ t2 = (t1 @ pre) @
          [(Rest ''GET'' h (api_port s) ''/storage_service/native_transport'' [] 30, native),
           (Rest ''GET'' (text_of (api_host (store s' c))) (api_port s) ''/gossiper/endpoint/live'' [] 30, a)]"
    using t2 port by simp
  ultimately show ?thesis unfolding serving_def using h(1) said by blast
qed

lemma native_and_live_Inr:
  assumes "native_and_live E c r s = (t, s', Inr (Some live))"
  shows "store s' = store s \<and> (\<exists>native a.
    t = [(Rest ''GET'' (text_of (api_host (store s r))) (api_port s) ''/storage_service/native_transport'' [] 30, native),
         (Rest ''GET'' (text_of (api_host (store s c))) (api_port s) ''/gossiper/endpoint/live'' [] 30, a)] \<and>
    api_result ''GET'' ''/storage_service/native_transport'' native = Inr (JBool True) \<and>
    api_result ''GET'' ''/gossiper/endpoint/live'' a = Inr live)"
proof -
  have "bind (host_of r) (\<lambda>h.
        bind (api E ''GET'' h ''/storage_service/native_transport'' [] 30) (\<lambda>native.
        if native \<noteq> JBool True then ret None
        else bind (host_of c) (\<lambda>hc.
             bind (api E ''GET'' hc ''/gossiper/endpoint/live'' [] 30) (\<lambda>live. ret (Some live)))))
      s = (t, s', Inr (Some live))"
    using assms unfolding native_and_live_def by (cases rule: catchE) auto
  then have "bind (api E ''GET'' (text_of (api_host (store s r))) ''/storage_service/native_transport'' [] 30) (\<lambda>native.
        if native \<noteq> JBool True then ret None
        else bind (host_of c) (\<lambda>hc.
             bind (api E ''GET'' hc ''/gossiper/endpoint/live'' [] 30) (\<lambda>live. ret (Some live))))
      s = (t, s', Inr (Some live))"
    by (simp add: host_of_def [of r] bind_gets)
  then obtain s1 t1 native t2 where
    n: "api E ''GET'' (text_of (api_host (store s r))) ''/storage_service/native_transport'' [] 30 s = (t1, s1, Inr native)"
    and l: "(if native \<noteq> JBool True then ret None
        else bind (host_of c) (\<lambda>hc.
             bind (api E ''GET'' hc ''/gossiper/endpoint/live'' [] 30) (\<lambda>live. ret (Some live))))
        s1 = (t2, s', Inr (Some live))"
    and t: "t = t1 @ t2" by (rule bind_InrE)
  from l have native: "native = JBool True" by (auto split: if_splits)
  from api_port_store [OF n] have same: "store s1 = store s" "api_port s1 = api_port s" by simp_all
  from l native same have
    g: "api E ''GET'' (text_of (api_host (store s c))) ''/gossiper/endpoint/live'' [] 30 s1 = (t2, s', Inr live)"
    by (auto simp: host_of_def bind_gets bind_Inr_iff)
  from n g show ?thesis using t native same by (auto elim!: api_Inr)
qed

lemma node_back_up_serving:
  assumes "node_back_up E c r k s = (t, s', Inr True)"
  shows "serving r c s t s'"
proof -
  from assms obtain t1 s1 t2 live where up: "refresh_api_host E r c k s = (t1, s1, Inr True)"
    and n: "native_and_live E c r s1 = (t2, s', Inr (Some live))"
    and c: "jcontains live (text_of (api_host (store s' r))) = Inr True" and t: "t = t1 @ t2"
    by (auto simp: node_back_up_def bind_Inr_iff host_of_def bind_gets lift_Inr_iff split: if_splits option.splits)
  obtain h where h: "api_host (store s' r) = Some h" using node_back_up_True [OF assms] by auto
  have refresh: "obeys identifying (refresh_api_host E r c k)"
    by (rule identifying_restarting.obeys_refresh_api_host [where R = UNIV, OF UNIV_I])
  from native_and_live_Inr [OF n] have "serving r c s1 t2 s'"
    unfolding serving_def using h c by (auto simp: text_of_def)
  from serving_later [OF obeysD [OF refresh up] this] t show ?thesis by simp
qed

lemma poll_node_back_up:
  assumes "poll n E (node_back_up E c r k) deadline interval s = (t, s', Inr True)"
  shows "serving r c s t s'"
  using assms
proof (induction n arbitrary: s t)
  case 0
  then show ?case by simp
next
  case (Suc n)
  then obtain t1 s1 up t2 where check: "node_back_up E c r k s = (t1, s1, Inr up)"
    and rest: "(if up then ret True else bind monotonic (\<lambda>now. if now \<ge> deadline then ret False
          else seq (sleep E interval) (poll n E (node_back_up E c r k) deadline interval))) s1 = (t2, s', Inr True)"
    and t: "t = t1 @ t2"
    by (auto simp: bind_Inr_iff)
  show ?case
  proof (cases up)
    case True
    with rest check t node_back_up_serving [of E c r k s t1 s1] show ?thesis by simp
  next
    case False
    with rest obtain t3 s3 t4 where pause: "sleep E interval s1 = (t3, s3, Inr ())"
      and again: "poll n E (node_back_up E c r k) deadline interval s3 = (t4, s', Inr True)" and t2: "t2 = t3 @ t4"
      by (auto simp: monotonic_def bind_gets seq_Inr_iff split: if_splits)
    have b: "obeys identifying (node_back_up E c r k)"
      by (rule identifying_restarting.obeys_node_back_up [where R = UNIV, OF UNIV_I])
    have z: "obeys identifying (sleep E interval)"
      unfolding sleep_def by (intro identifying.obeys_bind identifying_perform identifying.obeys_ret)
    have "serving r c s (t1 @ t3 @ t4) s'"
      by (rule serving_later [OF obeysD [OF b check] serving_later [OF obeysD [OF z pause] Suc.IH [OF again]]])
    then show ?thesis using t t2 by simp
  qed
qed

lemma gone_down_fails:
  assumes "gone_down E r s = (t, s', Inr True)"
  shows "fails (api_port s) (text_of (api_host (store s r))) t \<and> store s' = store s \<and> api_port s' = api_port s"
  using assms by (auto simp: gone_down_def host_of_def bind_gets bind_Inr_iff dest: api_alive_run)

lemma drain_run:
  assumes "drain_node E r tm s = (t, s', Inr u)"
  shows "\<exists>a. t = [(Rest ''POST'' (text_of (api_host (store s r))) (api_port s) drain_path [] tm, a)]"
  using assms
  by (cases "0 < tm")
    (auto simp: drain_node_def host_of_def bind_gets api_refused elim!: catchE bindE dest: api_trace)

lemma delete_pod_run:
  assumes "delete_pod_of E k r s = (t, s', Inr ())"
  shows "\<exists>a. t = [(Kube ''DELETE'' (base k @ pod_path k (text_of (pod (store s r)))), a)]"
proof -
  from assms obtain t1 s1 a t2 j where
    "perform E (Kube ''DELETE'' (base k @ pod_path k (text_of (pod (store s r))))) s = (t1, s1, Inr a)"
    "(case k8s_result ''DELETE'' (pod_path k (text_of (pod (store s r)))) a of Inl e \<Rightarrow> raise e | Inr j \<Rightarrow> ret j) s1
       = (t2, s', Inr j)" "t = t1 @ t2"
    by (auto simp: delete_pod_of_def delete_pod_def k8s_request_def bind_gets bind_Inr_iff split: if_splits)
  with perform_Inr [OF this(1)] show ?thesis by (auto split: sum.splits)
qed

text \<open>
  The calls of a successful restart, in order: the drain, the deletion of the pod, a check of the old
  address that failed, and after it the checks that found the node serving again.
\<close>

definition restarted :: "ref \<Rightarrow> ref \<Rightarrow> opts \<Rightarrow> k8s \<Rightarrow> 'w st \<Rightarrow> trace \<Rightarrow> 'w st \<Rightarrow> bool" where
  "restarted r c opts k s t s' \<longleftrightarrow>
     (\<exists>a pods down back.
        t = (Rest ''POST'' (text_of (api_host (store s r))) (api_port s) drain_path [] (node_timeout opts), a) #
            pods @ down @ back \<and>
        map fst pods = (if restart opts = ''k8s''
          then [Kube ''DELETE'' (base k @ pod_path k (text_of (pod (store s r))))] else []) \<and>
        fails (api_port s) (text_of (api_host (store s r))) down \<and>
        serving r c s back s')"

lemma poll_gone_down:
  assumes "poll n E (gone_down E r) deadline 5 s = (t, s', Inr True)"
  shows "fails (api_port s) (text_of (api_host (store s r))) t"
  using assms
proof (induction n arbitrary: s t)
  case 0
  then show ?case by simp
next
  case (Suc n)
  then obtain t1 s1 gone t2 where g: "gone_down E r s = (t1, s1, Inr gone)"
    and rest: "(if gone then ret True else bind monotonic (\<lambda>now.
      if now \<ge> deadline then ret False else seq (sleep E 5) (poll n E (gone_down E r) deadline 5))) s1
      = (t2, s', Inr True)" and t: "t = t1 @ t2"
    by (auto simp: bind_Inr_iff)
  have "obeys (acting k r) (gone_down E r)" for k
    unfolding gone_down_def by auto
  from obeysD [OF this g] have same: "store s1 = store s" "api_port s1 = api_port s"
    by (auto simp: acting_def)
  show ?case
  proof (cases gone)
    case True
    with gone_down_fails [of E r s t1 s1] g t show ?thesis by simp
  next
    case False
    with rest obtain t3 s3 t4 where sl: "sleep E 5 s1 = (t3, s3, Inr ())"
      and p: "poll n E (gone_down E r) deadline 5 s3 = (t4, s', Inr True)" and "t2 = t3 @ t4"
      by (auto simp: monotonic_def bind_gets seq_Inr_iff split: if_splits)
    moreover have "store s3 = store s1" "api_port s3 = api_port s1"
      using sl by (auto simp: sleep_def bind_Inr_iff dest: perform_store)
    ultimately show ?thesis using Suc.IH [OF p] same t by simp
  qed
qed

lemma restart_node_restarted:
  assumes "restart_node E r c opts k s = (t, s', Inr ())"
  shows "restarted r c opts k s t s'"
proof -
  let ?wait = "bind (wait_for E (gone_down E r) DOWN_TIMEOUT 5) (\<lambda>down.
     if \<not> down then bind (gets (\<lambda>s. label r (store s r))) (\<lambda>l. fatal (Never_went_down l))
     else bind (wait_for E (node_back_up E c r k) (node_timeout opts) 10) (\<lambda>up.
          if \<not> up then bind (gets (\<lambda>s. label r (store s r))) (\<lambda>l. fatal (Not_back_in_time l (node_timeout opts)))
          else ret ()))"
  from assms obtain t1 s1 u t2 where drain: "drain_node E r (node_timeout opts) s = (t1, s1, Inr u)"
    and r1: "seq (if restart opts = ''k8s'' then delete_pod_of E k r else ret ()) ?wait s1 = (t2, s', Inr ())"
    and t: "t = t1 @ t2"
    unfolding restart_node_def by (rule seq_InrE)
  from r1 obtain t3 s3 v t4 where del: "(if restart opts = ''k8s'' then delete_pod_of E k r else ret ()) s1 = (t3, s3, Inr v)"
    and r2: "?wait s3 = (t4, s', Inr ())" and t2: "t2 = t3 @ t4"
    by (rule seq_InrE)
  from r2 obtain t5 s5 t6 where down: "wait_for E (gone_down E r) DOWN_TIMEOUT 5 s3 = (t5, s5, Inr True)"
    and up: "wait_for E (node_back_up E c r k) (node_timeout opts) 10 s5 = (t6, s', Inr True)"
    and t4: "t4 = t5 @ t6"
    by (auto simp: bind_Inr_iff split: if_splits)
  have s1: "store s1 = store s \<and> api_port s1 = api_port s"
    using obeysD [OF acting_drain [of undefined] drain] by (simp add: acting_def)
  have s3: "store s3 = store s1 \<and> api_port s3 = api_port s1"
    using del obeysD [OF acting_delete, of E k r s1 t3 s3 "Inr v"] by (auto simp: acting_def split: if_splits)
  from drain_run [OF drain] obtain a where
    "t1 = [(Rest ''POST'' (text_of (api_host (store s r))) (api_port s) drain_path [] (node_timeout opts), a)]"
    by blast
  moreover have "map fst t3 = (if restart opts = ''k8s''
      then [Kube ''DELETE'' (base k @ pod_path k (text_of (pod (store s r))))] else [])"
    using del delete_pod_run [of E k r s1 t3 s3] s1 by (auto split: if_splits)
  moreover have "fails (api_port s) (text_of (api_host (store s r))) t5"
  proof -
    from down obtain n deadline where "poll n E (gone_down E r) deadline 5 s3 = (t5, s5, Inr True)"
      by (auto simp: wait_for_def poll_until_def monotonic_def bind_gets)
    from poll_gone_down [OF this] s1 s3 show ?thesis by simp
  qed
  moreover have "serving r c s t6 s'"
  proof -
    have "obeys (acting k r) (wait_for E (gone_down E r) DOWN_TIMEOUT 5)" for k
      unfolding gone_down_def by auto
    from obeysD [OF this down] s1 s3 have s5: "store s5 = store s" "api_port s5 = api_port s"
      by (simp_all add: acting_def)
    from up obtain n deadline where "poll n E (node_back_up E c r k) deadline 10 s5 = (t6, s', Inr True)"
      by (auto simp: wait_for_def poll_until_def monotonic_def bind_gets)
    from poll_node_back_up [OF this] s5 show ?thesis by (simp add: serving_def)
  qed
  ultimately show ?thesis
    unfolding restarted_def using t t2 t4
    by - (rule exI [of _ a], rule exI [of _ t3], rule exI [of _ t5], rule exI [of _ t6], simp)
qed

end
