(* ===== verification/Demo.thy ===== *)
theory Demo
  imports Behaviour
begin

text \<open>
  A concrete cluster of two nodes to run the tool against, and the state the process starts in. The
  cluster answers every call the tool makes; a node that is drained is away for one check and comes
  back with its storage upgraded if it was marked.
\<close>

definition blank_node :: node where
  "blank_node = \<lparr>dc = [], rack = [], addresses = [], api_host = None, pod = None\<rparr>"

definition initial :: "'w \<Rightarrow> int \<Rightarrow> bool \<Rightarrow> 'w st" where
  "initial w now terminal =
     \<lparr>world = w, clock = now, store = (\<lambda>_. blank_node), api_port = API_PORT, tty = terminal\<rparr>"

lemma initial_simps [simp]:
  "world (initial w now terminal) = w" "clock (initial w now terminal) = now"
  "store (initial w now terminal) r = blank_node" "tty (initial w now terminal) = terminal"
  "api_port (initial w now terminal) = API_PORT" "api_host blank_node = None" "pod blank_node = None"
  by (simp_all add: initial_def blank_node_def)

text \<open>The cluster: how far the keyspace is, and the addresses marked, upgraded and away.\<close>

record demo =
  ks_is :: string
  marked :: "string list"
  upgraded :: "string list"
  away :: "string option"

definition demo_ids :: "(string \<times> string) list" where
  "demo_ids = [(''10.0.0.1'', ''n1''), (''10.0.0.2'', ''n2'')]"

definition ok :: "json \<Rightarrow> answer" where
  "ok j = Reply \<lparr>status_code = 200, body_text = ''x'', body_json = Some j\<rparr>"

definition demo_mode :: "demo \<Rightarrow> string \<times> string \<Rightarrow> json" where
  "demo_mode w n =
     JObj [(''host_id'', JStr (snd n)),
           (''current_mode'', JStr (if fst n \<in> set (upgraded w) then ''tablets'' else ''vnodes'')),
           (''intended_mode'', JStr (if fst n \<in> set (marked w) then ''tablets'' else ''vnodes''))]"

definition demo_get :: "demo \<Rightarrow> string \<Rightarrow> string \<Rightarrow> answer \<times> demo" where
  "demo_get w h path =
     (if away w = Some h then
        (Net_error, w\<lparr>away := None, upgraded := (if h \<in> set (marked w) then h # upgraded w else upgraded w)\<rparr>)
      else
        (if path = hostid_path then
           (case map_of demo_ids h of None \<Rightarrow> Net_error | Some r \<Rightarrow> ok (JStr r))
         else if path = ks_path ''app'' then
           ok (JObj [(''status'', JStr (ks_is w)),
                     (''nodes'', JArr (if ks_is w = ''migrating_to_tablets'' then map (demo_mode w) demo_ids else []))])
         else if path = ''/gossiper/endpoint/live'' then ok (JArr (map (\<lambda>n. JStr (fst n)) demo_ids))
         else if path = ''/storage_service/native_transport'' then ok (JBool True)
         else if path = ''/v2/config/enforce_rack_list'' then ok (JBool True)
         else if path = ''/storage_service/scylla_release_version'' then ok (JStr ''2026.3.0'')
         else ok (JArr []), w))"

fun demo_env :: "demo env" where
  "demo_env w (Rest meth h port path params tm) =
     (if meth = ''GET'' then (case demo_get w h path of (a, w') \<Rightarrow> (a, 0, w'))
      else (ok JNull, 0,
        if path = mode_path then w\<lparr>marked := h # marked w\<rparr>
        else if path = drain_path then w\<lparr>away := Some h\<rparr>
        else if path = fin_path ''app'' then w\<lparr>ks_is := ''tablets''\<rparr>
        else w\<lparr>ks_is := ''migrating_to_tablets''\<rparr>))"
| "demo_env w (Cql_replication ks) =
     (Row (Some [(''class'', ''NetworkTopologyStrategy''), (''dc1'', ''2'')]), 0, w)"
| "demo_env w c = (Done, 0, w)"

definition demo_start :: "demo st" where
  "demo_start = initial \<lparr>ks_is = ''vnodes'', marked = [], upgraded = [], away = None\<rparr> 0 False"

definition demo_hosts :: "host list" where
  "demo_hosts =
     [\<lparr>host_id = ''n2'', broadcast_address = None, address = Some ''10.0.0.2'', listen_address = None,
       datacenter = Some ''dc1'', host_rack = Some ''r2''\<rparr>,
      \<lparr>host_id = ''n1'', broadcast_address = Some ''10.0.0.9'', address = Some ''10.0.0.1'',
       listen_address = None, datacenter = Some ''dc1'', host_rack = Some ''r1''\<rparr>]"

definition demo_schema :: cluster_meta where
  "demo_schema =
     \<lparr>ks_metas = [(''app'', \<lparr>tables = [(''t'', \<lparr>indexes = [], columns = [(''id'', ''int'')],
        compaction = Some [(''class'', ''IncrementalCompactionStrategy'')], extensions = None\<rparr>)], views = []\<rparr>)]\<rparr>"

definition demo_process :: process where
  "demo_process =
     \<lparr>file_exists = (\<lambda>_. False), file_loads = (\<lambda>_. False), service_host = None, service_port = None,
      token_file = None, namespace_file = None\<rparr>"

definition demo_opts :: opts where
  "demo_opts = (default_opts (\<lambda>_. None) [''app''])\<lparr>restart := ''manual'', assume_yes := True\<rparr>"

definition demo_run :: "trace \<times> demo st \<times> (stop + status_line list)" where
  "demo_run = main demo_env demo_process demo_hosts demo_schema demo_opts demo_start"

text \<open>The whole run succeeds, and sends a finalization.\<close>

lemma demo_evaluated:
  "case demo_run of (t, s, r) \<Rightarrow> exit_code r = Some 0 \<and> (\<exists>ca \<in> set t. finalizes (fst ca))"
  by code_simp

lemma demo_succeeds:
  obtains ls where "result (main demo_env demo_process demo_hosts demo_schema demo_opts) demo_start = Inr ls"
    "\<exists>ca \<in> set (trace_of (main demo_env demo_process demo_hosts demo_schema demo_opts) demo_start).
       finalizes (fst ca)"
  using demo_evaluated that
  by (cases "snd (snd demo_run)")
    (auto simp: demo_run_def result_def trace_of_def exit_code_def split: prod.splits stop.splits if_splits)

text \<open>The two nodes as discovery leaves them, and the cluster with the keyspace being migrated.\<close>

definition demo_nodes :: "string \<Rightarrow> demo st" where
  "demo_nodes state =
     \<lparr>world = \<lparr>ks_is = state, marked = [], upgraded = [], away = None\<rparr>, clock = 0,
      store = (\<lambda>r. if r = ''n1''
        then \<lparr>dc = ''dc1'', rack = ''r1'', addresses = [''10.0.0.1''], api_host = Some ''10.0.0.1'', pod = None\<rparr>
        else \<lparr>dc = ''dc1'', rack = ''r2'', addresses = [''10.0.0.2''], api_host = Some ''10.0.0.2'', pod = None\<rparr>),
      api_port = API_PORT, tty = False\<rparr>"

definition no_kubernetes :: k8s where
  "no_kubernetes = \<lparr>available = False, namespace = None, base = []\<rparr>"

lemma demo_preflight:
  "result (preflight_phase demo_env demo_schema ''n1'' [''n1'', ''n2''] demo_opts no_kubernetes)
     (demo_nodes ''vnodes'') = Inr [''app'']"
  by code_simp

lemma demo_restart:
  "result (restart_node demo_env ''n1'' ''n2'' demo_opts no_kubernetes) (demo_nodes ''vnodes'') = Inr ()"
  by code_simp

lemma demo_pick:
  "result (pick_control demo_env [''n1'', ''n2''] (Some ''n1'')) (demo_nodes ''vnodes'') = Inr (Some ''n2'')"
  by code_simp

lemma demo_resolve:
  "result (resolve_among demo_env ''n1'' [''10.0.0.9'', ''10.0.0.1'']) (demo_nodes ''vnodes'') = Inr (Some ''10.0.0.1'')"
  by code_simp

lemma demo_wait:
  "result (wait_node_mode demo_env ''n2'' ''n1'' [''app''] ''vnodes'' 30) (demo_nodes ''vnodes'') = Inr True"
  by code_simp

lemma demo_discover:
  "result (discover_nodes demo_env demo_hosts no_kubernetes) demo_start = Inr [''n1'', ''n2'']"
  by code_simp

lemma demo_upgrade:
  "result (upgrade_phase demo_env [''n1'', ''n2''] demo_opts no_kubernetes) (demo_nodes ''migrating_to_tablets'')
    = Inr ()"
  by code_simp

end
