(* ===== verification/Spec2Isabelle.thy ===== *)
theory Spec2Isabelle
  imports Query Cleanup Fakers Vnodes Twcs Endpoints Demo
begin

text \<open>
  This library models the Python tools under \<open>sample_app\<close>: the program that converts keyspaces
  from vnodes to tablets, and the tools that load, query, copy and clean data on a ScyllaDB cluster. The
  shell, Terraform and Kubernetes files that set the cluster up and the Java programs are not modelled.

  \<^bold>\<open>Computations.\<close> A tool is a computation \<open>('c, 's, 'a) run\<close>
  (\<open>Effects\<close>): from a state it yields the trace of its requests with their answers, an end
  state, and a value, a Python exception or \<open>Out_of_fuel\<close>. The surroundings are a parameter, an
  arbitrary function that answers requests and moves to a next world: \<open>'w env\<close> for the
  conversion program (REST API, Kubernetes API, CQL session, terminal, time), \<open>'w server\<close> for
  the data tools (CQL session, Alternator endpoint, random generator, clock). So a theorem holds whatever
  they answer, unless a named hypothesis says what is relied on (\<open>loaded\<close>, \<open>fair\<close>,
  \<open>willing\<close>, \<open>keeps_users\<close>, \<open>serves\<close>, \<open>counts_views\<close>,
  \<open>appears\<close>, \<open>local_time\<close>, each with an instance that satisfies it).

  \<^bold>\<open>Foundations.\<close> \<open>Prelude\<close>: Python's errors, strings and sorting.
  \<open>Json\<close>: decoded JSON and the operations that raise on a wrong shape.
  \<open>Arguments\<close>: \<open>argparse\<close> as the tools use it (options with one value, flags,
  choices, abbreviations, clusters of letters, \<open>--\<close>, positional words), from a declaration and
  the words of the command line to the options or the exit code 0 or 2, with the locale
  \<open>respected\<close> of what every option keeps. \<open>Bytes\<close>: slices, little-endian integers,
  UTF-8. \<open>Floats\<close>: correctly rounded division. \<open>Dates\<close>: the calendar,
  \<open>strptime\<close> and \<open>strftime\<close>, and the drawn dates of the loaders; the time zone is
  a parameter with the contract \<open>local_time\<close>, interpreted for UTC and for a zone with summer
  time. \<open>Ranges\<close>: the locale \<open>splitter\<close> of intervals cut into pieces.
  \<open>Judgement\<close>: \<open>obeys\<close>, the locales \<open>composing\<close> and
  \<open>contract\<close> that lift facts on single requests to whole programs. \<open>Tls\<close>: the
  contexts of \<open>ssl\<close> as the tools build them, and which peers they admit (C18).
  \<open>Driver\<close>: CQL statements by their parts, requests, and the judgements \<open>asks\<close>,
  \<open>ending\<close> and \<open>succeeds\<close> on scripts. \<open>Cql\<close>: the documented meaning
  of the statements the claims about tables rest on, which rows a \<open>WHERE\<close> selects (C32, C33) and
  which table a trace of statements leaves, by the primary key it was created with (C29).

  \<^bold>\<open>The conversion program\<close>, \<open>convert_to_tablets.py\<close>, in the order of the
  file. \<open>Rest_Api\<close> (\<open>api\<close>, with the ValueError of a timeout that is not positive,
  \<open>api_alive\<close>), \<open>Kubernetes\<close>
  (class \<open>K8s\<close>), \<open>Nodes\<close> (\<open>Node\<close>, \<open>resolve_api_host\<close>,
  \<open>discover_nodes\<close>, \<open>pick_control\<close>; the shared mutable objects are a store indexed
  by host ID), \<open>Migration_State\<close> (\<open>ks_status\<close> to \<open>wait_node_mode\<close>),
  \<open>Polling\<close> and \<open>Restart\<close> (\<open>wait_for\<close> to
  \<open>restart_node\<close>), \<open>Tool_Options\<close> (\<open>parse_args\<close>, C37),
  \<open>Preflight\<close> (\<open>decode_extension\<close> to \<open>preflight\<close>),
  \<open>Phases\<close> (\<open>print_status\<close>, \<open>confirm\<close>, \<open>rollback\<close>,
  \<open>migrate\<close>), \<open>Cli\<close> (\<open>connect\<close>, \<open>main\<close>, and
  \<open>tool_process\<close>, the whole process from the words of its command line to its exit code: C6 and
  C7). The proofs about it: \<open>Protocol\<close> (which calls a run may make), \<open>Identity\<close>
  (which node a request reaches), \<open>Safety\<close> and \<open>History\<close> (what must have been seen
  or agreed to before a call), \<open>Checks\<close> (verdicts against specifications),
  \<open>Behaviour\<close> (single operations, and who answered what at the end of a restart), \<open>Demo\<close> (a cluster of two nodes, for the
  witnesses). C1 to C17 are in this theory.

  \<^bold>\<open>The data tools.\<close> Each theory declares the options of its tools, parses them and
  composes the parser with \<open>main\<close> (\<open>loader_process\<close>, \<open>query_process\<close>,
  ...). \<open>Connection\<close>: \<open>scylla_connection_library.py\<close>, C18 to C20.
  \<open>Loader\<close>: \<open>loader.py\<close>, C21 to C23 and C25, whose splitting of the work
  interprets \<open>splitter\<close> twice. \<open>Query\<close>: \<open>query.py\<close>, C26 and C27,
  against what the loader wrote. \<open>Serial\<close>: \<open>slow_loader.py\<close> and
  \<open>tombstone.py\<close>, C28 and C29. \<open>Alternator_Codec\<close>:
  \<open>encode_alternator.py\<close> and \<open>decode_alternator.py\<close>, C30 and C31.
  \<open>Cleanup\<close>: \<open>cleanup_userid_mt.py\<close>, C32 and C33. \<open>Fakers\<close>:
  \<open>cql-faker.py\<close>, \<open>cql-alternator-faker.py\<close> and
  \<open>alternator-faker.py\<close>, C34 and C35. \<open>Counters\<close>:
  \<open>copy_counter_table_vnodes_to_tablets.py\<close>, C24. \<open>Vnodes\<close>:
  \<open>create_vnodes_ks_index_mv_counters.py\<close>, C36 and C38. \<open>Twcs\<close>:
  \<open>twcs/device_read_data_demo.py\<close>, C39 and C40. \<open>Endpoints\<close>:
  \<open>proxy.py\<close> and the scripts of \<open>alternator-boto3\<close>, with lemmas only. What the
  claims say of a run is read off its events by observers (locale \<open>observing\<close> of
  \<open>Driver\<close>, interpreted for the rows inserted, the items put and the pauses).

  \<^bold>\<open>Fuel and bounds.\<close> Polling loops recurse on fuel computed from their deadline and
  interval; every sleep moves the clock by at least the interval, so the fuel is never used up (C6). The
  loops of the loader and the cleanup that may run forever are \<open>partial_function (option)\<close>, and
  the claims say when they return (C22, C23, C32). The query runner asks the clock, which may stand still:
  its fuel is an argument and its claims hold for every amount. Quotients of integers as doubles have the
  exact floor and ceiling below \<open>2 ^ 53\<close> (\<open>floor_true_div\<close>,
  \<open>ceiling_true_div\<close>), which bounds C21, C39 and C40.

  \<^bold>\<open>Not modelled.\<close> What is printed or logged, except the status report of the conversion
  program. Of \<open>argparse\<close> the text of the help and of the error messages, and what no parser
  here declares; its rules are those of Python 3.11. The values \<open>inf\<close> and \<open>nan\<close> of
  \<open>query.py --interval\<close>, which are rejected. The layout of CQL text. The worker processes and
  threads of the pools run one after the other, which is one of their schedules; they work on disjoint keys
  and share no state. For the loader, \<open>concurrent_pool\<close> (\<open>Serial\<close>) shows of every
  interleaving that the same is submitted with the same totals, and C28 is free of the order. The draws of
  \<open>Faker\<close> are arguments. The CQL driver, \<open>boto3\<close>, \<open>requests\<close> and the
  server are the parameter.
\<close>

section \<open>The migration tool as a whole\<close>

text \<open>
  C1. Finalization, which cannot be undone, comes last: in every run of the program that is not a
  rollback, whatever the cluster, Kubernetes, the driver and the operator answer and however the run
  ends, a finalization request is sent only after every node has been seen using tablets for every
  keyspace, and after the operator has agreed twice (or passed -y). Keyspace names contain no slash.
\<close>

theorem finalizes_only_converted_nodes:
  assumes "\<forall>ks \<in> set (keyspaces opts). CHR ''/'' \<notin> set ks" and "\<not> rollback_flag opts"
  shows "each_call (\<lambda>past call. finalizes call \<longrightarrow>
           all_use ''tablets'' (map host_id hosts) (keyspaces opts) past \<and> agreed opts 2 past)
         [] (trace_of (main E p hosts meta opts) (initial w now terminal))"
proof -
  obtain t s' x where run: "main E p hosts meta opts (initial w now terminal) = (t, s', x)"
    by (metis prod_cases3)
  have "each_call (\<lambda>past call. finalizes call \<longrightarrow>
          all_use ''tablets'' (map host_id hosts) (keyspaces opts) past \<and> agreed opts 2 past) [] t"
    using run
  proof (rule main_calls)
    fix k control refs past s1 t1 s2 y
    assume refs: "set refs = host_id ` set hosts"
      and d: "dispatch E meta control refs opts k s1 = (t1, s2, y)"
    from dispatch_finalizes [OF assms(1) d] assms(2)
    show "each_call (\<lambda>past call. finalizes call \<longrightarrow>
          all_use ''tablets'' (map host_id hosts) (keyspaces opts) past \<and> agreed opts 2 past) past t1"
      by (simp add: same_nodes(1) [OF refs])
  qed (use not_finalizing_harmless read_only_not_finalizing in auto)
  with run show ?thesis by (simp add: trace_of_def)
qed

lemma finalizes_only_converted_nodes_witness:
  "each_call (\<lambda>past call. finalizes call \<longrightarrow>
      all_use ''tablets'' [''n2'', ''n1''] [''app''] past \<and> agreed demo_opts 2 past)
    [] (trace_of (main demo_env demo_process demo_hosts demo_schema demo_opts) demo_start) \<and>
   (\<exists>ca \<in> set (trace_of (main demo_env demo_process demo_hosts demo_schema demo_opts) demo_start).
      finalizes (fst ca))"
proof
  have "keyspaces demo_opts = [''app'']" "\<not> rollback_flag demo_opts" "map host_id demo_hosts = [''n2'', ''n1'']"
    by (simp_all add: demo_opts_def default_opts_def demo_hosts_def)
  with finalizes_only_converted_nodes [of demo_opts demo_hosts demo_env demo_process demo_schema _ 0 False]
  show "each_call (\<lambda>past call. finalizes call \<longrightarrow>
      all_use ''tablets'' [''n2'', ''n1''] [''app''] past \<and> agreed demo_opts 2 past)
    [] (trace_of (main demo_env demo_process demo_hosts demo_schema demo_opts) demo_start)"
    by (simp add: demo_start_def)
qed (rule demo_succeeds)

text \<open>
  C2. Nothing is changed unprepared: before the first call of a migration that changes anything (a PUT
  or POST to a node, a pod deletion) every keyspace was read as vnodes or as already migrating, the
  restarts were checked (with Kubernetes: every node has a pod and deleting pods was granted) and the
  operator agreed. A rollback has read every keyspace as migrating before its first change.
\<close>

theorem changes_only_when_cleared:
  "each_call (\<lambda>past call. changes call \<longrightarrow>
     (if rollback_flag opts then rollback_cleared else cleared) opts
       (k8s_init (service_host p) (service_port p) (token_file p) (namespace_file p)) (map host_id hosts)
       (pods_of (final (main E p hosts meta opts) (initial w now terminal))) past)
   [] (trace_of (main E p hosts meta opts) (initial w now terminal))"
proof -
  obtain t s' x where run: "main E p hosts meta opts (initial w now terminal) = (t, s', x)"
    by (metis prod_cases3)
  let ?k = "k8s_init (service_host p) (service_port p) (token_file p) (namespace_file p)"
  have "each_call (\<lambda>past call. changes call \<longrightarrow>
     (if rollback_flag opts then rollback_cleared else cleared) opts ?k (map host_id hosts) (pods_of s') past) [] t"
    using run
  proof (rule main_calls)
    fix k control refs past s1 t1 s2 y
    assume k: "k = ?k" and refs: "set refs = host_id ` set hosts" and pods: "pods_of s1 = pods_of s'"
      and d: "dispatch E meta control refs opts k s1 = (t1, s2, y)"
    from dispatch_cleared [OF d, of past]
    show "each_call (\<lambda>past call. changes call \<longrightarrow>
        (if rollback_flag opts then rollback_cleared else cleared) opts ?k (map host_id hosts) (pods_of s') past) past t1"
      by (cases "rollback_flag opts") (simp_all add: same_nodes(3,4) [OF refs] pods k)
  qed (use read_only_harmless in auto)
  with run show ?thesis by (simp add: trace_of_def final_def)
qed

lemma changes_only_when_cleared_witness:
  "each_call (\<lambda>past call. changes call \<longrightarrow>
     cleared demo_opts (k8s_init None None None None) [''n2'', ''n1'']
       (pods_of (final (main demo_env demo_process demo_hosts demo_schema demo_opts) demo_start)) past)
   [] (trace_of (main demo_env demo_process demo_hosts demo_schema demo_opts) demo_start)"
proof -
  have "\<not> rollback_flag demo_opts" "map host_id demo_hosts = [''n2'', ''n1'']"
    "service_host demo_process = None" "service_port demo_process = None"
    "token_file demo_process = None" "namespace_file demo_process = None"
    by (simp_all add: demo_opts_def default_opts_def demo_hosts_def demo_process_def)
  with changes_only_when_cleared [of demo_opts demo_process demo_hosts demo_env demo_schema _ 0 False]
  show ?thesis by (simp add: demo_start_def)
qed

text \<open>
  C3. Nothing is sent to a stranger: every PUT and POST of any run goes to an address that has answered
  a request of this run with the host ID of a node of the cluster, and every pod deleted is the pod of
  a node of the cluster.
\<close>

theorem changes_only_own_nodes:
  "each_call (aimed_at (host_id ` set hosts)
      (k8s_init (service_host p) (service_port p) (token_file p) (namespace_file p))
      (pods_of (final (main E p hosts meta opts) (initial w now terminal))))
   [] (trace_of (main E p hosts meta opts) (initial w now terminal))"
proof -
  obtain t s' x where run: "main E p hosts meta opts (initial w now terminal) = (t, s', x)"
    by (metis prod_cases3)
  let ?k = "k8s_init (service_host p) (service_port p) (token_file p) (namespace_file p)"
  have "each_call (aimed_at (host_id ` set hosts) ?k (pods_of s')) [] t"
    using run
  proof (rule main_calls)
    fix k control refs past s1 t1 s2 y
    assume *: "k = ?k" "control \<in> set refs" "set refs = host_id ` set hosts" "pods_of s1 = pods_of s'"
      "in_order (set refs) (pods_of s1) past s1" "dispatch E meta control refs opts k s1 = (t1, s2, y)"
    from dispatch_aimed [OF *(2,5,6)] * show "each_call (aimed_at (host_id ` set hosts) ?k (pods_of s')) past t1"
      by simp
  next
    fix past c a
    assume "read_only (c, a)"
    then show "aimed_at (host_id ` set hosts) ?k (pods_of s') past c" by (cases c) auto
  qed simp
  with run show ?thesis by (simp add: trace_of_def final_def)
qed

lemma changes_only_own_nodes_witness:
  "each_call (aimed_at {''n2'', ''n1''} (k8s_init None None None None)
      (pods_of (final (main demo_env demo_process demo_hosts demo_schema demo_opts) demo_start)))
   [] (trace_of (main demo_env demo_process demo_hosts demo_schema demo_opts) demo_start)"
proof -
  have "host_id ` set demo_hosts = {''n2'', ''n1''}"
    "service_host demo_process = None" "service_port demo_process = None"
    "token_file demo_process = None" "namespace_file demo_process = None"
    by (simp_all add: demo_hosts_def demo_process_def)
  with changes_only_own_nodes [of demo_hosts demo_process demo_env demo_schema demo_opts _ 0 False]
  show ?thesis by (simp add: demo_start_def)
qed

text \<open>
  C4. One node at a time: the upgrade phase works through the nodes in order. Its trace falls into one
  part per node begun; every changing call of a part goes to that node's address, or deletes that
  node's pod, as they were when the phase began; and no part begins before the node of the previous one
  has been seen using tablets for every keyspace.
\<close>

theorem upgrade_one_node_at_a_time:
  assumes "distinct refs"
  shows "\<exists>parts. trace_of (upgrade_phase E refs opts k) s = concat parts \<and> length parts \<le> length refs \<and>
    (\<forall>i < length parts. \<forall>ca \<in> set (parts ! i). acts_on k (refs ! i) s (fst ca)) \<and>
    (\<forall>i < length parts. Suc i < length parts \<or> result (upgrade_phase E refs opts k) s = Inr () \<longrightarrow>
       (\<forall>ks \<in> set (keyspaces opts). observed ks (refs ! i) (Uses (JStr ''tablets'')) (parts ! i))) \<and>
    (result (upgrade_phase E refs opts k) s = Inr () \<longrightarrow> length parts = length refs)"
proof -
  obtain t s' r where run: "upgrade_phase E refs opts k s = (t, s', r)"
    by (metis prod_cases3)
  from for_each_loop_run [OF run [unfolded upgrade_phase_def]] obtain parts where
    p: "t = concat parts" "loop_run (upgrade_node E refs opts k) refs s parts s' r" by blast
  from assms upgrading_nodes.loop_one_at_a_time [OF p(2)] loop_run_length [OF p(2)] p(1)
  show ?thesis by (intro exI [of _ parts]) (simp add: trace_of_def result_def run)
qed

lemma upgrade_one_node_at_a_time_witness:
  "\<exists>parts. trace_of (upgrade_phase demo_env [''n1'', ''n2''] demo_opts no_kubernetes) (demo_nodes ''migrating_to_tablets'')
      = concat parts \<and> length parts = 2 \<and>
    (\<forall>i < 2. \<forall>ca \<in> set (parts ! i). acts_on no_kubernetes ([''n1'', ''n2''] ! i) (demo_nodes ''migrating_to_tablets'') (fst ca))"
proof -
  have "distinct [''n1'', ''n2'']" by simp
  from upgrade_one_node_at_a_time [OF this, of demo_env demo_opts no_kubernetes "demo_nodes ''migrating_to_tablets''"]
    demo_upgrade
  show ?thesis by (auto simp: numeral_2_eq_2)
qed

text \<open>
  C5. Success means done: if the program ends normally and was not asked for the status only, then each
  node has been seen in the target mode (tablets, or vnodes for a rollback) for every keyspace, and each
  keyspace in the target state.
\<close>

theorem success_means_done:
  assumes "result (main E p hosts meta opts) (initial w now terminal) = Inr ls" and "\<not> status_only opts"
  shows "all_use (target_mode opts) (map host_id hosts) (keyspaces opts)
           (trace_of (main E p hosts meta opts) (initial w now terminal)) \<and>
         all_in_state (JStr (target_mode opts)) (keyspaces opts)
           (trace_of (main E p hosts meta opts) (initial w now terminal))"
  using assms main_Inr [of E p hosts meta opts "initial w now terminal"]
  by (cases "main E p hosts meta opts (initial w now terminal)") (auto simp: result_def trace_of_def)

lemma success_means_done_witness:
  "all_use ''tablets'' [''n2'', ''n1''] [''app'']
     (trace_of (main demo_env demo_process demo_hosts demo_schema demo_opts) demo_start) \<and>
   all_in_state (JStr ''tablets'') [''app'']
     (trace_of (main demo_env demo_process demo_hosts demo_schema demo_opts) demo_start)"
proof -
  obtain ls where "result (main demo_env demo_process demo_hosts demo_schema demo_opts) demo_start = Inr ls"
    by (rule demo_succeeds)
  moreover have "keyspaces demo_opts = [''app'']" "\<not> status_only demo_opts" "target_mode demo_opts = ''tablets''"
    "map host_id demo_hosts = [''n2'', ''n1'']"
    by (simp_all add: demo_opts_def default_opts_def demo_hosts_def target_mode_def)
  ultimately show ?thesis
    using success_means_done [of demo_env demo_process demo_hosts demo_schema demo_opts _ 0 False ls]
    by (simp add: demo_start_def)
qed

lemma always_exits:
  "\<exists>c \<in> {0, 1, 130}. exit_code (result (main E p hosts meta opts) s) = Some c \<and>
     (c = 0 \<longleftrightarrow> (\<exists>ls. result (main E p hosts meta opts) s = Inr ls)) \<and>
     (c = 130 \<longleftrightarrow> result (main E p hosts meta opts) s = Inl (Exn KeyboardInterrupt))"
proof -
  obtain t s' x where run: "main E p hosts meta opts s = (t, s', x)"
    by (metis prod_cases3)
  then have "x \<noteq> Inl Out_of_fuel"
    by (cases rule: main_cases) auto
  with run show ?thesis
    by (auto simp: result_def exit_code_def split: sum.splits stop.splits)
qed

text \<open>
  C6. The program always ends: no wait of it is endless (no loop outruns its fuel), so that it has an
  exit code. It is 2 only for a rejected command line and then nothing was called; for an accepted one
  it is 0 exactly when \<open>main\<close> ended normally, 130 exactly after Ctrl-C, and otherwise 1.
\<close>

theorem process_always_exits:
  "\<exists>c \<in> {0, 1, 2, 130}. snd (tool_process E p hosts meta environ argv s) = Some c \<and>
     (case parse_tool_args environ argv of
        Inl e \<Rightarrow> c \<in> {0, 2} \<and> fst (tool_process E p hosts meta environ argv s) = []
      | Inr opts \<Rightarrow>
          c \<noteq> 2 \<and> (c = 0 \<longleftrightarrow> (\<exists>ls. result (main E p hosts meta opts) s = Inr ls)) \<and>
          (c = 130 \<longleftrightarrow> result (main E p hosts meta opts) s = Inl (Exn KeyboardInterrupt)))"
proof (cases "parse_tool_args environ argv")
  case (Inl e)
  then have "e \<in> {SystemExit 0, SystemExit 2}"
    unfolding parse_tool_args_def by (rule parse_command_line_Inl)
  with Inl show ?thesis by (auto simp: tool_process_def)
next
  case (Inr opts)
  with always_exits [of E p hosts meta opts s] show ?thesis by (auto simp: tool_process_def)
qed

lemma status_changes_nothing:
  assumes "status_only opts"
  shows "\<forall>ca \<in> set (trace_of (main E p hosts meta opts) (initial w now terminal)). \<not> changes (fst ca)"
proof -
  obtain t s' x where run: "main E p hosts meta opts (initial w now terminal) = (t, s', x)"
    by (metis prod_cases3)
  have "each_call (\<lambda>past call. \<not> changes call) [] t"
    using run
  proof (rule main_calls)
    fix k control refs past s1 t1 s2 y
    assume "dispatch E meta control refs opts k s1 = (t1, s2, y)"
    from status_only_calls [OF assms this, where P = "\<lambda>past call. \<not> changes call"]
    show "each_call (\<lambda>past call. \<not> changes call) past t1" using read_only_harmless by blast
  qed (use read_only_harmless in auto)
  with run show ?thesis by (fastforce simp: trace_of_def each_call_iff in_set_conv_decomp)
qed

text \<open>
  C7. \<open>-S\<close> (\<open>--status\<close>) anywhere on the command line, other options and rejected lines included, means
  that the run changes nothing: every call of it is a read.
\<close>

theorem status_flag_changes_nothing:
  assumes "word \<in> {''-S'', ''--status''}" "word \<in> set (takeWhile (\<lambda>s. s \<noteq> ''--'') argv)"
  shows "\<forall>ca \<in> set (fst (tool_process E p hosts meta environ argv (initial w now terminal))). \<not> changes (fst ca)"
proof (cases "parse_tool_args environ argv")
  case (Inr opts)
  from status_word [OF Inr assms(2,1)] have "status_only opts" .
  from status_changes_nothing [OF this] Inr show ?thesis by (simp add: tool_process_def)
qed (simp add: tool_process_def)

lemma status_flag_changes_nothing_witness:
  "{ca \<in> set (fst (tool_process demo_env demo_process demo_hosts demo_schema (\<lambda>_. None) [''app'', ''-S''] demo_start)).
     changes (fst ca)} = {}"
proof -
  have "''-S'' \<in> {''-S'', ''--status''}" "''-S'' \<in> set (takeWhile (\<lambda>s. s \<noteq> ''--'') [''app'', ''-S''])" by simp_all
  from status_flag_changes_nothing [OF this, of demo_env demo_process demo_hosts demo_schema "\<lambda>_. None" _ 0 False]
  show ?thesis unfolding demo_start_def by blast
qed



section \<open>The checks before a migration\<close>

text \<open>
  C9. Without -F a keyspace is only prepared when the cluster was found up and the keyspace fit to
  migrate: its metadata and replication satisfy the specification \<open>may_migrate\<close>, where counters are
  tolerated only if a server answered with a release of 2026.3 or later, and a replication factor other
  than the rack count only if a server answered that rack lists are not enforced.
\<close>

theorem unforced_preflight:
  assumes "result (preflight_phase E meta c refs opts k) s = Inr ps" and "\<not> force opts"
  shows "result (check_cluster_up E c refs) s = Inr True \<and>
    (\<forall>ks \<in> set ps. seen_fit meta (racks_in s refs) (trace_of (preflight_phase E meta c refs opts k) s) ks)"
  by (rule unforced_preflight_phase [OF run_Inr [OF assms(1)] assms(2)])

lemma unforced_preflight_witness:
  "result (check_cluster_up demo_env ''n1'' [''n1'', ''n2'']) (demo_nodes ''vnodes'') = Inr True \<and>
   seen_fit demo_schema (racks_in (demo_nodes ''vnodes'') [''n1'', ''n2''])
     (trace_of (preflight_phase demo_env demo_schema ''n1'' [''n1'', ''n2''] demo_opts no_kubernetes)
        (demo_nodes ''vnodes'')) ''app''"
proof -
  have "\<not> force demo_opts" by (simp add: demo_opts_def default_opts_def)
  from unforced_preflight [OF demo_preflight this] show ?thesis by simp
qed

text \<open>
  C10. \<open>preflight\<close> accepts a keyspace exactly when it is fit to migrate: it turns down every Alternator
  keyspace and every keyspace the cluster's metadata does not have, without a request; of any other it
  reads the replication, fails if that fails, and returns True exactly when the keyspace satisfies
  \<open>may_migrate\<close> with the racks of the discovered nodes. It sends nothing else.
\<close>

theorem preflight_accepts_fit:
  "result (preflight E meta refs ks counters_ok enforced) s =
     (if starts_with ks ''alternator_'' then Inr False
      else case map_of (ks_metas meta) ks of
             None \<Rightarrow> Inr False
           | Some m \<Rightarrow>
               (case result (cql_replication E ks) s of
                  Inl e \<Rightarrow> Inl e
                | Inr row \<Rightarrow>
                    Inr (may_migrate (racks_in s refs) (case row of None \<Rightarrow> [] | Some r \<Rightarrow> r)
                           m counters_ok enforced))) \<and>
   trace_of (preflight E meta refs ks counters_ok enforced) s =
     (if starts_with ks ''alternator_'' \<or> map_of (ks_metas meta) ks = None then []
      else trace_of (cql_replication E ks) s)"
  by (rule preflight_verdict)

text \<open>
  C11. A schema extension is decoded to the map of strings that was encoded, whatever follows it in the
  blob: the decoder inverts the documented encoding for at most 2^32 - 1 entries with distinct keys and
  well-formed texts shorter than 2^32 bytes.
\<close>

theorem decode_extension_inverts:
  assumes "length kvs < 2 ^ 32" and "\<forall>(k, v) \<in> set kvs. encodable k \<and> encodable v"
    and "distinct (map fst kvs)"
  shows "decode_extension (encode_extension kvs @ post) = kvs"
  using decode_encode_extension [of kvs post] assms by simp

lemma decode_extension_inverts_witness:
  "decode_extension (encode_extension [(''mode'', ''repair'')] @ [0, 7]) = [(''mode'', ''repair'')]"
proof -
  have "encodable ''mode''" "encodable ''repair''"
    by (simp_all add: encodable_def well_formed_def utf8_replace_ascii ascii_def utf8_bytes_def)
  then show ?thesis by (intro decode_extension_inverts) simp_all
qed

text \<open>
  C12. Counters are migrated from release 2026.3 on: for a version text \<open>a.b\<close>, alone or with more after
  another dot, the test holds exactly when 2026.3 is not later than \<open>a.b\<close> in the order of releases.
\<close>

theorem counters_from_release:
  assumes "rest = [] \<or> hd rest = CHR ''.''"
  shows "counters_migrate (parse_version (JStr (dec a @ CHR ''.'' # dec b @ rest))) \<longleftrightarrow>
     Version 2026 3 \<le> Version (int a) (int b)"
  by (simp only: parse_version_text [OF assms] counters_migrate_order)

lemma counters_from_release_witness:
  "counters_migrate (parse_version (JStr (dec 2026 @ CHR ''.'' # dec 3 @ ''.0~rc1''))) \<longleftrightarrow>
     Version 2026 3 \<le> Version (int 2026) (int 3)"
  by (rule counters_from_release) simp

section \<open>Single operations\<close>

text \<open>
  C13. \<open>resolve_api_host\<close> asks the candidate addresses in order, each once, and takes the first that
  answers with the node's own host ID; it returns None exactly after all of them failed to.
\<close>

theorem resolve_takes_first_own_address:
  assumes "result (resolve_among E r as) s = Inr found"
  shows "map fst (trace_of (resolve_among E r as) s) =
      map (ask_id (api_port s)) (take (length (trace_of (resolve_among E r as) s)) as) \<and>
    (case found of
       None \<Rightarrow> length (trace_of (resolve_among E r as) s) = length as \<and>
               (\<forall>ca \<in> set (trace_of (resolve_among E r as) s). \<not> says r ca)
     | Some a \<Rightarrow> trace_of (resolve_among E r as) s \<noteq> [] \<and>
                length (trace_of (resolve_among E r as) s) \<le> length as \<and>
                a = as ! (length (trace_of (resolve_among E r as) s) - 1) \<and>
                says r (last (trace_of (resolve_among E r as) s)) \<and>
                (\<forall>ca \<in> set (butlast (trace_of (resolve_among E r as) s)). \<not> says r ca))"
  by (rule resolve_among_run [OF run_Inr [OF assms]])

lemma resolve_takes_first_own_address_witness:
  "''10.0.0.1'' = [''10.0.0.9'', ''10.0.0.1''] !
     (length (trace_of (resolve_among demo_env ''n1'' [''10.0.0.9'', ''10.0.0.1'']) (demo_nodes ''vnodes'')) - 1)"
  using resolve_takes_first_own_address [OF demo_resolve] by simp



text \<open>
  C15. \<open>pick_control\<close> takes the first node whose API answers, never the excluded one; every node before
  it, or every node if it returns None, was excluded, has no address, or failed to answer.
\<close>

theorem pick_control_first_answering:
  assumes "result (pick_control E refs x) s = Inr found"
  shows "picked refs s x (trace_of (pick_control E refs x) s) found"
  by (rule pick_control_run [OF run_Inr [OF assms]])

lemma pick_control_first_answering_witness:
  "picked [''n1'', ''n2''] (demo_nodes ''vnodes'') (Some ''n1'')
     (trace_of (pick_control demo_env [''n1'', ''n2''] (Some ''n1'')) (demo_nodes ''vnodes'')) (Some ''n2'')"
  by (rule pick_control_first_answering [OF demo_pick])

text \<open>
  C16. A restart that succeeded went through its steps in order: the drain at the node's address, the
  deletion of its pod (with Kubernetes), a later check at which that address no longer answered, and
  after it the node serving again: at an address \<open>h\<close> that was the node's before, or that has given the
  node's host ID meanwhile, the node itself answered True to \<open>native_transport\<close>, and then the control
  node answered a list of live endpoints with \<open>h\<close> in it; these two were the last requests.
\<close>

theorem restart_steps_in_order:
  assumes "result (restart_node E r c opts k) s = Inr ()"
  shows "restarted r c opts k s (trace_of (restart_node E r c opts k) s) (final (restart_node E r c opts k) s)"
  by (rule restart_node_restarted [OF run_Inr [OF assms]])

lemma restart_steps_in_order_witness:
  "restarted ''n1'' ''n2'' demo_opts no_kubernetes (demo_nodes ''vnodes'')
     (trace_of (restart_node demo_env ''n1'' ''n2'' demo_opts no_kubernetes) (demo_nodes ''vnodes''))
     (final (restart_node demo_env ''n1'' ''n2'' demo_opts no_kubernetes) (demo_nodes ''vnodes''))"
  by (rule restart_steps_in_order [OF demo_restart])

text \<open>
  C17. \<open>wait_node_mode\<close> returns True only after the node was seen in the wanted mode for every keyspace,
  and False only after the timeout has passed.
\<close>

theorem wait_node_mode_truthful:
  assumes "result (wait_node_mode E c r kss want timeout) s = Inr reached"
  shows "(reached \<longrightarrow> (\<forall>ks \<in> set kss. observed ks r (Uses (JStr want)) (trace_of (wait_node_mode E c r kss want timeout) s))) \<and>
    (\<not> reached \<longrightarrow> clock s + timeout * second \<le> clock (final (wait_node_mode E c r kss want timeout) s))"
  by (rule wait_node_mode_result [OF run_Inr [OF assms]])

lemma wait_node_mode_truthful_witness:
  "observed ''app'' ''n1'' (Uses (JStr ''vnodes''))
     (trace_of (wait_node_mode demo_env ''n2'' ''n1'' [''app''] ''vnodes'' 30) (demo_nodes ''vnodes''))"
  using wait_node_mode_truthful [OF demo_wait] by simp

end
